(* ===== verification/Output.thy ===== *)
theory Output
  imports Complex_Main
begin

section \<open>What a finished program has printed\<close>

text \<open>
  The data behind the summary that the client prints before it calls \<open>exit\<close> (client/client.cc, \<open>print_summary\<close>), and the file of
  inter-arrival times it may leave. An exit of the program carries them, so that a statement on how the program ends
  speaks of what the user sees. The layout of the text is left out.
\<close>

text \<open>Minimum, mean, standard deviation, 99th and 99.9th percentile, maximum: the arguments of one \<open>printf\<close>.\<close>

type_synonym row = "nat \<times> real \<times> real \<times> nat \<times> nat \<times> nat"

record summary =
  hit_rate :: real
  target_rate :: real
  service_row :: row
  buffer_row :: row
  wait_row :: "row option"
  rx_rate :: real
  rx_mbytes :: real
  tx_rate :: real
  tx_mbytes :: real
  missed_sent :: "nat \<times> nat"
  missed_percent :: real

datatype report = Machine_readable real "nat list" | Human_readable summary

text \<open>What was printed before the exit: the lines of a message, or the summary, with the name and lines of the file that was
  written.\<close>

datatype printed = Text "string list" | Summary report "(string \<times> int list) option"

end
