(* ===== verification/Mut_Base.thy ===== *)
theory Mut_Base
  imports Output "HOL-Library.Word"
begin

section \<open>Prelude: results, machine sizes, array copies\<close>

text \<open>
  What every component of the model shares.
  \<^item> A C++ exception is a value of \<open>exn\<close>; an operation that may throw returns
    \<open>'a res\<close>, with \<open>Inl\<close> for the exception. A step the C++ standard leaves undefined
    (an access outside an array, a call through a null pointer) is the exception
    \<open>Undefined_behaviour\<close>, so that no theorem can lean on a value the code does not have. A call
    of \<open>exit\<close> is \<open>Exit\<close> with its status and what was printed.
  \<^item> \<open>rbind\<close> sequences two operations; the rules of \<open>res_simps\<close> invert it.
  \<^item> \<open>size_sub\<close> is subtraction on the 64-bit unsigned \<open>size_t\<close>, which wraps.
  \<^item> \<open>le_bytes\<close> and \<open>of_le\<close> are an unsigned integer in the memory of a little-endian host.
  \<^item> \<open>slice\<close> and \<open>blit\<close> are a read and a \<open>memcpy\<close> of a run of an array.
\<close>

named_theorems res_simps

type_synonym byte = "8 word"

subsection \<open>Exceptions and results\<close>

datatype exn =
    Invalid_argument string
  | System_error int string
  | Runtime_error string
  | Bad_function_call
  | Undefined_behaviour string
  | Exit int printed

type_synonym 'a res = "exn + 'a"

text \<open>The error numbers of Linux that the code names.\<close>

definition ENOSPC :: int where "ENOSPC = 28"
definition EAGAIN :: int where "EAGAIN = 11"
definition EIO :: int where "EIO = 5"
definition EINPROGRESS :: int where "EINPROGRESS = 115"

fun rbind :: "'e + 'a \<Rightarrow> ('a \<Rightarrow> 'e + 'b) \<Rightarrow> 'e + 'b" where
  "rbind (Inl e) f = Inl e"
| "rbind (Inr a) f = f a"

lemma rbind_eq_Inr [res_simps]: "rbind m f = Inr b \<longleftrightarrow> (\<exists>a. m = Inr a \<and> f a = Inr b)"
  by (cases m) auto

lemma rbind_eq_Inl [res_simps]:
  "rbind m f = Inl e \<longleftrightarrow> m = Inl e \<or> (\<exists>a. m = Inr a \<and> f a = Inl e)"
  by (cases m) auto

lemma rbind_assoc: "rbind (rbind m f) g = rbind m (\<lambda>x. rbind (f x) g)"
  by (cases m) auto

lemma rbind_Inr_right [simp]: "rbind m Inr = m"
  by (cases m) auto

lemma rbind_cong [fundef_cong]:
  "m = m' \<Longrightarrow> (\<And>a. m' = Inr a \<Longrightarrow> f a = f' a) \<Longrightarrow> rbind m f = rbind m' f'"
  by (cases m') auto

definition is_ok :: "'e + 'a \<Rightarrow> bool" where
  "is_ok r = (case r of Inl _ \<Rightarrow> False | Inr _ \<Rightarrow> True)"

lemma is_ok_simps [simp]: "is_ok (Inr a)" "\<not> is_ok (Inl e)"
  by (simp_all add: is_ok_def)

lemma is_ok_iff: "is_ok r \<longleftrightarrow> (\<exists>a. r = Inr a)"
  by (cases r) auto

text \<open>From an evaluated outcome to the existence of the final state.\<close>

lemma run_outcome:
  "(case m of Inl _ \<Rightarrow> False | Inr (s, u, k) \<Rightarrow> u = v \<and> k = w) \<Longrightarrow> \<exists>s. m = Inr (s, v, w)"
  by (auto split: sum.splits)

subsection \<open>Subtraction on \<open>size_t\<close>\<close>

definition size_sub :: "nat \<Rightarrow> nat \<Rightarrow> nat" where
  "size_sub a b = (if b \<le> a then a - b else 2 ^ 64 + a - b)"

lemma size_sub_le [simp]: "b \<le> a \<Longrightarrow> size_sub a b = a - b"
  by (simp add: size_sub_def)

subsection \<open>Runs of an array\<close>

definition slice :: "'a list \<Rightarrow> nat \<Rightarrow> nat \<Rightarrow> 'a list" where
  "slice xs i n = take n (drop i xs)"

definition blit :: "'a list \<Rightarrow> nat \<Rightarrow> 'a list \<Rightarrow> 'a list" where
  "blit xs i ys = take i xs @ ys @ drop (i + length ys) xs"

lemma length_slice [simp]: "length (slice xs i n) = min n (length xs - i)"
  by (simp add: slice_def)

lemma nth_slice [simp]: "j < n \<Longrightarrow> i + j < length xs \<Longrightarrow> slice xs i n ! j = xs ! (i + j)"
  by (simp add: slice_def)

lemma length_blit [simp]: "i + length ys \<le> length xs \<Longrightarrow> length (blit xs i ys) = length xs"
  by (simp add: blit_def)

lemma blit_Nil [simp]: "blit xs i [] = xs"
  by (simp add: blit_def)

lemma nth_blit:
  assumes "i + length ys \<le> length xs" "j < length xs"
  shows "blit xs i ys ! j = (if i \<le> j \<and> j < i + length ys then ys ! (j - i) else xs ! j)"
  using assms by (auto simp: blit_def nth_append min_def)

lemma blit_one: "i < length xs \<Longrightarrow> blit xs i [y] = xs[i := y]"
  by (simp add: blit_def upd_conv_take_nth_drop)

subsection \<open>List facts the components share\<close>

lemma map_nth_upt_drop: "map (\<lambda>i. f (n + i)) [0..<m] = map f [n..<n + m]"
  by (rule nth_equalityI) auto

lemma take_map_upt: "take n (map f [0..<m]) = map f [0..<min n m]"
  by (rule nth_equalityI) auto

lemma drop_map_upt: "drop n (map f [0..<m]) = map (\<lambda>i. f (n + i)) [0..<m - n]"
  by (rule nth_equalityI) auto

subsection \<open>The bytes of an integer, least significant first\<close>

definition le_bytes :: "nat \<Rightarrow> nat \<Rightarrow> byte list" where
  "le_bytes k v = map (\<lambda>i. word_of_nat (v div 256 ^ i)) [0..<k]"

fun of_le :: "byte list \<Rightarrow> nat" where
  "of_le [] = 0"
| "of_le (b # bs) = unat b + 256 * of_le bs"

lemma length_le_bytes [simp]: "length (le_bytes k v) = k"
  by (simp add: le_bytes_def)

lemma le_bytes_0 [simp]: "le_bytes 0 v = []"
  by (simp add: le_bytes_def)

lemma le_bytes_Suc: "le_bytes (Suc k) v = word_of_nat v # le_bytes k (v div 256)"
proof (rule nth_equalityI)
  fix i assume "i < length (le_bytes (Suc k) v)"
  then show "le_bytes (Suc k) v ! i = (word_of_nat v # le_bytes k (v div 256)) ! i"
    by (cases i) (auto simp: le_bytes_def div_mult2_eq simp del: upt_Suc)
qed simp

lemma byte_bound: "unat (b :: byte) < 256"
  using unsigned_less [of b] by simp

lemma of_le_bound: "of_le bs < 256 ^ length bs"
proof (induction bs)
  case (Cons b bs)
  then show ?case using byte_bound [of b] by simp
qed simp

lemma le_bytes_of_le: "le_bytes (length bs) (of_le bs) = bs"
proof (induction bs)
  case (Cons b bs)
  have "(unat b + 256 * of_le bs) div 256 = of_le bs" using byte_bound [of b] by simp
  moreover have "word_of_nat (unat b + 256 * of_le bs) = b"
  proof -
    have "unat (word_of_nat (unat b + 256 * of_le bs) :: byte) = (unat b + 256 * of_le bs) mod 2 ^ 8"
      by (simp only: unat_of_nat len_num0 len_num1 len_bit0 len_bit1) simp
    also have "\<dots> = unat b" using byte_bound [of b] by simp
    finally show ?thesis by (simp only: word_unat_eq_iff)
  qed
  ultimately show ?case using Cons by (simp add: le_bytes_Suc)
qed simp

lemma of_le_le_bytes: "v < 256 ^ k \<Longrightarrow> of_le (le_bytes k v) = v"
proof (induction k arbitrary: v)
  case (Suc k)
  then have "v div 256 < 256 ^ k" by (simp add: less_mult_imp_div_less mult.commute)
  moreover have "unat (word_of_nat v :: byte) = v mod 256" by (simp add: unat_of_nat)
  ultimately show ?case using Suc.IH [of "v div 256"] by (simp add: le_bytes_Suc)
qed simp

end
