(* ===== verification/Ring_Buffer.thy ===== *)
theory Ring_Buffer
  imports Mut_Base
begin

section \<open>The circular buffer (client/buffer.hh)\<close>

text \<open>
  \<open>buffer<T, BUFSZ>\<close> of \<^verbatim>\<open>buffer.hh\<close>: a fixed array \<open>buf\<close>, the
  pointers \<open>head\<close> and \<open>tail\<close>, and the count \<open>used\<close>. A pointer into
  \<open>buf\<close> is modelled by its offset from \<open>buf\<close>, so \<open>buf\<close> itself is offset 0,
  \<open>bufcap()\<close> is \<open>BUFSZ\<close> and the null pointer of the second segment is \<open>None\<close>.
  The template parameter \<open>BUFSZ\<close> is the length of \<open>buf\<close>. A \<open>size_type &len\<close> that
  an operation changes is returned with the result. The second half abstracts a buffer to the
  list of its items (\<open>contents\<close>), under the invariant \<open>wf_buffer\<close>, and proves that every
  operation is the list operation it stands for.
\<close>

subsection \<open>State and operations\<close>

record 'a buffer =
  buf :: "'a list"
  head :: nat
  tail :: nat
  used :: nat

definition bufcap :: "'a buffer \<Rightarrow> nat" where
  "bufcap b = length (buf b)"

definition buffer_new :: "'a \<Rightarrow> nat \<Rightarrow> 'a buffer" where
  "buffer_new x BUFSZ = \<lparr>buf = replicate BUFSZ x, head = 0, tail = 0, used = 0\<rparr>"

definition buffer_size :: "'a buffer \<Rightarrow> nat" where
  "buffer_size b = length (buf b)"

definition items :: "'a buffer \<Rightarrow> nat" where
  "items b = used b"

definition space :: "'a buffer \<Rightarrow> nat" where
  "space b = buffer_size b - used b"

definition queue_prep :: "'a buffer \<Rightarrow> nat \<Rightarrow> (nat \<times> nat option \<times> nat) res" where
  "queue_prep b len =
     (if len = 0 then Inl (Invalid_argument ''buffer::queue_prep: len = 0'')
      else if used b = buffer_size b
        then Inl (System_error ENOSPC ''buffer::queue_prep: buffer full'')
      else if len > space b
        then Inl (System_error ENOSPC ''buffer::queue_prep: not enough buffer space '')
      else let p1 = tail b in
        if head b \<le> tail b then
          let avail = bufcap b - tail b in
          if len \<ge> avail then Inr (p1, Some 0, avail) else Inr (p1, None, len)
        else Inr (p1, None, len))"

definition queue_commit :: "'a buffer \<Rightarrow> nat \<Rightarrow> 'a buffer res" where
  "queue_commit b len =
     (if len = 0 then Inl (Invalid_argument ''buffer::queue_commit: len = 0'')
      else if used b = buffer_size b
        then Inl (System_error ENOSPC ''buffer::queue_commit: buffer full'')
      else if len > space b
        then Inl (System_error ENOSPC ''buffer::queue_commit: not enough buffer space '')
      else
        let tail' =
          (if head b \<le> tail b then
             let end_free = bufcap b - tail b in
             if len < end_free then tail b + len else len - end_free
           else tail b + len)
        in Inr (b\<lparr>tail := tail', used := used b + len\<rparr>))"

definition queue :: "'a buffer \<Rightarrow> nat \<Rightarrow> (nat \<times> nat \<times> 'a buffer) res" where
  "queue b len0 =
     (let len = (if len0 > space b \<and> space b > 0 then space b else len0) in
      rbind (queue_prep b len) (\<lambda>(p1, p2, len').
      rbind (queue_commit b len') (\<lambda>b'. Inr (p1, len', b'))))"

definition queue_emplace :: "'a buffer \<Rightarrow> 'a \<Rightarrow> (nat \<times> 'a buffer) res" where
  "queue_emplace b x =
     rbind (queue b 1) (\<lambda>(p, n, b'). Inr (p, b'\<lparr>buf := (buf b')[p := x]\<rparr>))"

definition last_item :: "'a buffer \<Rightarrow> nat res" where
  "last_item b =
     (if used b = 0 then Inl (System_error ENOSPC ''buffer::last: buffer empty'')
      else if tail b = 0 then Inr (bufcap b - 1)
      else Inr (tail b - 1))"

definition peek :: "'a buffer \<Rightarrow> nat \<Rightarrow> (nat \<times> nat option \<times> nat) res" where
  "peek b len =
     (if len = 0 then Inl (Invalid_argument ''buffer::peek: len = 0'')
      else if used b = 0 then Inl (System_error ENOSPC ''buffer::peek: buffer empty'')
      else if len > items b then Inl (System_error ENOSPC ''buffer::peek: not enough items'')
      else let p1 = head b in
        if head b \<ge> tail b then
          let end_used = bufcap b - head b in
          if len > end_used then Inr (p1, Some 0, end_used) else Inr (p1, None, len)
        else Inr (p1, None, len))"

definition drop_items :: "'a buffer \<Rightarrow> nat \<Rightarrow> 'a buffer res" where
  "drop_items b len =
     (if len = 0 then Inr b
      else if used b = 0 then Inl (System_error ENOSPC ''buffer::drop: buffer empty'')
      else if len > items b then Inl (System_error ENOSPC ''buffer::drop: not enough items'')
      else
        let head' = (if head b \<ge> tail b \<and> len \<ge> bufcap b - head b
                     then len - (bufcap b - head b) else head b + len)
        in Inr (b\<lparr>head := head', used := used b - len\<rparr>))"

definition clear :: "'a buffer \<Rightarrow> 'a buffer res" where
  "clear b = drop_items b (items b)"

definition dequeue :: "'a buffer \<Rightarrow> nat \<Rightarrow> (nat \<times> nat \<times> 'a buffer) res" where
  "dequeue b len0 =
     (let len = (if len0 > used b then used b else len0) in
      rbind (peek b len) (\<lambda>(p1, p2, len').
      rbind (drop_items b len') (\<lambda>b'. Inr (p1, len', b'))))"

definition dequeue_one :: "'a buffer \<Rightarrow> (nat \<times> 'a buffer) res" where
  "dequeue_one b = rbind (dequeue b 1) (\<lambda>(p, n, b'). Inr (p, b'))"

subsection \<open>Iterators\<close>

text \<open>
  \<open>buffer_iterator\<close>: the current pointer and the two span pointers, null unless the items wrap.
  \<open>range_slots\<close> lists the slots a range-based \<open>for\<close> loop visits. The loop of the code has no
  bound of its own; the model gives it one pass over the array as fuel and \<open>None\<close> when it has not
  met the end iterator by then, which \<open>range_slots_total\<close> below excludes.
\<close>

record iterator =
  ptr :: nat
  span1_end :: "nat option"
  span2_start :: "nat option"

definition iter_incr :: "iterator \<Rightarrow> iterator" where
  "iter_incr it =
     (let p = ptr it + 1 in
      case (span1_end it, span2_start it) of
        (Some e, Some s) \<Rightarrow> it\<lparr>ptr := (if p = e then s else p)\<rparr>
      | _ \<Rightarrow> it\<lparr>ptr := p\<rparr>)"

definition iter_decr :: "iterator \<Rightarrow> iterator" where
  "iter_decr it =
     (case (span1_end it, span2_start it) of
        (Some e, Some s) \<Rightarrow> it\<lparr>ptr := (if ptr it = s then e else ptr it) - 1\<rparr>
      | _ \<Rightarrow> it\<lparr>ptr := ptr it - 1\<rparr>)"

definition begin_iter :: "'a buffer \<Rightarrow> iterator" where
  "begin_iter b =
     (if used b = 0 \<or> head b < tail b
      then \<lparr>ptr = head b, span1_end = None, span2_start = None\<rparr>
      else \<lparr>ptr = head b, span1_end = Some (bufcap b), span2_start = Some 0\<rparr>)"

definition end_iter :: "'a buffer \<Rightarrow> iterator" where
  "end_iter b =
     (if used b = 0 \<or> head b < tail b
      then \<lparr>ptr = tail b, span1_end = None, span2_start = None\<rparr>
      else \<lparr>ptr = tail b, span1_end = Some (bufcap b), span2_start = Some 0\<rparr>)"

fun iter_slots :: "nat \<Rightarrow> iterator \<Rightarrow> iterator \<Rightarrow> nat list option" where
  "iter_slots fuel it e =
     (if it = e then Some []
      else case fuel of
        0 \<Rightarrow> None
      | Suc f \<Rightarrow> map_option (Cons (ptr it)) (iter_slots f (iter_incr it) e))"

declare iter_slots.simps [simp del]

definition range_slots :: "'a buffer \<Rightarrow> nat list option" where
  "range_slots b = iter_slots (length (buf b)) (begin_iter b) (end_iter b)"

subsection \<open>The invariant and the abstraction to a list\<close>

definition ring_ix :: "nat \<Rightarrow> nat \<Rightarrow> nat \<Rightarrow> nat" where
  "ring_ix n h i = (if h + i < n then h + i else h + i - n)"

definition slots :: "'a buffer \<Rightarrow> nat list" where
  "slots b = map (ring_ix (length (buf b)) (head b)) [0..<used b]"

definition contents :: "'a buffer \<Rightarrow> 'a list" where
  "contents b = map ((!) (buf b)) (slots b)"

definition wf_buffer :: "'a buffer \<Rightarrow> bool" where
  "wf_buffer b \<longleftrightarrow>
     head b < length (buf b) \<and> used b \<le> length (buf b) \<and>
     tail b = ring_ix (length (buf b)) (head b) (used b)"

lemmas buffer_sizes = bufcap_def buffer_size_def items_def space_def

lemma ring_ix_less: "h < n \<Longrightarrow> i \<le> n \<Longrightarrow> ring_ix n h i < n"
  by (auto simp: ring_ix_def)

lemma ring_ix_inj: "h < n \<Longrightarrow> i < n \<Longrightarrow> j < n \<Longrightarrow> ring_ix n h i = ring_ix n h j \<longleftrightarrow> i = j"
  by (auto simp: ring_ix_def)

lemma ring_ix_add: "h < n \<Longrightarrow> i + j \<le> n \<Longrightarrow> ring_ix n (ring_ix n h i) j = ring_ix n h (i + j)"
  by (auto simp: ring_ix_def)

lemma length_slots [simp]: "length (slots b) = used b"
  by (simp add: slots_def)

lemma length_contents [simp]: "length (contents b) = used b"
  by (simp add: contents_def)

lemma nth_slots [simp]: "i < used b \<Longrightarrow> slots b ! i = ring_ix (length (buf b)) (head b) i"
  by (simp add: slots_def)

lemma nth_contents:
  "i < used b \<Longrightarrow> contents b ! i = buf b ! ring_ix (length (buf b)) (head b) i"
  by (simp add: contents_def)

lemma slots_less: "wf_buffer b \<Longrightarrow> s \<in> set (slots b) \<Longrightarrow> s < length (buf b)"
  by (auto simp: slots_def wf_buffer_def intro: ring_ix_less)

lemma distinct_slots: "wf_buffer b \<Longrightarrow> distinct (slots b)"
  by (auto simp: slots_def wf_buffer_def distinct_map inj_on_def ring_ix_inj)

lemma wf_buffer_tail: "wf_buffer b \<Longrightarrow> tail b < length (buf b)"
  by (simp add: wf_buffer_def ring_ix_less)

lemma wf_buffer_new: "0 < n \<Longrightarrow> wf_buffer (buffer_new x n)"
  by (simp add: wf_buffer_def buffer_new_def ring_ix_def)

lemma contents_new [simp]: "contents (buffer_new x n) = []"
  by (simp add: contents_def slots_def buffer_new_def)

lemma used_new [simp]: "used (buffer_new x n) = 0"
  by (simp add: buffer_new_def)

lemma length_buf_new [simp]: "length (buf (buffer_new x n)) = n"
  by (simp add: buffer_new_def)


subsection \<open>Functional behaviour of the operations\<close>

text \<open>Reserving and committing: the committed buffer has the same array and more used slots.\<close>

lemma queue_prep_ok_iff:
  "wf_buffer b \<Longrightarrow> is_ok (queue_prep b n) \<longleftrightarrow> 0 < n \<and> n \<le> space b"
  by (auto simp: queue_prep_def wf_buffer_def buffer_sizes Let_def)

lemma queue_commit_ok_iff:
  "wf_buffer b \<Longrightarrow> is_ok (queue_commit b n) \<longleftrightarrow> 0 < n \<and> n \<le> space b"
  by (auto simp: queue_commit_def wf_buffer_def buffer_sizes Let_def)

lemma queue_commit_ok:
  assumes "wf_buffer b" "0 < n" "n \<le> space b"
  shows "\<exists>t. queue_commit b n = Inr (b\<lparr>tail := t, used := used b + n\<rparr>) \<and>
    wf_buffer (b\<lparr>tail := t, used := used b + n\<rparr>)"
  using assms by (auto simp: queue_commit_def wf_buffer_def buffer_sizes Let_def ring_ix_def)

lemma queue_prep_segments:
  assumes "wf_buffer b" "queue_prep b n = Inr (p1, p2, n1)"
  shows "p1 = tail b \<and> 0 < n1 \<and> n1 \<le> n \<and> p1 + n1 \<le> length (buf b) \<and>
    (case p2 of None \<Rightarrow> n1 = n
     | Some q \<Rightarrow> q = 0 \<and> p1 + n1 = length (buf b) \<and> n - n1 \<le> head b)"
  using assms
  by (auto simp: queue_prep_def wf_buffer_def buffer_sizes Let_def ring_ix_def split: if_splits)

text \<open>Copying into the reserved segments, first one then the other, as \<open>memcpy\<close> and
  \<open>readv\<close> do.\<close>

definition scatter :: "'a list \<Rightarrow> nat \<Rightarrow> nat \<Rightarrow> nat option \<Rightarrow> 'a list \<Rightarrow> 'a list" where
  "scatter xs p1 n1 p2 data =
     (let xs1 = blit xs p1 (take n1 data) in
      case p2 of None \<Rightarrow> xs1 | Some q \<Rightarrow> blit xs1 q (List.drop n1 data))"

text \<open>\<open>scatter_ok\<close>: what \<open>queue_prep\<close> guarantees of the segments.\<close>

definition scatter_ok :: "nat \<Rightarrow> nat \<Rightarrow> nat \<Rightarrow> nat option \<Rightarrow> nat \<Rightarrow> bool" where
  "scatter_ok N p1 n1 p2 k \<longleftrightarrow> p1 < N \<and> p1 + n1 \<le> N \<and> k \<le> N \<and>
     (case p2 of None \<Rightarrow> k \<le> n1 | Some q \<Rightarrow> q = 0 \<and> p1 + n1 = N)"

lemma length_scatter:
  "scatter_ok (length xs) p1 n1 p2 (length data) \<Longrightarrow> length (scatter xs p1 n1 p2 data) = length xs"
  by (auto simp: scatter_ok_def scatter_def Let_def split: option.splits)

lemma nth_scatter_hit:
  assumes ok: "scatter_ok (length xs) p1 n1 p2 (length data)" and j: "j < length data"
  shows "scatter xs p1 n1 p2 data ! ring_ix (length xs) p1 j = data ! j"
proof (cases p2)
  case None
  then show ?thesis using ok j
    by (simp add: scatter_ok_def scatter_def ring_ix_def nth_blit)
next
  case (Some q)
  let ?xs1 = "blit xs p1 (take n1 data)"
  have b: "p1 + min (length data) n1 \<le> length xs" "q = 0" "p1 + n1 = length xs"
    "length data - n1 \<le> p1"
    using ok Some by (auto simp: scatter_ok_def)
  have eq: "scatter xs p1 n1 p2 data = blit ?xs1 0 (List.drop n1 data)"
    using Some b by (simp add: scatter_def)
  have len: "length ?xs1 = length xs" using b by simp
  show ?thesis
  proof (cases "j < n1")
    case True
    then have "ring_ix (length xs) p1 j = p1 + j" using b by (simp add: ring_ix_def)
    moreover have "blit ?xs1 0 (List.drop n1 data) ! (p1 + j) = ?xs1 ! (p1 + j)"
      using b len True by (subst nth_blit) auto
    moreover have "?xs1 ! (p1 + j) = data ! j"
      using b True j by (subst nth_blit) auto
    ultimately show ?thesis using eq by simp
  next
    case False
    then have "ring_ix (length xs) p1 j = j - n1" using b by (auto simp: ring_ix_def)
    moreover have "blit ?xs1 0 (List.drop n1 data) ! (j - n1) = data ! j"
      using b len False j by (subst nth_blit) auto
    ultimately show ?thesis using eq by simp
  qed
qed

lemma nth_scatter_miss:
  assumes ok: "scatter_ok (length xs) p1 n1 p2 (length data)" and i: "i < length xs"
    and miss: "\<And>j. j < length data \<Longrightarrow> i \<noteq> ring_ix (length xs) p1 j"
  shows "scatter xs p1 n1 p2 data ! i = xs ! i"
proof -
  have first: "\<not> (p1 \<le> i \<and> i < p1 + min (length data) n1)"
  proof
    assume a: "p1 \<le> i \<and> i < p1 + min (length data) n1"
    then have "i = ring_ix (length xs) p1 (i - p1)" using i by (simp add: ring_ix_def)
    moreover have "i - p1 < length data" using a by linarith
    ultimately show False using miss by blast
  qed
  have xs1: "blit xs p1 (take n1 data) ! i = xs ! i"
    using ok first i by (subst nth_blit) (auto simp: scatter_ok_def)
  show ?thesis
  proof (cases p2)
    case None
    then show ?thesis using xs1 by (simp add: scatter_def)
  next
    case (Some q)
    have b: "q = 0" "p1 + n1 = length xs" "length data - n1 \<le> p1" "p1 < length xs"
      using ok Some by (auto simp: scatter_ok_def)
    have second: "\<not> i < length data - n1"
    proof
      assume a: "i < length data - n1"
      then have "i = ring_ix (length xs) p1 (n1 + i)" using b by (simp add: ring_ix_def)
      moreover have "n1 + i < length data" using a by linarith
      ultimately show False using miss by blast
    qed
    have "scatter xs p1 n1 p2 data ! i = blit (blit xs p1 (take n1 data)) 0 (List.drop n1 data) ! i"
      using Some b by (simp add: scatter_def)
    also have "\<dots> = blit xs p1 (take n1 data) ! i"
      using b second i by (subst nth_blit) (auto simp: min_def)
    finally show ?thesis using xs1 by simp
  qed
qed

lemma queue_prep_scatter_ok:
  assumes "wf_buffer b" "queue_prep b n = Inr (p1, p2, n1)" "k \<le> n"
  shows "scatter_ok (length (buf b)) p1 n1 p2 k \<and> p1 = tail b \<and> used b + k \<le> length (buf b)"
proof -
  have "n \<le> space b"
    using queue_prep_ok_iff [OF assms(1), of n] assms(2) by (simp add: is_ok_def)
  then show ?thesis
    using queue_prep_segments [OF assms(1,2)] assms wf_buffer_tail [OF assms(1)]
    by (auto simp: scatter_ok_def space_def buffer_size_def wf_buffer_def split: option.splits)
qed

lemma nth_scatter_old:
  assumes "wf_buffer b" "scatter_ok (length (buf b)) (tail b) n1 p2 (length data)"
    "used b + length data \<le> length (buf b)" "i < used b"
  shows "scatter (buf b) (tail b) n1 p2 data ! ring_ix (length (buf b)) (head b) i = contents b ! i"
proof -
  let ?N = "length (buf b)"
  have wf: "head b < ?N" "used b \<le> ?N" "tail b = ring_ix ?N (head b) (used b)"
    using assms(1) by (auto simp: wf_buffer_def)
  have "ring_ix ?N (head b) i \<noteq> ring_ix ?N (tail b) j" if "j < length data" for j
    using wf assms(3,4) that by (simp add: ring_ix_add ring_ix_inj)
  moreover have "ring_ix ?N (head b) i < ?N"
    using wf assms(4) by (simp add: ring_ix_less)
  ultimately show ?thesis
    using nth_scatter_miss [OF assms(2)] assms(4) by (simp add: nth_contents)
qed

lemma contents_extend:
  assumes "wf_buffer b" "used b + length data \<le> length (buf b)" "length xs = length (buf b)"
    "\<And>i. i < used b \<Longrightarrow> xs ! ring_ix (length (buf b)) (head b) i = contents b ! i"
    "\<And>j. j < length data \<Longrightarrow> xs ! ring_ix (length (buf b)) (tail b) j = data ! j"
  shows "contents (b\<lparr>buf := xs, tail := t, used := used b + length data\<rparr>) = contents b @ data"
    (is "?l = ?r")
proof (rule nth_equalityI)
  show "length ?l = length ?r" by simp
next
  fix i assume "i < length ?l"
  then have i: "i < used b + length data" by simp
  have eq: "?l ! i = xs ! ring_ix (length (buf b)) (head b) i"
    using i assms(3) by (simp add: nth_contents)
  show "?l ! i = ?r ! i"
  proof (cases "i < used b")
    case True
    then show ?thesis using eq assms(4) by (simp add: nth_append)
  next
    case False
    with i obtain j where j: "i = used b + j" "j < length data"
      by (metis add_less_cancel_left le_Suc_ex not_less)
    then have "ring_ix (length (buf b)) (head b) i = ring_ix (length (buf b)) (tail b) j"
      using assms(1,2) by (simp add: wf_buffer_def ring_ix_add)
    with eq j assms(5) show ?thesis by (simp add: nth_append)
  qed
qed

text \<open>Filling the reserved segments and committing what was filled appends it to the contents.\<close>

lemma scatter_commit:
  assumes wf: "wf_buffer b" and prep: "queue_prep b n = Inr (p1, p2, n1)"
    and len: "0 < length data" "length data \<le> n"
  shows "\<exists>b'. queue_commit (b\<lparr>buf := scatter (buf b) p1 n1 p2 data\<rparr>) (length data) = Inr b' \<and>
    wf_buffer b' \<and> contents b' = contents b @ data \<and> length (buf b') = length (buf b) \<and>
    used b' = used b + length data"
proof -
  let ?xs = "scatter (buf b) p1 n1 p2 data"
  let ?b = "b\<lparr>buf := ?xs\<rparr>"
  have so: "scatter_ok (length (buf b)) p1 n1 p2 (length data)" and p1: "p1 = tail b"
    and fits: "used b + length data \<le> length (buf b)"
    using queue_prep_scatter_ok [OF wf prep len(2)] by auto
  note lx = length_scatter [OF so]
  have wf': "wf_buffer ?b" and sp': "length data \<le> space ?b"
    using wf fits lx by (auto simp: wf_buffer_def space_def buffer_size_def)
  obtain t where t: "queue_commit ?b (length data) =
      Inr (?b\<lparr>tail := t, used := used ?b + length data\<rparr>)"
      "wf_buffer (?b\<lparr>tail := t, used := used ?b + length data\<rparr>)"
    using queue_commit_ok [OF wf' len(1) sp'] by blast
  have "contents (b\<lparr>buf := ?xs, tail := t, used := used b + length data\<rparr>) = contents b @ data"
    using fits lx nth_scatter_old [OF wf so [unfolded p1] fits] nth_scatter_hit [OF so] p1
    by (intro contents_extend [OF wf]) auto
  then show ?thesis using t lx by simp
qed


text \<open>\<open>queue\<close> hands out one contiguous run at the end of the queue, as long as fits.\<close>

lemma queue_ok:
  assumes "wf_buffer b" "0 < n" "used b < length (buf b)"
  shows "\<exists>k t. queue b n = Inr (tail b, k, b\<lparr>tail := t, used := used b + k\<rparr>) \<and>
    0 < k \<and> k \<le> n \<and> tail b + k \<le> length (buf b) \<and> used b + k \<le> length (buf b) \<and>
    wf_buffer (b\<lparr>tail := t, used := used b + k\<rparr>)"
proof -
  define m where "m = (if n > space b \<and> space b > 0 then space b else n)"
  have m: "0 < m" "m \<le> n" "m \<le> space b"
    using assms by (auto simp: m_def space_def buffer_size_def)
  then obtain p1 p2 k where prep: "queue_prep b m = Inr (p1, p2, k)"
    using queue_prep_ok_iff [OF assms(1), of m] by (auto simp: is_ok_iff)
  have seg: "p1 = tail b" "0 < k" "k \<le> m" "p1 + k \<le> length (buf b)"
    using queue_prep_segments [OF assms(1) prep] by auto
  obtain t where "queue_commit b k = Inr (b\<lparr>tail := t, used := used b + k\<rparr>)"
    "wf_buffer (b\<lparr>tail := t, used := used b + k\<rparr>)"
    using queue_commit_ok [OF assms(1) seg(2)] seg(3) m(3) by auto
  then have "queue b n = Inr (tail b, k, b\<lparr>tail := t, used := used b + k\<rparr>)"
    using prep seg(1) by (simp add: queue_def m_def [symmetric])
  with seg m show ?thesis
    using \<open>wf_buffer (b\<lparr>tail := t, used := used b + k\<rparr>)\<close> assms(1)
    by (auto simp: space_def buffer_size_def wf_buffer_def)
qed

lemma queue_full:
  "wf_buffer b \<Longrightarrow> used b = length (buf b) \<Longrightarrow> 0 < n \<Longrightarrow>
   queue b n = Inl (System_error ENOSPC ''buffer::queue_prep: buffer full'')"
  by (simp add: queue_def queue_prep_def space_def buffer_size_def)

lemma queue_one:
  assumes "wf_buffer b" "used b < length (buf b)"
  shows "\<exists>t. queue b 1 = Inr (tail b, 1, b\<lparr>tail := t, used := used b + 1\<rparr>) \<and>
    wf_buffer (b\<lparr>tail := t, used := used b + 1\<rparr>)"
proof -
  obtain k t where k: "queue b 1 = Inr (tail b, k, b\<lparr>tail := t, used := used b + k\<rparr>)"
    "0 < k" "k \<le> 1" "wf_buffer (b\<lparr>tail := t, used := used b + k\<rparr>)"
    using queue_ok [OF assms(1) _ assms(2), of 1] by auto
  then have "k = 1" by simp
  with k(1,4) show ?thesis by blast
qed

lemma wf_buffer_update [simp]: "length xs = length (buf b) \<Longrightarrow>
   wf_buffer (b\<lparr>buf := xs, tail := t, used := u\<rparr>) = wf_buffer (b\<lparr>tail := t, used := u\<rparr>)"
  by (simp add: wf_buffer_def)

lemma wf_buffer_buf [simp]: "length xs = length (buf b) \<Longrightarrow> wf_buffer (b\<lparr>buf := xs\<rparr>) = wf_buffer b"
  by (simp add: wf_buffer_def)

lemma buffer_update_order [simp]:
  "b\<lparr>tail := t, used := u, buf := xs\<rparr> = b\<lparr>buf := xs, tail := t, used := u\<rparr>"
  by (cases b) simp

text \<open>Storing one item at the slot \<open>queue\<close> returned, as placement-new and assignment do.\<close>

lemma contents_store_one:
  assumes "wf_buffer b" "used b < length (buf b)"
  shows "contents (b\<lparr>buf := (buf b)[tail b := x], tail := t, used := used b + 1\<rparr>) = contents b @ [x]"
proof -
  let ?N = "length (buf b)"
  have wf: "head b < ?N" "used b \<le> ?N" "tail b = ring_ix ?N (head b) (used b)"
    using assms(1) by (auto simp: wf_buffer_def)
  have "contents (b\<lparr>buf := (buf b)[tail b := x], tail := t, used := used b + length [x]\<rparr>)
      = contents b @ [x]"
  proof (rule contents_extend [OF assms(1)])
    fix i assume i: "i < used b"
    then have "tail b \<noteq> ring_ix ?N (head b) i"
      using wf assms(2) by (simp add: ring_ix_inj)
    with i show "(buf b)[tail b := x] ! ring_ix ?N (head b) i = contents b ! i"
      by (simp add: nth_contents)
  next
    fix j assume "j < length [x]"
    then show "(buf b)[tail b := x] ! ring_ix ?N (tail b) j = [x] ! j"
      using wf_buffer_tail [OF assms(1)] by (simp add: ring_ix_def)
  qed (use assms in auto)
  then show ?thesis by simp
qed

lemma queue_emplace_ok:
  assumes "wf_buffer b" "used b < length (buf b)"
  shows "\<exists>b'. queue_emplace b x = Inr (tail b, b') \<and> wf_buffer b' \<and>
    contents b' = contents b @ [x] \<and> length (buf b') = length (buf b) \<and>
    used b' = used b + 1 \<and> buf b' = (buf b)[tail b := x] \<and> head b' = head b"
proof -
  obtain t where t: "queue b 1 = Inr (tail b, 1, b\<lparr>tail := t, used := used b + 1\<rparr>)"
    "wf_buffer (b\<lparr>tail := t, used := used b + 1\<rparr>)"
    using queue_one [OF assms] by blast
  have "contents (b\<lparr>buf := (buf b)[tail b := x], tail := t, used := used b + 1\<rparr>) = contents b @ [x]"
    by (rule contents_store_one [OF assms])
  with t show ?thesis by (auto simp: queue_emplace_def)
qed

lemma queue_emplace_full:
  "wf_buffer b \<Longrightarrow> used b = length (buf b) \<Longrightarrow>
   queue_emplace b x = Inl (System_error ENOSPC ''buffer::queue_prep: buffer full'')"
  by (simp add: queue_emplace_def queue_full)

text \<open>Reading: the two segments \<open>peek\<close> returns, read in order, are the first items.\<close>

definition gather :: "'a list \<Rightarrow> nat \<Rightarrow> nat \<Rightarrow> nat option \<Rightarrow> nat \<Rightarrow> 'a list" where
  "gather xs p1 n1 p2 n = slice xs p1 n1 @ (case p2 of None \<Rightarrow> [] | Some q \<Rightarrow> slice xs q (n - n1))"

lemma peek_ok_iff: "wf_buffer b \<Longrightarrow> is_ok (peek b n) \<longleftrightarrow> 0 < n \<and> n \<le> used b"
  by (auto simp: peek_def wf_buffer_def buffer_sizes Let_def)

lemma peek_segments:
  assumes "wf_buffer b" "peek b n = Inr (p1, p2, n1)"
  shows "p1 = head b \<and> 0 < n1 \<and> n1 \<le> n \<and> n \<le> used b \<and> p1 + n1 \<le> length (buf b) \<and>
    (case p2 of None \<Rightarrow> n1 = n | Some q \<Rightarrow> q = 0 \<and> n1 < n \<and> p1 + n1 = length (buf b))"
  using assms
  by (auto simp: peek_def wf_buffer_def buffer_sizes Let_def ring_ix_def split: if_splits)

lemma gather_contents:
  assumes "wf_buffer b" "peek b n = Inr (p1, p2, n1)"
  shows "gather (buf b) p1 n1 p2 n = take n (contents b)"
proof (rule nth_equalityI)
  note seg = peek_segments [OF assms]
  have u: "used b \<le> length (buf b)" using assms(1) by (simp add: wf_buffer_def)
  show "length (gather (buf b) p1 n1 p2 n) = length (take n (contents b))"
    using seg u by (auto simp: gather_def split: option.splits)
  fix i assume "i < length (gather (buf b) p1 n1 p2 n)"
  then have i: "i < n" using seg by (auto simp: gather_def split: option.splits)
  have "gather (buf b) p1 n1 p2 n ! i = buf b ! ring_ix (length (buf b)) (head b) i"
    using seg i u by (auto simp: gather_def nth_append ring_ix_def split: option.splits
        intro!: arg_cong [where f = "(!) (buf b)"])
  then show "gather (buf b) p1 n1 p2 n ! i = take n (contents b) ! i"
    using seg i by (simp add: nth_contents)
qed

lemma peek_ok:
  assumes "wf_buffer b" "0 < n" "n \<le> used b"
  shows "\<exists>p2 n1. peek b n = Inr (head b, p2, n1) \<and> n1 \<le> n \<and>
    gather (buf b) (head b) n1 p2 n = take n (contents b)"
proof -
  obtain p1 p2 n1 where p: "peek b n = Inr (p1, p2, n1)"
    using peek_ok_iff [OF assms(1), of n] assms(2,3) by (auto simp: is_ok_iff)
  with peek_segments [OF assms(1) p] gather_contents [OF assms(1) p] show ?thesis by auto
qed

text \<open>Dropping.\<close>

lemma drop_items_ok:
  assumes "wf_buffer b" "n \<le> used b"
  shows "\<exists>b'. drop_items b n = Inr b' \<and> wf_buffer b' \<and> contents b' = List.drop n (contents b) \<and>
    buf b' = buf b \<and> used b' = used b - n \<and> tail b' = tail b \<and>
    slots b' = List.drop n (slots b)"
proof (cases "n = 0")
  case True
  then show ?thesis using assms by (simp add: drop_items_def)
next
  case False
  let ?N = "length (buf b)"
  have wf: "head b < ?N" "used b \<le> ?N" "tail b = ring_ix ?N (head b) (used b)"
    using assms(1) by (auto simp: wf_buffer_def)
  define h where "h = ring_ix ?N (head b) n"
  define b' where "b' = b\<lparr>head := h, used := used b - n\<rparr>"
  have h: "h < ?N" using wf assms(2) by (simp add: h_def ring_ix_less)
  have "(if head b \<ge> tail b \<and> n \<ge> ?N - head b then n - (?N - head b) else head b + n) = h"
    using wf assms(2) False by (auto simp: h_def ring_ix_def split: if_splits)
  then have eq: "drop_items b n = Inr b'"
    using False assms(2) by (auto simp: drop_items_def b'_def buffer_sizes split: if_splits)
  have shift: "ring_ix ?N h i = ring_ix ?N (head b) (n + i)" if "i \<le> used b - n" for i
    using wf assms(2) that by (simp add: h_def ring_ix_add)
  have sl: "slots b' = List.drop n (slots b)"
    using shift by (intro nth_equalityI) (auto simp: b'_def)
  then have "contents b' = List.drop n (contents b)"
    by (simp add: contents_def drop_map b'_def)
  moreover have "wf_buffer b'"
    using h wf assms(2) shift [of "used b - n"] by (simp add: wf_buffer_def b'_def)
  ultimately show ?thesis using eq sl by (simp add: b'_def)
qed

lemma drop_items_err:
  "wf_buffer b \<Longrightarrow> used b < n \<Longrightarrow> \<exists>m. drop_items b n = Inl (System_error ENOSPC m)"
  by (simp add: drop_items_def buffer_sizes)

lemma drop_items_ok_iff: "wf_buffer b \<Longrightarrow> is_ok (drop_items b n) \<longleftrightarrow> n \<le> used b"
  using drop_items_ok [of b n] drop_items_err [of b n] by (cases "n \<le> used b") auto

lemma dequeue_one_ok:
  assumes "wf_buffer b" "0 < used b"
  shows "\<exists>b'. dequeue_one b = Inr (head b, b') \<and> wf_buffer b' \<and>
    buf b ! head b = hd (contents b) \<and> contents b' = tl (contents b) \<and> buf b' = buf b \<and>
    used b' = used b - 1 \<and> slots b' = tl (slots b)"
proof -
  obtain p2 n1 where p: "peek b 1 = Inr (head b, p2, n1)"
    using peek_ok [OF assms(1), of 1] assms(2) by auto
  then have "n1 = 1" using peek_segments [OF assms(1) p] by simp
  moreover obtain b' where "drop_items b 1 = Inr b'" "wf_buffer b'"
    "contents b' = tl (contents b)" "buf b' = buf b" "used b' = used b - 1"
    "slots b' = tl (slots b)"
    using drop_items_ok [OF assms(1), of 1] assms(2) by (auto simp: drop_Suc)
  moreover have "buf b ! head b = hd (contents b)"
    using assms by (simp add: hd_conv_nth nth_contents wf_buffer_def ring_ix_def
        flip: length_greater_0_conv)
  ultimately show ?thesis using p assms(2) by (simp add: dequeue_one_def dequeue_def)
qed

lemma dequeue_empty:
  "used b = 0 \<Longrightarrow> dequeue b n = Inl (Invalid_argument ''buffer::peek: len = 0'')"
  by (simp add: dequeue_def peek_def)


subsection \<open>Iteration\<close>

text \<open>\<open>iter_at b k\<close> is the iterator at the \<open>k\<close>-th item. The begin iterator is at 0, the end
  iterator at \<open>used\<close>; they differ unless the buffer is empty or \<^emph>\<open>full\<close>, where the two
  positions are the same slot.\<close>

definition iter_at :: "'a buffer \<Rightarrow> nat \<Rightarrow> iterator" where
  "iter_at b k = (begin_iter b)\<lparr>ptr := ring_ix (length (buf b)) (head b) k\<rparr>"

lemma begin_iter_at: "wf_buffer b \<Longrightarrow> begin_iter b = iter_at b 0"
  by (simp add: iter_at_def begin_iter_def wf_buffer_def ring_ix_def)

lemma end_iter_at: "wf_buffer b \<Longrightarrow> end_iter b = iter_at b (used b)"
  by (simp add: iter_at_def begin_iter_def end_iter_def wf_buffer_def)

lemma iter_at_eq:
  "wf_buffer b \<Longrightarrow> j < length (buf b) \<Longrightarrow> k < length (buf b) \<Longrightarrow> iter_at b j = iter_at b k \<longleftrightarrow> j = k"
  by (auto simp: iter_at_def begin_iter_def wf_buffer_def ring_ix_inj)

lemma iter_incr_at:
  "wf_buffer b \<Longrightarrow> k < used b \<Longrightarrow> used b < length (buf b) \<Longrightarrow> iter_incr (iter_at b k) = iter_at b (Suc k)"
  by (auto simp: iter_incr_def iter_at_def begin_iter_def wf_buffer_def ring_ix_def bufcap_def)

lemma iter_decr_at:
  "wf_buffer b \<Longrightarrow> k < used b \<Longrightarrow> used b < length (buf b) \<Longrightarrow> iter_decr (iter_at b (Suc k)) = iter_at b k"
  by (auto simp: iter_decr_def iter_at_def begin_iter_def wf_buffer_def ring_ix_def bufcap_def)

lemma iter_slots_from:
  assumes "wf_buffer b" "used b < length (buf b)" "k \<le> used b" "used b - k \<le> f"
  shows "iter_slots f (iter_at b k) (iter_at b (used b)) = Some (List.drop k (slots b))"
  using assms(3,4)
proof (induction f arbitrary: k)
  case 0
  then show ?case by (simp add: iter_slots.simps)
next
  case (Suc f)
  show ?case
  proof (cases "k = used b")
    case True
    then show ?thesis by (simp add: iter_slots.simps)
  next
    case False
    with Suc.prems have k: "k < used b" by simp
    then have "iter_at b k \<noteq> iter_at b (used b)"
      using assms(1,2) by (simp add: iter_at_eq)
    then have "iter_slots (Suc f) (iter_at b k) (iter_at b (used b)) =
        map_option (Cons (ptr (iter_at b k))) (Some (List.drop (Suc k) (slots b)))"
      using Suc.IH [of "Suc k"] Suc.prems k assms(1,2)
      by (simp add: iter_slots.simps [of "Suc f"] iter_incr_at)
    also have "\<dots> = Some (List.drop k (slots b))"
      using k by (simp add: iter_at_def flip: Cons_nth_drop_Suc)
    finally show ?thesis .
  qed
qed

lemma range_slots_eq:
  assumes "wf_buffer b"
  shows "range_slots b = Some (if used b = length (buf b) then [] else slots b)"
proof (cases "used b = length (buf b)")
  case True
  then have "begin_iter b = end_iter b"
    using assms by (simp add: begin_iter_def end_iter_def wf_buffer_def ring_ix_def)
  with True show ?thesis by (simp add: range_slots_def iter_slots.simps)
next
  case False
  then have "used b < length (buf b)" using assms by (simp add: wf_buffer_def)
  then show ?thesis
    using iter_slots_from [OF assms _, of 0 "length (buf b)"] assms False
    by (simp add: range_slots_def begin_iter_at end_iter_at)
qed

subsection \<open>The queue interface\<close>

text \<open>
  What the users of a queue rely on: an item put in arrives at the end of the list, dropping
  removes from the front, both refuse what does not fit and change nothing then.
\<close>

datatype 'a qop = Enq 'a | Deq nat

fun run_ops :: "('q \<Rightarrow> 'a \<Rightarrow> 'q res) \<Rightarrow> ('q \<Rightarrow> nat \<Rightarrow> 'q res) \<Rightarrow> 'q \<Rightarrow> 'a qop list \<Rightarrow> 'q res" where
  "run_ops enq deq q [] = Inr q"
| "run_ops enq deq q (Enq x # ops) = rbind (enq q x) (\<lambda>q'. run_ops enq deq q' ops)"
| "run_ops enq deq q (Deq n # ops) = rbind (deq q n) (\<lambda>q'. run_ops enq deq q' ops)"

fun list_ops :: "nat \<Rightarrow> 'a list \<Rightarrow> 'a qop list \<Rightarrow> 'a list option" where
  "list_ops cap xs [] = Some xs"
| "list_ops cap xs (Enq x # ops) =
     (if length xs < cap then list_ops cap (xs @ [x]) ops else None)"
| "list_ops cap xs (Deq n # ops) =
     (if n \<le> length xs then list_ops cap (List.drop n xs) ops else None)"

locale bounded_queue =
  fixes inv :: "'q \<Rightarrow> bool"
    and view :: "'q \<Rightarrow> 'a list"
    and cap :: "'q \<Rightarrow> nat"
    and enq :: "'q \<Rightarrow> 'a \<Rightarrow> 'q res"
    and deq :: "'q \<Rightarrow> nat \<Rightarrow> 'q res"
  assumes view_bound: "inv q \<Longrightarrow> length (view q) \<le> cap q"
    and enq_ok: "inv q \<Longrightarrow> length (view q) < cap q \<Longrightarrow>
      \<exists>q'. enq q x = Inr q' \<and> inv q' \<and> view q' = view q @ [x] \<and> cap q' = cap q"
    and enq_full: "inv q \<Longrightarrow> length (view q) = cap q \<Longrightarrow> \<not> is_ok (enq q x)"
    and deq_ok: "inv q \<Longrightarrow> n \<le> length (view q) \<Longrightarrow>
      \<exists>q'. deq q n = Inr q' \<and> inv q' \<and> view q' = List.drop n (view q) \<and> cap q' = cap q"
    and deq_short: "inv q \<Longrightarrow> length (view q) < n \<Longrightarrow> \<not> is_ok (deq q n)"
begin

lemma enq_cases:
  assumes "inv q"
  obtains (ok) q' where "length (view q) < cap q" "enq q x = Inr q'" "inv q'"
      "view q' = view q @ [x]" "cap q' = cap q"
  | (full) e where "length (view q) = cap q" "enq q x = Inl e"
proof (cases "length (view q) < cap q")
  case True
  with enq_ok [OF assms True, of x] show ?thesis using ok by blast
next
  case False
  then have "length (view q) = cap q" using view_bound [OF assms] by simp
  with enq_full [OF assms this, of x] show ?thesis using full by (cases "enq q x") auto
qed

lemma deq_cases:
  assumes "inv q"
  obtains (ok) q' where "n \<le> length (view q)" "deq q n = Inr q'" "inv q'"
      "view q' = List.drop n (view q)" "cap q' = cap q"
  | (short) e where "length (view q) < n" "deq q n = Inl e"
proof (cases "n \<le> length (view q)")
  case True
  with deq_ok [OF assms True] show ?thesis using ok by blast
next
  case False
  then show ?thesis using deq_short [OF assms, of n] short by (cases "deq q n") auto
qed

lemma run_refines:
  "inv q \<Longrightarrow> (case list_ops (cap q) (view q) ops of
      None \<Rightarrow> \<not> is_ok (run_ops enq deq q ops)
    | Some l \<Rightarrow> \<exists>q'. run_ops enq deq q ops = Inr q' \<and> inv q' \<and> view q' = l \<and> cap q' = cap q)"
proof (induction ops arbitrary: q)
  case Nil
  then show ?case by simp
next
  case (Cons op ops)
  show ?case
  proof (cases op)
    case (Enq x)
    from Cons.prems show ?thesis
    proof (cases rule: enq_cases [where x = x])
      case (ok q')
      with Enq Cons.IH [of q'] show ?thesis by (simp split: option.splits)
    qed (use Enq in simp)
  next
    case (Deq n)
    from Cons.prems show ?thesis
    proof (cases rule: deq_cases [where n = n])
      case (ok q')
      with Deq Cons.IH [of q'] show ?thesis by (simp split: option.splits)
    qed (use Deq in simp)
  qed
qed

end

definition enq_item :: "'a buffer \<Rightarrow> 'a \<Rightarrow> 'a buffer res" where
  "enq_item b x = rbind (queue_emplace b x) (\<lambda>(p, b'). Inr b')"

interpretation ring: bounded_queue wf_buffer contents "\<lambda>b. length (buf b)" enq_item drop_items
proof unfold_locales
  fix q :: "'a buffer" and x
  assume q: "wf_buffer q"
  show "length (contents q) \<le> length (buf q)" using q by (simp add: wf_buffer_def)
  show "\<exists>q'. enq_item q x = Inr q' \<and> wf_buffer q' \<and> contents q' = contents q @ [x] \<and>
      length (buf q') = length (buf q)" if "length (contents q) < length (buf q)"
    using queue_emplace_ok [OF q, of x] that by (auto simp: enq_item_def)
  show "\<not> is_ok (enq_item q x)" if "length (contents q) = length (buf q)"
    using queue_emplace_full [OF q, of x] that by (simp add: enq_item_def)
next
  fix q :: "'a buffer" and n
  assume q: "wf_buffer q"
  show "\<exists>q'. drop_items q n = Inr q' \<and> wf_buffer q' \<and> contents q' = List.drop n (contents q) \<and>
      length (buf q') = length (buf q)" if "n \<le> length (contents q)"
    using drop_items_ok [OF q, of n] that by auto
  show "\<not> is_ok (drop_items q n)" if "length (contents q) < n"
    using drop_items_err [OF q, of n] that by auto
qed


lemma last_item_ok:
  "wf_buffer b \<Longrightarrow> 0 < used b \<Longrightarrow> \<exists>p. last_item b = Inr p \<and> buf b ! p = last (contents b)"
  by (auto simp: last_item_def wf_buffer_def last_conv_nth nth_contents ring_ix_def bufcap_def
      simp flip: length_greater_0_conv intro!: arg_cong [where f = "(!) (buf b)"])

subsection \<open>Properties\<close>

text \<open>C10: Any sequence of \<open>queue_emplace\<close> and \<open>drop\<close> calls on a new buffer of \<open>N\<close> slots
  behaves like a FIFO list bounded by \<open>N\<close>: it succeeds exactly when the list operations stay
  within the bounds, and the buffer then holds that list in order, wherever the items wrap.\<close>

theorem buffer_refines_list:
  assumes "0 < N"
  shows "case list_ops N [] ops of
      None \<Rightarrow> \<not> is_ok (run_ops enq_item drop_items (buffer_new x N) ops)
    | Some l \<Rightarrow> \<exists>b. run_ops enq_item drop_items (buffer_new x N) ops = Inr b \<and>
        wf_buffer b \<and> contents b = l \<and> buffer_size b = N"
  using ring.run_refines [OF wf_buffer_new [OF assms, of x], of ops]
  by (simp add: buffer_size_def split: option.splits)

theorem buffer_refines_list_witness:
  "\<exists>b. run_ops enq_item drop_items (buffer_new 0 3)
      [Enq (1::nat), Enq 2, Deq 1, Enq 3, Enq 4, Deq 1, Enq 5] = Inr b \<and>
    wf_buffer b \<and> contents b = [3, 4, 5] \<and> buffer_size b = 3"
  using buffer_refines_list [where N = 3 and x = "0 :: nat" and
      ops = "[Enq 1, Enq 2, Deq 1, Enq 3, Enq 4, Deq 1, Enq 5]"]
  by simp

text \<open>\<open>peek\<close>, \<open>queue_prep\<close>, \<open>queue_commit\<close> and \<open>drop\<close> throw exactly when the request is
  empty (except \<open>drop\<close>, which accepts it), larger than the number of items, or larger than the
  free space.\<close>

theorem buffer_requests_served:
  assumes "wf_buffer b"
  shows "(is_ok (peek b n) \<longleftrightarrow> 0 < n \<and> n \<le> items b) \<and>
    (is_ok (queue_prep b n) \<longleftrightarrow> 0 < n \<and> n \<le> space b) \<and>
    (is_ok (queue_commit b n) \<longleftrightarrow> 0 < n \<and> n \<le> space b) \<and>
    (is_ok (drop_items b n) \<longleftrightarrow> n \<le> items b)"
  using assms by (simp add: items_def peek_ok_iff queue_prep_ok_iff queue_commit_ok_iff
      drop_items_ok_iff)

theorem buffer_requests_served_witness:
  "is_ok (peek \<lparr>buf = ''abc'', head = 2, tail = 1, used = 2\<rparr> 2) \<and>
   \<not> is_ok (queue_prep \<lparr>buf = ''abc'', head = 2, tail = 1, used = 2\<rparr> 2)"
  using buffer_requests_served [of "\<lparr>buf = ''abc'', head = 2, tail = 1, used = 2\<rparr>" 2]
  by (simp add: wf_buffer_def ring_ix_def items_def space_def buffer_size_def)

text \<open>The two segments \<open>peek\<close> hands out lie inside the array and, read one after the other,
  are exactly the first \<open>n\<close> items in queue order, also when the items wrap.\<close>

theorem peek_returns_front:
  assumes "wf_buffer b" "0 < n" "n \<le> items b"
  shows "\<exists>p1 p2 n1. peek b n = Inr (p1, p2, n1) \<and> n1 \<le> n \<and> p1 + n1 \<le> buffer_size b \<and>
    (p2 = None \<longrightarrow> n1 = n) \<and> gather (buf b) p1 n1 p2 n = take n (contents b)"
proof -
  obtain p2 n1 where p: "peek b n = Inr (head b, p2, n1)"
    "gather (buf b) (head b) n1 p2 n = take n (contents b)"
    using peek_ok [OF assms(1,2)] assms(3) by (auto simp: items_def)
  with peek_segments [OF assms(1) p(1)] show ?thesis
    by (auto simp: buffer_size_def split: option.splits)
qed

theorem peek_returns_front_witness:
  "\<exists>p1 p2 n1. peek \<lparr>buf = ''abcd'', head = 3, tail = 2, used = 3\<rparr> 2 = Inr (p1, p2, n1) \<and>
    gather ''abcd'' p1 n1 p2 2 = ''da''"
  using peek_returns_front [of "\<lparr>buf = ''abcd'', head = 3, tail = 2, used = 3\<rparr>" 2]
  by (force simp: wf_buffer_def ring_ix_def items_def contents_def slots_def upt_rec)

text \<open>Filling the segments \<open>queue_prep\<close> reserved (with a \<open>memcpy\<close> or a scattering \<open>readv\<close>)
  with at most the reserved amount and committing that amount appends the data to the items
  and disturbs none of them.\<close>

theorem fill_and_commit_appends:
  assumes "wf_buffer b" "queue_prep b n = Inr (p1, p2, n1)" "0 < length data" "length data \<le> n"
  shows "\<exists>b'. queue_commit (b\<lparr>buf := scatter (buf b) p1 n1 p2 data\<rparr>) (length data) = Inr b' \<and>
    wf_buffer b' \<and> contents b' = contents b @ data \<and> items b' = items b + length data"
  using scatter_commit [OF assms] by (auto simp: items_def)

theorem fill_and_commit_appends_witness:
  "\<exists>b'. queue_commit (\<lparr>buf = ''abcd'', head = 1, tail = 3, used = 2\<rparr>
      \<lparr>buf := scatter ''abcd'' 3 1 (Some 0) ''xy''\<rparr>) 2 = Inr b' \<and>
    wf_buffer b' \<and> contents b' = ''bcxy'' \<and> items b' = 4"
proof -
  let ?b = "\<lparr>buf = ''abcd'', head = Suc 0, tail = 3, used = 2\<rparr>"
  have wf: "wf_buffer ?b" and c: "contents ?b = ''bc''"
    and p: "queue_prep ?b 2 = Inr (3, Some 0, 1)"
    by (simp_all add: wf_buffer_def ring_ix_def contents_def slots_def upt_rec queue_prep_def
        space_def buffer_size_def bufcap_def)
  show ?thesis using fill_and_commit_appends [OF wf p, of "''xy''", unfolded c]
    by (simp add: items_def numeral_eq_Suc)
qed

text \<open>\<open>dequeue_one\<close> returns the oldest item and removes just that one, \<open>last\<close> is the newest
  item, and on an empty buffer both throw.\<close>

theorem oldest_and_newest:
  assumes "wf_buffer b"
  shows "if items b = 0 then \<not> is_ok (dequeue_one b) \<and> \<not> is_ok (last_item b)
    else \<exists>p b' l. dequeue_one b = Inr (p, b') \<and> buf b ! p = hd (contents b) \<and>
      wf_buffer b' \<and> contents b' = tl (contents b) \<and>
      last_item b = Inr l \<and> buf b ! l = last (contents b)"
proof (cases "items b = 0")
  case True
  then show ?thesis
    by (simp add: items_def dequeue_one_def dequeue_empty last_item_def)
next
  case False
  then show ?thesis
    using dequeue_one_ok [OF assms] last_item_ok [OF assms] by (auto simp: items_def)
qed

theorem oldest_and_newest_witness:
  "\<exists>p b' l. dequeue_one \<lparr>buf = ''abcd'', head = 3, tail = 2, used = 3\<rparr> = Inr (p, b') \<and>
    ''abcd'' ! p = CHR ''d'' \<and> contents b' = ''ab'' \<and>
    last_item \<lparr>buf = ''abcd'', head = 3, tail = 2, used = 3\<rparr> = Inr l \<and> ''abcd'' ! l = CHR ''b''"
proof -
  let ?b = "\<lparr>buf = ''abcd'', head = 3, tail = 2, used = 3\<rparr>"
  have wf: "wf_buffer ?b" and c: "contents ?b = ''dab''"
    by (simp_all add: wf_buffer_def ring_ix_def contents_def slots_def upt_rec)
  show ?thesis using oldest_and_newest [OF wf] by (auto simp: c items_def)
qed

text \<open>C33: A range-based \<open>for\<close> loop over a buffer ends and visits every item's slot once, oldest
  first, unless the buffer is full: then \<open>begin() == end()\<close> and it visits none.\<close>

theorem range_for_visits:
  assumes "wf_buffer b"
  shows "range_slots b = Some (if items b = buffer_size b then [] else slots b) \<and>
    map ((!) (buf b)) (slots b) = contents b \<and> distinct (slots b)"
  using range_slots_eq [OF assms] distinct_slots [OF assms]
  by (simp add: items_def buffer_size_def contents_def)

theorem range_for_visits_witness:
  "range_slots \<lparr>buf = ''abcd'', head = 2, tail = 1, used = 3\<rparr> = Some [2, 3, 0] \<and>
   range_slots \<lparr>buf = ''abcd'', head = 2, tail = 2, used = 4\<rparr> = Some []"
  using range_for_visits [of "\<lparr>buf = ''abcd'', head = 2, tail = 1, used = 3\<rparr>"]
    range_for_visits [of "\<lparr>buf = ''abcd'', head = 2, tail = 2, used = 4\<rparr>"]
  by (simp add: wf_buffer_def ring_ix_def items_def buffer_size_def slots_def upt_rec)

end
