(* ===== verification/Sock_Buf.thy ===== *)
theory Sock_Buf
  imports Ring_Buffer
begin

section \<open>The asynchronous socket (client/socket_buf.hh, client/socket_buf.cc)\<close>

text \<open>
  The state and the operations of \<open>Sock\<close>. What is outside the program is an argument:
  \<^item> A callback (a \<open>std::function\<close>) is a value of a type \<open>'c\<close> (receive) or \<open>'t\<close>
    (transmit), \<open>None\<close> when empty; the handler argument says what calling it does to the rest of
    the program's state \<open>'u\<close>. A receive handler gets the callback, the socket's address, the callback
    data, the two segments (the second is \<open>None\<close> when the pointer is null) and the status, and returns the
    length it gives. The handlers of the program never touch the socket that calls them.
  \<^item> The kernel is a script: the list of answers its successive \<open>read\<close>/\<open>readv\<close> or
    \<open>write\<close>/\<open>writev\<close> calls give. \<open>RdRet d e\<close> is a call that returned the bytes \<open>d\<close> (\<open>None\<close>:
    it returned -1) and left \<open>errno\<close> at \<open>e\<close>. When the script is used up the kernel
    would block: \<open>EAGAIN\<close>, as for a nonblocking socket with no more data.
  \<^item> \<open>self\<close> is the address of the socket object (\<open>this\<close>).
\<close>

subsection \<open>State\<close>

record ('c, 'd) IORx =
  hdrlen :: nat
  hdrcb :: "'c option"
  bodylen :: nat
  bodycb :: "'c option"
  rxdata :: 'd

record ('t, 'd) IOTx =
  txlen :: nat
  txcb :: "'t option"
  txdata :: 'd

record ('c, 't, 'd) Sock =
  self :: nat
  fd :: int
  connected :: bool
  rx_rdy :: bool
  tx_rdy :: bool
  rx_cbs :: "('c, 'd) IORx buffer"
  rbuf :: "byte buffer"
  tx_cbs :: "('t, 'd) IOTx buffer"
  wbuf :: "byte buffer"
  tx_out :: nat

type_synonym ('c, 'd, 'u) rx_handler =
  "'c \<Rightarrow> nat \<Rightarrow> 'd \<Rightarrow> byte list \<Rightarrow> byte list option \<Rightarrow> int \<Rightarrow> 'u \<Rightarrow> (nat \<times> 'u) res"

type_synonym ('t, 'd, 'u) tx_handler = "'t \<Rightarrow> nat \<Rightarrow> 'd \<Rightarrow> int \<Rightarrow> 'u \<Rightarrow> 'u res"

datatype rd_result = RdRet "byte list option" int
datatype wr_result = WrRet "nat option" int

text \<open>The sizes of \<^verbatim>\<open>limits.hh\<close>. The constructor takes them as arguments, so that the
  theorems hold for every size.\<close>

definition MAX_OUTSTANDING_REQS :: nat where "MAX_OUTSTANDING_REQS = 1000000"
definition CHARBUF_SIZE :: nat where "CHARBUF_SIZE = 200 * 1024 * 1024"

definition IORx_default :: "'d \<Rightarrow> ('c, 'd) IORx" where
  "IORx_default null = \<lparr>hdrlen = 0, hdrcb = None, bodylen = 0, bodycb = None, rxdata = null\<rparr>"

definition IOTx_default :: "'d \<Rightarrow> ('t, 'd) IOTx" where
  "IOTx_default null = \<lparr>txlen = 0, txcb = None, txdata = null\<rparr>"

definition sock_new :: "nat \<Rightarrow> nat \<Rightarrow> nat \<Rightarrow> 'd \<Rightarrow> ('c, 't, 'd) Sock" where
  "sock_new nreqs nchars this null =
     \<lparr>self = this, fd = -1, connected = False, rx_rdy = False, tx_rdy = False,
      rx_cbs = buffer_new (IORx_default null) nreqs, rbuf = buffer_new 0 nchars,
      tx_cbs = buffer_new (IOTx_default null) nreqs, wbuf = buffer_new 0 nchars, tx_out = 0\<rparr>"

subsection \<open>Receiving\<close>

text \<open>A reference \<open>auto &rxcb\<close> into the queue is the slot it refers to.\<close>

definition rxcb_at :: "('c, 't, 'd) Sock \<Rightarrow> nat \<Rightarrow> ('c, 'd) IORx" where
  "rxcb_at s i = buf (rx_cbs s) ! i"

definition set_rxcb :: "('c, 't, 'd) Sock \<Rightarrow> nat \<Rightarrow> ('c, 'd) IORx \<Rightarrow> ('c, 't, 'd) Sock" where
  "set_rxcb s i r = s\<lparr>rx_cbs := (rx_cbs s)\<lparr>buf := (buf (rx_cbs s))[i := r]\<rparr>\<rparr>"

text \<open>One turn of the loop over the pending reads: \<open>Break\<close> leaves the loop, \<open>Next\<close> goes on.\<close>

datatype 'a flow = Break 'a | Next 'a

definition segments :: "byte buffer \<Rightarrow> nat \<Rightarrow> nat \<Rightarrow> nat option \<Rightarrow> nat \<Rightarrow> byte list \<times> byte list option" where
  "segments b p1 n1 p2 n = (slice (buf b) p1 n1, map_option (\<lambda>q. slice (buf b) q (n - n1)) p2)"

definition rx_hdr :: "('c, 'd, 'u) rx_handler \<Rightarrow> nat \<Rightarrow> ('c, 't, 'd) Sock \<times> 'u \<Rightarrow>
    (('c, 't, 'd) Sock \<times> 'u) flow res" where
  "rx_hdr h i = (\<lambda>(s, u).
     let r = rxcb_at s i in
     if hdrlen r > 0 then
       if items (rbuf s) < hdrlen r then
         (case hdrcb r of
            None \<Rightarrow>
              let n = items (rbuf s) in
              rbind (drop_items (rbuf s) n) (\<lambda>rb.
              Inr (Break ((set_rxcb s i (r\<lparr>hdrlen := hdrlen r - n\<rparr>))\<lparr>rbuf := rb\<rparr>, u)))
          | Some cb \<Rightarrow> Inr (Break (s, u)))
       else
         rbind
           (case hdrcb r of
              None \<Rightarrow> Inr (r, u)
            | Some cb \<Rightarrow>
                rbind (peek (rbuf s) (hdrlen r)) (\<lambda>(p1, p2, n1).
                let (seg1, seg2) = segments (rbuf s) p1 n1 p2 (hdrlen r) in
                rbind (h cb (self s) (rxdata r) seg1 seg2 0 u) (\<lambda>(len, u').
                Inr (r\<lparr>bodylen := len\<rparr>, u'))))
           (\<lambda>(r', u').
         rbind (drop_items (rbuf s) (hdrlen r')) (\<lambda>rb.
         Inr (Next ((set_rxcb s i (r'\<lparr>hdrlen := 0\<rparr>))\<lparr>rbuf := rb\<rparr>, u'))))
     else Inr (Next (s, u)))"

definition rx_body :: "('c, 'd, 'u) rx_handler \<Rightarrow> nat \<Rightarrow> ('c, 't, 'd) Sock \<times> 'u \<Rightarrow>
    (('c, 't, 'd) Sock \<times> 'u) flow res" where
  "rx_body h i = (\<lambda>(s, u).
     let r = rxcb_at s i in
     if bodylen r > 0 then
       if items (rbuf s) < bodylen r then
         (case bodycb r of
            None \<Rightarrow>
              let n = items (rbuf s) in
              rbind (drop_items (rbuf s) n) (\<lambda>rb.
              Inr (Break ((set_rxcb s i (r\<lparr>bodylen := bodylen r - n\<rparr>))\<lparr>rbuf := rb\<rparr>, u)))
          | Some cb \<Rightarrow> Inr (Break (s, u)))
       else
         rbind
           (case bodycb r of
              None \<Rightarrow> Inr u
            | Some cb \<Rightarrow>
                rbind (peek (rbuf s) (bodylen r)) (\<lambda>(p1, p2, n1).
                let (seg1, seg2) = segments (rbuf s) p1 n1 p2 (bodylen r) in
                rbind (h cb (self s) (rxdata r) seg1 seg2 0 u) (\<lambda>(len, u'). Inr u')))
           (\<lambda>u'.
         rbind (drop_items (rbuf s) (bodylen r)) (\<lambda>rb.
         Inr (Next ((set_rxcb s i (r\<lparr>bodylen := 0\<rparr>))\<lparr>rbuf := rb\<rparr>, u'))))
     else Inr (Next (s, u)))"

fun rx_items :: "('c, 'd, 'u) rx_handler \<Rightarrow> nat list \<Rightarrow> ('c, 't, 'd) Sock \<times> 'u \<Rightarrow> nat \<Rightarrow>
    ((('c, 't, 'd) Sock \<times> 'u) \<times> nat) res" where
  "rx_items h [] su dropped = Inr (su, dropped)"
| "rx_items h (i # is) su dropped =
     rbind (rx_hdr h i su) (\<lambda>f. case f of
       Break su' \<Rightarrow> Inr (su', dropped)
     | Next su' \<Rightarrow>
         rbind (rx_body h i su') (\<lambda>f. case f of
           Break su'' \<Rightarrow> Inr (su'', dropped)
         | Next su'' \<Rightarrow> rx_items h is su'' (Suc dropped)))"

definition rx_deliver :: "('c, 'd, 'u) rx_handler \<Rightarrow> ('c, 't, 'd) Sock \<times> 'u \<Rightarrow>
    (('c, 't, 'd) Sock \<times> 'u) res" where
  "rx_deliver h su =
     (case range_slots (rx_cbs (fst su)) of
        None \<Rightarrow> Inl (Undefined_behaviour ''iterator past the end'')
      | Some is \<Rightarrow>
          rbind (rx_items h is su 0) (\<lambda>((s, u), dropped).
          rbind (drop_items (rx_cbs s) dropped) (\<lambda>q. Inr (s\<lparr>rx_cbs := q\<rparr>, u))))"

fun sock_rx :: "('c, 'd, 'u) rx_handler \<Rightarrow> rd_result list \<Rightarrow> ('c, 't, 'd) Sock \<times> 'u \<Rightarrow>
    (('c, 't, 'd) Sock \<times> 'u \<times> rd_result list) res" where
  "sock_rx h [] (s, u) =
     (if items (rx_cbs s) = 0 then Inr (s, u, [])
      else rbind (queue_prep (rbuf s) (space (rbuf s))) (\<lambda>_. Inr (s\<lparr>rx_rdy := False\<rparr>, u, [])))"
| "sock_rx h (RdRet d errno # ks) (s, u) =
     (if items (rx_cbs s) = 0 then Inr (s, u, RdRet d errno # ks)
      else
        let n = space (rbuf s) in
        rbind (queue_prep (rbuf s) n) (\<lambda>(p1, p2, n1).
        if d = None \<and> errno = EAGAIN then Inr (s\<lparr>rx_rdy := False\<rparr>, u, ks)
        else case d of
          None \<Rightarrow> Inl (System_error errno ''Sock::rx: readv error'')
        | Some bs \<Rightarrow>
            if bs = [] then Inl (System_error errno ''Sock::rx: readv error'')
            else if length bs > n
              then Inl (Runtime_error ''Sock::rx: read returned more bytes than asked'')
            else
              rbind (queue_commit ((rbuf s)\<lparr>buf := scatter (buf (rbuf s)) p1 n1 p2 bs\<rparr>) (length bs))
                (\<lambda>rb.
              rbind (rx_deliver h (s\<lparr>rbuf := rb\<rparr>, u)) (\<lambda>(s', u').
              sock_rx h ks (s', u')))))"

definition sock_read :: "('c, 'd, 'u) rx_handler \<Rightarrow> rd_result list \<Rightarrow> ('c, 't, 'd) Sock \<times> 'u \<Rightarrow>
    ('c, 'd) IORx \<Rightarrow> (('c, 't, 'd) Sock \<times> 'u \<times> rd_result list) res" where
  "sock_read h ks = (\<lambda>(s, u) op.
     rbind (queue (rx_cbs s) 1) (\<lambda>(p, n, q).
     let s' = s\<lparr>rx_cbs := q\<lparr>buf := (buf q)[p := op]\<rparr>\<rparr> in
     if rx_rdy s' then sock_rx h ks (s', u) else Inr (s', u, ks)))"

subsection \<open>Transmitting\<close>

definition txcb_at :: "('c, 't, 'd) Sock \<Rightarrow> nat \<Rightarrow> ('t, 'd) IOTx" where
  "txcb_at s i = buf (tx_cbs s) ! i"

definition set_txcb :: "('c, 't, 'd) Sock \<Rightarrow> nat \<Rightarrow> ('t, 'd) IOTx \<Rightarrow> ('c, 't, 'd) Sock" where
  "set_txcb s i t = s\<lparr>tx_cbs := (tx_cbs s)\<lparr>buf := (buf (tx_cbs s))[i := t]\<rparr>\<rparr>"

fun tx_fire :: "('t, 'd, 'u) tx_handler \<Rightarrow> nat list \<Rightarrow> nat \<Rightarrow> ('c, 't, 'd) Sock \<times> 'u \<Rightarrow> nat \<Rightarrow>
    ((('c, 't, 'd) Sock \<times> 'u) \<times> nat) res" where
  "tx_fire h [] nbytes su dropped = Inr (su, dropped)"
| "tx_fire h (i # is) nbytes (s, u) dropped =
     (let t = txcb_at s i in
      if txlen t > nbytes then
        Inr (((set_txcb s i (t\<lparr>txlen := txlen t - nbytes\<rparr>))\<lparr>tx_out := size_sub (tx_out s) nbytes\<rparr>, u),
             dropped)
      else case txcb t of
        None \<Rightarrow> Inl Bad_function_call
      | Some cb \<Rightarrow>
          rbind (h cb (self s) (txdata t) 0 u) (\<lambda>u'.
          tx_fire h is (nbytes - txlen t) (s\<lparr>tx_out := size_sub (tx_out s) (txlen t)\<rparr>, u')
            (Suc dropped)))"

definition tx_callbacks :: "('t, 'd, 'u) tx_handler \<Rightarrow> nat \<Rightarrow> ('c, 't, 'd) Sock \<times> 'u \<Rightarrow>
    (('c, 't, 'd) Sock \<times> 'u) res" where
  "tx_callbacks h nbytes su =
     (case range_slots (tx_cbs (fst su)) of
        None \<Rightarrow> Inl (Undefined_behaviour ''iterator past the end'')
      | Some is \<Rightarrow>
          rbind (tx_fire h is nbytes su 0) (\<lambda>((s, u), dropped).
          rbind (drop_items (tx_cbs s) dropped) (\<lambda>q. Inr (s\<lparr>tx_cbs := q\<rparr>, u))))"

text \<open>The bytes the kernel accepts are appended to \<open>wire\<close>, the output of the model.\<close>

fun sock_tx :: "('t, 'd, 'u) tx_handler \<Rightarrow> wr_result list \<Rightarrow> ('c, 't, 'd) Sock \<times> 'u \<Rightarrow> byte list \<Rightarrow>
    (('c, 't, 'd) Sock \<times> 'u \<times> wr_result list \<times> byte list) res" where
  "sock_tx h [] (s, u) wire =
     (if items (wbuf s) = 0 then Inr (s, u, [], wire)
      else rbind (peek (wbuf s) (items (wbuf s))) (\<lambda>_. Inr (s\<lparr>tx_rdy := False\<rparr>, u, [], wire)))"
| "sock_tx h (WrRet r errno # ws) (s, u) wire =
     (if items (wbuf s) = 0 then Inr (s, u, WrRet r errno # ws, wire)
      else
        let n = items (wbuf s) in
        rbind (peek (wbuf s) n) (\<lambda>(p1, p2, n1).
        case r of
          None \<Rightarrow>
            if errno = EAGAIN then Inr (s\<lparr>tx_rdy := False\<rparr>, u, ws, wire)
            else Inl (System_error errno ''Sock::tx: write error'')
        | Some nbytes \<Rightarrow>
            if nbytes > n then Inl (Runtime_error ''Sock::tx: write sent more bytes than asked'')
            else
              rbind (drop_items (wbuf s) nbytes) (\<lambda>wb.
              rbind (tx_callbacks h nbytes (s\<lparr>wbuf := wb\<rparr>, u)) (\<lambda>(s', u').
              sock_tx h ws (s', u') (wire @ take nbytes (gather (buf (wbuf s)) p1 n1 p2 n))))))"

definition write_prepare :: "('c, 't, 'd) Sock \<Rightarrow> nat \<Rightarrow> (nat \<times> nat option \<times> nat) res" where
  "write_prepare s len = queue_prep (wbuf s) len"

definition write_commit :: "('c, 't, 'd) Sock \<Rightarrow> nat \<Rightarrow> ('c, 't, 'd) Sock res" where
  "write_commit s len = rbind (queue_commit (wbuf s) len) (\<lambda>wb. Inr (s\<lparr>wbuf := wb\<rparr>))"

definition set_wmem :: "('c, 't, 'd) Sock \<Rightarrow> byte list \<Rightarrow> ('c, 't, 'd) Sock" where
  "set_wmem s xs = s\<lparr>wbuf := (wbuf s)\<lparr>buf := xs\<rparr>\<rparr>"

definition sock_write :: "('c, 't, 'd) Sock \<Rightarrow> byte list \<Rightarrow> ('c, 't, 'd) Sock res" where
  "sock_write s data =
     (let len = length data in
      rbind (write_prepare s len) (\<lambda>(p1, p2, n1).
      let w1 = blit (buf (wbuf s)) p1 (take n1 data) in
      rbind
        (if n1 \<noteq> len then
           (case p2 of
              None \<Rightarrow> Inl (Undefined_behaviour ''memcpy to null'')
            | Some q \<Rightarrow> Inr (blit w1 q (drop n1 data)))
         else Inr w1)
        (\<lambda>w. write_commit (set_wmem s w) len)))"

text \<open>
  \<open>write_emplace<T>\<close>, for an object whose bytes are \<open>t\<close>. In the two-segment case the
  code copies the rest from \<open>&t + n1\<close>, and \<open>&t\<close> is a \<open>T *\<close>: the source starts
  \<open>n1 * sizeof(T)\<close> bytes after the object's start. \<open>object_bytes\<close> is a \<open>memcpy\<close> out of the object,
  undefined outside it.
\<close>

definition object_bytes :: "byte list \<Rightarrow> nat \<Rightarrow> nat \<Rightarrow> byte list res" where
  "object_bytes t off k =
     (if k = 0 then Inr []
      else if off + k \<le> length t then Inr (slice t off k)
      else Inl (Undefined_behaviour ''memcpy past the end of an object''))"

definition write_emplace :: "('c, 't, 'd) Sock \<Rightarrow> byte list \<Rightarrow> ('c, 't, 'd) Sock res" where
  "write_emplace s t =
     (let n = length t in
      rbind (write_prepare s n) (\<lambda>(p1, p2, n1).
      rbind
        (case p2 of
           None \<Rightarrow> Inr (blit (buf (wbuf s)) p1 t)
         | Some q \<Rightarrow>
             rbind (object_bytes t (n1 * n) (n - n1)) (\<lambda>rest.
             Inr (blit (blit (buf (wbuf s)) p1 (take n1 t)) q rest)))
        (\<lambda>w. write_commit (set_wmem s w) n)))"

definition write_cb_point :: "('c, 't, 'd) Sock \<Rightarrow> 't option \<Rightarrow> 'd \<Rightarrow> ('c, 't, 'd) Sock res" where
  "write_cb_point s cb d =
     (let len = items (wbuf s) in
      rbind
        (if items (tx_cbs s) = 0
         then queue_emplace (tx_cbs s) \<lparr>txlen = len, txcb = cb, txdata = d\<rparr>
         else queue_emplace (tx_cbs s) \<lparr>txlen = size_sub len (tx_out s), txcb = cb, txdata = d\<rparr>)
        (\<lambda>(p, q). Inr (s\<lparr>tx_cbs := q, tx_out := len\<rparr>)))"

definition try_tx :: "('t, 'd, 'u) tx_handler \<Rightarrow> wr_result list \<Rightarrow> ('c, 't, 'd) Sock \<times> 'u \<Rightarrow>
    byte list \<Rightarrow> (('c, 't, 'd) Sock \<times> 'u \<times> wr_result list \<times> byte list) res" where
  "try_tx h ws su wire =
     (if tx_rdy (fst su) then sock_tx h ws su wire else Inr (fst su, snd su, ws, wire))"

subsection \<open>Connection set-up, events, destruction\<close>

text \<open>\<open>system_call\<close> of \<^verbatim>\<open>util.hh\<close> (with its default error code): a negative status
  throws \<open>errno\<close>.\<close>

definition system_call :: "int \<Rightarrow> int \<Rightarrow> string \<Rightarrow> int res" where
  "system_call status errno msg =
     (if status < 0 then Inl (System_error errno msg) else Inr status)"

text \<open>The answers of the kernel to the calls of \<open>connect\<close>, in order, each with its \<open>errno\<close>.\<close>

record connect_env =
  sys_socket :: "int \<times> int"
  sys_getfl :: "int \<times> int"
  sys_setfl :: "int \<times> int"
  sys_connect :: "int \<times> int"
  sys_nodelay :: "int \<times> int"

definition sock_connect :: "connect_env \<Rightarrow> ('c, 't, 'd) Sock \<Rightarrow> ('c, 't, 'd) Sock res" where
  "sock_connect k s =
     rbind (system_call (fst (sys_socket k)) (snd (sys_socket k)) ''Sock::connect: socket()'') (\<lambda>f.
     let s' = s\<lparr>fd := f\<rparr> in
     rbind (system_call (fst (sys_getfl k)) (snd (sys_getfl k)) ''Sock::connect: fcntl(F_GETFL)'') (\<lambda>_.
     rbind (system_call (fst (sys_setfl k)) (snd (sys_setfl k)) ''Sock::connect: fcntl(F_SETFL)'') (\<lambda>_.
     if fst (sys_connect k) = -1 \<and> snd (sys_connect k) \<noteq> EINPROGRESS
     then Inl (System_error (snd (sys_connect k)) ''Sock::connect: connect()'')
     else
       rbind (system_call (fst (sys_nodelay k)) (snd (sys_nodelay k))
                ''Sock::connect: setsockopt(TCP_NODELAY)'') (\<lambda>_.
       Inr s'))))"

definition EPOLLIN :: "32 word" where "EPOLLIN = 1"
definition EPOLLOUT :: "32 word" where "EPOLLOUT = 4"

text \<open>\<open>getsockopt(SO_ERROR)\<close> answers with its status, its \<open>errno\<close> and the pending error.\<close>

definition socket_check_connected :: "int \<times> int \<times> int \<Rightarrow> unit res" where
  "socket_check_connected = (\<lambda>(status, errno, valopt).
     if status \<noteq> 0 then Inl (System_error errno ''Sock::__socket_get_connect_error: getsockopt()'')
     else if valopt \<noteq> 0 then Inl (System_error valopt ''Sock::run_io: socket failed to connect'')
     else Inr ())"

definition sock_run_io :: "('c, 'd, 'u) rx_handler \<Rightarrow> ('t, 'd, 'u) tx_handler \<Rightarrow> rd_result list \<Rightarrow>
    wr_result list \<Rightarrow> int \<times> int \<times> int \<Rightarrow> 32 word \<Rightarrow> ('c, 't, 'd) Sock \<times> 'u \<Rightarrow> byte list \<Rightarrow>
    (('c, 't, 'd) Sock \<times> 'u \<times> rd_result list \<times> wr_result list \<times> byte list) res" where
  "sock_run_io hr ht ks ws so_error events = (\<lambda>(s, u) wire.
     rbind
       (if and events EPOLLIN \<noteq> 0 then sock_rx hr ks (s\<lparr>rx_rdy := True\<rparr>, u) else Inr (s, u, ks))
       (\<lambda>(s, u, ks).
     if and events EPOLLOUT \<noteq> 0 then
       rbind (if \<not> connected s
              then rbind (socket_check_connected so_error) (\<lambda>_. Inr (s\<lparr>connected := True\<rparr>))
              else Inr s) (\<lambda>s.
       rbind (sock_tx ht ws (s\<lparr>tx_rdy := True\<rparr>, u) wire) (\<lambda>(s, u, ws, wire).
       Inr (s, u, ks, ws, wire)))
     else Inr (s, u, ks, ws, wire)))"

text \<open>The destructor cancels what is pending: every callback is called with \<open>-EIO\<close>. It is
  \<open>noexcept\<close>, so an exception from a callback ends the program.\<close>

fun cancel_rx :: "('c, 'd, 'u) rx_handler \<Rightarrow> nat \<Rightarrow> ('c, 'd) IORx list \<Rightarrow> 'u \<Rightarrow> 'u res" where
  "cancel_rx h this [] u = Inr u"
| "cancel_rx h this (r # rs) u =
     rbind (case hdrcb r of None \<Rightarrow> Inr u
            | Some cb \<Rightarrow> rbind (h cb this (rxdata r) [] None (- EIO) u) (\<lambda>(n, u). Inr u)) (\<lambda>u.
     rbind (case bodycb r of None \<Rightarrow> Inr u
            | Some cb \<Rightarrow> rbind (h cb this (rxdata r) [] None (- EIO) u) (\<lambda>(n, u). Inr u)) (\<lambda>u.
     cancel_rx h this rs u))"

fun cancel_tx :: "('t, 'd, 'u) tx_handler \<Rightarrow> nat \<Rightarrow> ('t, 'd) IOTx list \<Rightarrow> 'u \<Rightarrow> 'u res" where
  "cancel_tx h this [] u = Inr u"
| "cancel_tx h this (t # ts) u =
     rbind (case txcb t of None \<Rightarrow> Inr u | Some cb \<Rightarrow> h cb this (txdata t) (- EIO) u) (\<lambda>u.
     cancel_tx h this ts u)"

definition visited :: "'a buffer \<Rightarrow> 'a list res" where
  "visited b = (case range_slots b of None \<Rightarrow> Inl (Undefined_behaviour ''iterator past the end'')
     | Some is \<Rightarrow> Inr (map ((!) (buf b)) is))"

definition sock_destroy :: "('c, 'd, 'u) rx_handler \<Rightarrow> ('t, 'd, 'u) tx_handler \<Rightarrow>
    ('c, 't, 'd) Sock \<times> 'u \<Rightarrow> (('c, 't, 'd) Sock \<times> 'u) res" where
  "sock_destroy hr ht = (\<lambda>(s, u).
     rbind (visited (rx_cbs s)) (\<lambda>rs.
     rbind (cancel_rx hr (self s) rs u) (\<lambda>u.
     rbind (visited (tx_cbs s)) (\<lambda>ts.
     rbind (cancel_tx ht (self s) ts u) (\<lambda>u.
     rbind (clear (rx_cbs s)) (\<lambda>rq.
     rbind (clear (tx_cbs s)) (\<lambda>tq.
     Inr (s\<lparr>fd := -1, connected := False, rx_rdy := False, tx_rdy := False,
            rx_cbs := rq, tx_cbs := tq, tx_out := 0\<rparr>, u))))))))"

end
