(* ===== verification/Sock_Rx.thy ===== *)
theory Sock_Rx
  imports Sock_Buf
begin

section \<open>Receiving as stream parsing\<close>

text \<open>
  What \<open>Sock::rx\<close> promises: the pending reads consume the incoming byte stream in order, each its
  header and then its body, however the kernel cuts the stream into \<open>read\<close> results. The
  specification \<open>parse\<close> works on the list of pending reads and the list of unconsumed bytes. The
  ring-buffer code refines it when the handler does not look at where a block of bytes is split
  (locale \<open>stream_handler\<close>), and \<open>parse\<close> itself is independent of the chunks.
\<close>

subsection \<open>Specification\<close>

definition parse_hdr :: "('c, 'd, 'u) rx_handler \<Rightarrow> nat \<Rightarrow> ('c, 'd) IORx \<Rightarrow> byte list \<Rightarrow> 'u \<Rightarrow>
    (('c, 'd) IORx \<times> byte list \<times> 'u) flow res" where
  "parse_hdr h this r bs u =
     (if hdrlen r = 0 then Inr (Next (r, bs, u))
      else if length bs < hdrlen r then
        (case hdrcb r of
           None \<Rightarrow> Inr (Break (r\<lparr>hdrlen := hdrlen r - length bs\<rparr>, [], u))
         | Some cb \<Rightarrow> Inr (Break (r, bs, u)))
      else
        (case hdrcb r of
           None \<Rightarrow> Inr (Next (r\<lparr>hdrlen := 0\<rparr>, drop (hdrlen r) bs, u))
         | Some cb \<Rightarrow>
             rbind (h cb this (rxdata r) (take (hdrlen r) bs) None 0 u) (\<lambda>(len, u').
             Inr (Next (r\<lparr>bodylen := len, hdrlen := 0\<rparr>, drop (hdrlen r) bs, u')))))"

definition parse_body :: "('c, 'd, 'u) rx_handler \<Rightarrow> nat \<Rightarrow> ('c, 'd) IORx \<Rightarrow> byte list \<Rightarrow> 'u \<Rightarrow>
    (('c, 'd) IORx \<times> byte list \<times> 'u) flow res" where
  "parse_body h this r bs u =
     (if bodylen r = 0 then Inr (Next (r, bs, u))
      else if length bs < bodylen r then
        (case bodycb r of
           None \<Rightarrow> Inr (Break (r\<lparr>bodylen := bodylen r - length bs\<rparr>, [], u))
         | Some cb \<Rightarrow> Inr (Break (r, bs, u)))
      else
        (case bodycb r of
           None \<Rightarrow> Inr (Next (r\<lparr>bodylen := 0\<rparr>, drop (bodylen r) bs, u))
         | Some cb \<Rightarrow>
             rbind (h cb this (rxdata r) (take (bodylen r) bs) None 0 u) (\<lambda>(len, u').
             Inr (Next (r\<lparr>bodylen := 0\<rparr>, drop (bodylen r) bs, u')))))"

fun parse :: "('c, 'd, 'u) rx_handler \<Rightarrow> nat \<Rightarrow> ('c, 'd) IORx list \<Rightarrow> byte list \<Rightarrow> 'u \<Rightarrow>
    (('c, 'd) IORx list \<times> byte list \<times> 'u) res" where
  "parse h this [] bs u = Inr ([], bs, u)"
| "parse h this (r # q) bs u =
     rbind (parse_hdr h this r bs u) (\<lambda>f. case f of
       Break (r', bs', u') \<Rightarrow> Inr (r' # q, bs', u')
     | Next (r', bs', u') \<Rightarrow>
         rbind (parse_body h this r' bs' u') (\<lambda>f. case f of
           Break (r'', bs'', u'') \<Rightarrow> Inr (r'' # q, bs'', u'')
         | Next (r'', bs'', u'') \<Rightarrow> parse h this q bs'' u''))"

subsection \<open>The specification does not depend on the chunks\<close>

lemma parse_hdr_Next: "parse_hdr h this r bs u = Inr (Next (r', bs', u')) \<Longrightarrow> hdrlen r' = 0"
  by (auto simp: parse_hdr_def res_simps split: if_splits option.splits)

lemma parse_body_Break: "parse_body h this r bs u = Inr (Break (r', bs', u')) \<Longrightarrow> hdrlen r' = hdrlen r"
  by (auto simp: parse_body_def res_simps split: if_splits option.splits)

lemma parse_hdr_done [simp]: "hdrlen r = 0 \<Longrightarrow> parse_hdr h this r bs u = Inr (Next (r, bs, u))"
  by (simp add: parse_hdr_def)

text \<open>Adding bytes behind: a stage that is done stays done, a stage that waits goes on where it
  was.\<close>

lemma parse_hdr_append_Next:
  "parse_hdr h this r bs u = Inr (Next (r', bs', u')) \<Longrightarrow>
   parse_hdr h this r (bs @ cs) u = Inr (Next (r', bs' @ cs, u'))"
  by (auto simp: parse_hdr_def res_simps split: if_splits option.splits)

lemma parse_hdr_append_Break:
  "parse_hdr h this r bs u = Inr (Break (r', bs', u')) \<Longrightarrow>
   parse_hdr h this r (bs @ cs) u = parse_hdr h this r' (bs' @ cs) u'"
  by (auto simp: parse_hdr_def res_simps less_diff_conv add.commute split: if_splits option.splits)

lemma parse_hdr_append_err:
  "parse_hdr h this r bs u = Inl e \<Longrightarrow> parse_hdr h this r (bs @ cs) u = Inl e"
  by (auto simp: parse_hdr_def res_simps split: if_splits option.splits)

lemma parse_body_append_Next:
  "parse_body h this r bs u = Inr (Next (r', bs', u')) \<Longrightarrow>
   parse_body h this r (bs @ cs) u = Inr (Next (r', bs' @ cs, u'))"
  by (auto simp: parse_body_def res_simps split: if_splits option.splits)

lemma parse_body_append_Break:
  "parse_body h this r bs u = Inr (Break (r', bs', u')) \<Longrightarrow>
   parse_body h this r (bs @ cs) u = parse_body h this r' (bs' @ cs) u'"
  by (auto simp: parse_body_def res_simps less_diff_conv add.commute split: if_splits option.splits)

lemma parse_body_append_err:
  "parse_body h this r bs u = Inl e \<Longrightarrow> parse_body h this r (bs @ cs) u = Inl e"
  by (auto simp: parse_body_def res_simps split: if_splits option.splits)

lemma parse_append:
  "parse h this q (bs @ cs) u = rbind (parse h this q bs u) (\<lambda>(q', bs', u'). parse h this q' (bs' @ cs) u')"
proof (induction q arbitrary: bs u)
  case Nil
  then show ?case by simp
next
  case (Cons r q)
  show ?case
  proof (cases "parse_hdr h this r bs u")
    case (Inl e)
    then show ?thesis by (simp add: parse_hdr_append_err)
  next
    case (Inr f)
    show ?thesis
    proof (cases f)
      case (Break x)
      obtain r' bs' u' where "x = (r', bs', u')" by (cases x)
      with Inr Break show ?thesis by (simp add: parse_hdr_append_Break)
    next
      case (Next x)
      obtain r' bs' u' where x: "x = (r', bs', u')" by (cases x)
      with Inr Next have hdr: "parse_hdr h this r bs u = Inr (Next (r', bs', u'))" by simp
      show ?thesis
      proof (cases "parse_body h this r' bs' u'")
        case (Inl e)
        with hdr show ?thesis by (simp add: parse_hdr_append_Next parse_body_append_err)
      next
        case (Inr g)
        show ?thesis
        proof (cases g)
          case (Break y)
          obtain r'' bs'' u'' where "y = (r'', bs'', u'')" by (cases y)
          moreover have "hdrlen r'' = 0"
            using parse_hdr_Next [OF hdr] parse_body_Break Inr Break calculation by metis
          ultimately show ?thesis using hdr Inr Break
            by (simp add: parse_hdr_append_Next parse_body_append_Break)
        next
          case (Next y)
          obtain r'' bs'' u'' where "y = (r'', bs'', u'')" by (cases y)
          with hdr Inr Next Cons.IH show ?thesis
            by (simp add: parse_hdr_append_Next parse_body_append_Next)
        qed
      qed
    qed
  qed
qed

lemma parse_Cons_cases:
  assumes "parse h this (r # q) bs u = Inr (q', bs', u')"
  obtains (in_hdr) r' where "parse_hdr h this r bs u = Inr (Break (r', bs', u'))" "q' = r' # q"
  | (in_body) r1 bs1 u1 r' where "parse_hdr h this r bs u = Inr (Next (r1, bs1, u1))"
      "parse_body h this r1 bs1 u1 = Inr (Break (r', bs', u'))" "q' = r' # q"
  | (complete) r1 bs1 u1 r2 bs2 u2 where "parse_hdr h this r bs u = Inr (Next (r1, bs1, u1))"
      "parse_body h this r1 bs1 u1 = Inr (Next (r2, bs2, u2))" "parse h this q bs2 u2 = Inr (q', bs', u')"
proof -
  from assms obtain f where f: "parse_hdr h this r bs u = Inr f"
    by (auto simp: res_simps)
  show ?thesis
  proof (cases f)
    case (Break x)
    with assms f in_hdr show ?thesis by (cases x) simp
  next
    case (Next x)
    obtain r1 bs1 u1 where x: "x = (r1, bs1, u1)" by (cases x)
    from assms f Next x obtain g where g: "parse_body h this r1 bs1 u1 = Inr g"
      by (auto simp: res_simps)
    show ?thesis
    proof (cases g)
      case (Break y)
      with assms f Next x g in_body show ?thesis by (cases y) simp
    next
      case y: (Next y)
      with assms f Next x g complete show ?thesis by (cases y) simp
    qed
  qed
qed

text \<open>What remains is a suffix of the stream.\<close>

lemma parse_hdr_rest:
  "parse_hdr h this r bs u = Inr (Next (r', bs', u')) \<Longrightarrow> \<exists>n. bs' = drop n bs"
  "parse_hdr h this r bs u = Inr (Break (r', bs', u')) \<Longrightarrow> \<exists>n. bs' = drop n bs"
  by (auto simp: parse_hdr_def res_simps split: if_splits option.splits
      intro: exI [of _ "0 :: nat"] exI [of _ "length bs"])

lemma parse_body_rest:
  "parse_body h this r bs u = Inr (Next (r', bs', u')) \<Longrightarrow> \<exists>n. bs' = drop n bs"
  "parse_body h this r bs u = Inr (Break (r', bs', u')) \<Longrightarrow> \<exists>n. bs' = drop n bs"
  by (auto simp: parse_body_def res_simps split: if_splits option.splits
      intro: exI [of _ "0 :: nat"] exI [of _ "length bs"])

lemma parse_rest: "parse h this q bs u = Inr (q', bs', u') \<Longrightarrow> \<exists>n. bs' = drop n bs"
proof (induction q arbitrary: bs u)
  case Nil
  then show ?case by (auto intro: exI [of _ "0 :: nat"])
next
  case (Cons r q)
  from Cons.prems show ?case
  proof (cases rule: parse_Cons_cases)
    case (in_hdr r')
    then show ?thesis by (blast dest: parse_hdr_rest)
  next
    case (in_body r1 bs1 u1 r')
    then obtain n m where "bs1 = drop n bs" "bs' = drop m bs1"
      by (blast dest: parse_hdr_rest parse_body_rest)
    then show ?thesis by auto
  next
    case (complete r1 bs1 u1 r2 bs2 u2)
    then obtain n m k where "bs1 = drop n bs" "bs2 = drop m bs1" "bs' = drop k bs2"
      by (blast dest: parse_hdr_rest parse_body_rest Cons.IH)
    then show ?thesis by auto
  qed
qed

subsection \<open>The code refines the specification\<close>

lemma rxcb_set_same [simp]: "i < length (buf (rx_cbs s)) \<Longrightarrow> rxcb_at (set_rxcb s i r) i = r"
  by (simp add: rxcb_at_def set_rxcb_def)

lemma rxcb_set_other [simp]: "i \<noteq> j \<Longrightarrow> rxcb_at (set_rxcb s i r) j = rxcb_at s j"
  by (simp add: rxcb_at_def set_rxcb_def)

lemma rxcb_rbuf [simp]: "rxcb_at (s\<lparr>rbuf := b\<rparr>) i = rxcb_at s i"
  by (simp add: rxcb_at_def)

lemma set_rxcb_fields [simp]:
  "rbuf (set_rxcb s i r) = rbuf s" "self (set_rxcb s i r) = self s"
  "length (buf (rx_cbs (set_rxcb s i r))) = length (buf (rx_cbs s))"
  by (simp_all add: set_rxcb_def)

text \<open>What a turn of the loop leaves alone.\<close>

definition rx_frame :: "nat set \<Rightarrow> ('c, 't, 'd) Sock \<Rightarrow> ('c, 't, 'd) Sock \<Rightarrow> bool" where
  "rx_frame I s s' \<longleftrightarrow> (\<exists>xs rb. s' = s\<lparr>rx_cbs := (rx_cbs s)\<lparr>buf := xs\<rparr>, rbuf := rb\<rparr> \<and>
     length xs = length (buf (rx_cbs s)) \<and> (\<forall>j. j \<notin> I \<longrightarrow> xs ! j = buf (rx_cbs s) ! j) \<and>
     length (buf rb) = length (buf (rbuf s)))"

lemma rx_frame_refl: "rx_frame I s s"
  unfolding rx_frame_def by (intro exI [of _ "buf (rx_cbs s)"] exI [of _ "rbuf s"]) simp

lemma rx_frame_trans:
  assumes "rx_frame I s s'" "rx_frame J s' s''"
  shows "rx_frame (I \<union> J) s s''"
proof -
  obtain xs rb where 1: "s' = s\<lparr>rx_cbs := (rx_cbs s)\<lparr>buf := xs\<rparr>, rbuf := rb\<rparr>"
    "length xs = length (buf (rx_cbs s))" "\<And>j. j \<notin> I \<Longrightarrow> xs ! j = buf (rx_cbs s) ! j"
    "length (buf rb) = length (buf (rbuf s))"
    using assms(1) by (auto simp: rx_frame_def)
  obtain ys rc where 2: "s'' = s'\<lparr>rx_cbs := (rx_cbs s')\<lparr>buf := ys\<rparr>, rbuf := rc\<rparr>"
    "length ys = length (buf (rx_cbs s'))" "\<And>j. j \<notin> J \<Longrightarrow> ys ! j = buf (rx_cbs s') ! j"
    "length (buf rc) = length (buf (rbuf s'))"
    using assms(2) by (auto simp: rx_frame_def)
  show ?thesis
    unfolding rx_frame_def by (intro exI [of _ ys] exI [of _ rc]) (simp add: 1 2)
qed

lemma rx_frame_set:
  "i \<in> I \<Longrightarrow> length (buf rb) = length (buf (rbuf s)) \<Longrightarrow>
   rx_frame I s ((set_rxcb s i r)\<lparr>rbuf := rb\<rparr>)"
  unfolding rx_frame_def
  by (intro exI [of _ "(buf (rx_cbs s))[i := r]"] exI [of _ rb]) (auto simp: set_rxcb_def, metis nth_list_update_neq)

lemma rx_frame_fields:
  assumes "rx_frame I s s'"
  shows "self s' = self s" "length (buf (rx_cbs s')) = length (buf (rx_cbs s))"
    "j \<notin> I \<Longrightarrow> rxcb_at s' j = rxcb_at s j" "length (buf (rbuf s')) = length (buf (rbuf s))"
  using assms by (auto simp: rx_frame_def rxcb_at_def)


definition rx_result :: "nat \<Rightarrow> ('c, 't, 'd) Sock \<Rightarrow> ('c, 'd) IORx \<times> byte list \<times> 'u \<Rightarrow>
    ('c, 't, 'd) Sock \<times> 'u \<Rightarrow> bool" where
  "rx_result i s = (\<lambda>(r', bs', u') (s', u''). rx_frame {i} s s' \<and> rxcb_at s' i = r' \<and>
     wf_buffer (rbuf s') \<and> contents (rbuf s') = bs' \<and> u'' = u')"

fun rx_sim :: "nat \<Rightarrow> ('c, 't, 'd) Sock \<Rightarrow> (('c, 'd) IORx \<times> byte list \<times> 'u) flow res \<Rightarrow>
    (('c, 't, 'd) Sock \<times> 'u) flow res \<Rightarrow> bool" where
  "rx_sim i s (Inl e) m \<longleftrightarrow> m = Inl e"
| "rx_sim i s (Inr (Break x)) m \<longleftrightarrow> (\<exists>su'. m = Inr (Break su') \<and> rx_result i s x su')"
| "rx_sim i s (Inr (Next x)) m \<longleftrightarrow> (\<exists>su'. m = Inr (Next su') \<and> rx_result i s x su')"

lemma rx_result_same:
  "wf_buffer (rbuf s) \<Longrightarrow> rx_result i s (rxcb_at s i, contents (rbuf s), u) (s, u)"
  by (simp add: rx_result_def rx_frame_refl)

lemma rx_result_drop:
  assumes "wf_buffer (rbuf s)" "n \<le> used (rbuf s)" "i < length (buf (rx_cbs s))"
  shows "\<exists>rb. drop_items (rbuf s) n = Inr rb \<and>
    rx_result i s (r, drop n (contents (rbuf s)), u) ((set_rxcb s i r)\<lparr>rbuf := rb\<rparr>, u)"
proof -
  obtain rb where "drop_items (rbuf s) n = Inr rb" "wf_buffer rb"
    "contents rb = drop n (contents (rbuf s))" "buf rb = buf (rbuf s)"
    using drop_items_ok [OF assms(1,2)] by blast
  then show ?thesis using assms(3) by (simp add: rx_result_def rx_frame_set)
qed

lemma rx_sim_trans:
  assumes "rx_frame {i} s s1" "rx_sim i s1 m m'"
  shows "rx_sim i s m m'"
  using assms(2) rx_frame_trans [OF assms(1), of "{i}"]
  by (cases "(i, s, m, m')" rule: rx_sim.cases) (force simp: rx_result_def)+

text \<open>A turn: header, then body unless the header left the loop.\<close>

definition turn :: "'a flow res \<Rightarrow> ('a \<Rightarrow> 'a flow res) \<Rightarrow> 'a flow res" where
  "turn m f = rbind m (\<lambda>x. case x of Break y \<Rightarrow> Inr (Break y) | Next y \<Rightarrow> f y)"

definition parse_op :: "('c, 'd, 'u) rx_handler \<Rightarrow> nat \<Rightarrow> ('c, 'd) IORx \<Rightarrow> byte list \<Rightarrow> 'u \<Rightarrow>
    (('c, 'd) IORx \<times> byte list \<times> 'u) flow res" where
  "parse_op h this r bs u = turn (parse_hdr h this r bs u) (\<lambda>(r', bs', u'). parse_body h this r' bs' u')"

definition rx_op :: "('c, 'd, 'u) rx_handler \<Rightarrow> nat \<Rightarrow> ('c, 't, 'd) Sock \<times> 'u \<Rightarrow>
    (('c, 't, 'd) Sock \<times> 'u) flow res" where
  "rx_op h i su = turn (rx_hdr h i su) (rx_body h i)"

lemma flow_res_cases [case_names err break nxt]:
  fixes m :: "('a \<times> 'b \<times> 'c) flow res"
  obtains (err) e where "m = Inl e" | (break) a b c where "m = Inr (Break (a, b, c))"
  | (nxt) a b c where "m = Inr (Next (a, b, c))"
  by (metis flow.exhaust old.sum.exhaust prod_cases3)

lemma parse_Cons:
  "parse h this (r # q) bs u = rbind (parse_op h this r bs u) (\<lambda>f. case f of
     Break (r', bs', u') \<Rightarrow> Inr (r' # q, bs', u')
   | Next (r', bs', u') \<Rightarrow> parse h this q bs' u')"
  by (auto simp: parse_op_def turn_def rbind_assoc intro!: arg_cong [where f = "rbind (parse_hdr h this r bs u)"]
      split: flow.splits)

lemma rx_items_Cons:
  "rx_items h (i # is) su d = rbind (rx_op h i su) (\<lambda>f. case f of
     Break su' \<Rightarrow> Inr (su', d) | Next su' \<Rightarrow> rx_items h is su' (Suc d))"
  by (auto simp: rx_op_def turn_def rbind_assoc intro!: arg_cong [where f = "rbind (rx_hdr h i su)"]
      split: flow.splits)

text \<open>\<open>rx_ok\<close>: both receive-side buffers are well formed. \<open>rx_same\<close>: nothing else changed.\<close>

definition rx_ok :: "('c, 't, 'd) Sock \<Rightarrow> bool" where
  "rx_ok s \<longleftrightarrow> wf_buffer (rx_cbs s) \<and> wf_buffer (rbuf s)"

definition rx_same :: "('c, 't, 'd) Sock \<Rightarrow> ('c, 't, 'd) Sock \<Rightarrow> bool" where
  "rx_same s s' \<longleftrightarrow> self s' = self s \<and> fd s' = fd s \<and> connected s' = connected s \<and>
     rx_rdy s' = rx_rdy s \<and> tx_rdy s' = tx_rdy s \<and> tx_cbs s' = tx_cbs s \<and> wbuf s' = wbuf s \<and>
     tx_out s' = tx_out s \<and> length (buf (rx_cbs s')) = length (buf (rx_cbs s)) \<and>
     length (buf (rbuf s')) = length (buf (rbuf s))"

fun rd_bytes :: "rd_result \<Rightarrow> byte list" where
  "rd_bytes (RdRet d errno) = (case d of None \<Rightarrow> [] | Some bs \<Rightarrow> bs)"

text \<open>The bytes a script delivers.\<close>

fun rd_stream :: "rd_result list \<Rightarrow> byte list" where
  "rd_stream [] = []"
| "rd_stream (k # ks) = rd_bytes k @ rd_stream ks"

text \<open>The state promised after \<open>data\<close> has been received: the reads pending, the bytes unconsumed and
  the program. A full queue of reads is walked as if it were empty, so nothing is consumed.\<close>

definition stream_state :: "('c, 'd, 'u) rx_handler \<Rightarrow> ('c, 't, 'd) Sock \<Rightarrow> byte list \<Rightarrow> 'u \<Rightarrow>
    (('c, 'd) IORx list \<times> byte list \<times> 'u) res" where
  "stream_state h s data u =
     (if used (rx_cbs s) = length (buf (rx_cbs s)) \<or> data = []
      then Inr (contents (rx_cbs s), contents (rbuf s) @ data, u)
      else parse h (self s) (contents (rx_cbs s)) (contents (rbuf s) @ data) u)"

text \<open>How receiving fails: some \<open>read\<close>s succeeded (\<open>pre\<close>), a read is still pending, and then there is no
  room left to read into, the connection is broken or closed, the kernel returned more than there was
  room for, or a callback threw on the bytes received so far.\<close>

inductive rx_failure :: "('c, 'd, 'u) rx_handler \<Rightarrow> ('c, 't, 'd) Sock \<Rightarrow> 'u \<Rightarrow> rd_result list \<Rightarrow> exn \<Rightarrow> bool"
  for h s u where
  full: "\<forall>k \<in> set pre. rd_bytes k \<noteq> [] \<Longrightarrow> stream_state h s (rd_stream pre) u = Inr (q, bs, v) \<Longrightarrow> q \<noteq> [] \<Longrightarrow>
    length bs = buffer_size (rbuf s) \<Longrightarrow>
    rx_failure h s u (pre @ post) (Invalid_argument ''buffer::queue_prep: len = 0'')"
| broken: "\<forall>k \<in> set pre. rd_bytes k \<noteq> [] \<Longrightarrow> stream_state h s (rd_stream pre) u = Inr (q, bs, v) \<Longrightarrow> q \<noteq> [] \<Longrightarrow>
    length bs < buffer_size (rbuf s) \<Longrightarrow> d = None \<and> errno \<noteq> EAGAIN \<or> d = Some [] \<Longrightarrow>
    rx_failure h s u (pre @ RdRet d errno # post) (System_error errno ''Sock::rx: readv error'')"
| too_much: "\<forall>k \<in> set pre. rd_bytes k \<noteq> [] \<Longrightarrow> stream_state h s (rd_stream pre) u = Inr (q, bs, v) \<Longrightarrow> q \<noteq> [] \<Longrightarrow>
    length bs < buffer_size (rbuf s) \<Longrightarrow> buffer_size (rbuf s) < length bs + length x \<Longrightarrow>
    rx_failure h s u (pre @ RdRet (Some x) errno # post)
      (Runtime_error ''Sock::rx: read returned more bytes than asked'')"
| callback: "\<forall>k \<in> set pre. rd_bytes k \<noteq> [] \<Longrightarrow> stream_state h s (rd_stream pre) u = Inr (q, bs, v) \<Longrightarrow> q \<noteq> [] \<Longrightarrow>
    x \<noteq> [] \<Longrightarrow> length bs + length x \<le> buffer_size (rbuf s) \<Longrightarrow>
    stream_state h s (rd_stream pre @ x) u = Inl e \<Longrightarrow>
    rx_failure h s u (pre @ RdRet (Some x) errno # post) e"

lemma rx_failure_later:
  assumes f: "rx_failure h s1 v ks e" and k: "rd_bytes k = x" "x \<noteq> []"
    and st: "\<And>data. stream_state h s (x @ data) u = stream_state h s1 data v"
    and sz: "buffer_size (rbuf s1) = buffer_size (rbuf s)"
  shows "rx_failure h s u (k # ks) e"
  using f
proof cases
  case (full pre q bs v post)
  then show ?thesis using k st sz rx_failure.full [of "k # pre" h s u q bs v post] by simp
next
  case (broken pre q bs v d errno post)
  then show ?thesis using k st sz rx_failure.broken [of "k # pre" h s u q bs v d errno post] by simp
next
  case (too_much pre q bs v y errno post)
  then show ?thesis using k st sz rx_failure.too_much [of "k # pre" h s u q bs v y errno post] by simp
next
  case (callback pre q bs v y errno post)
  then show ?thesis using k st sz rx_failure.callback [of "k # pre" h s u q bs v y e errno post] by simp
qed

lemma contents_Nil_iff: "contents b = [] \<longleftrightarrow> used b = 0"
  by (metis length_0_conv length_contents)

lemma deliver_full:
  "wf_buffer (rx_cbs s) \<Longrightarrow> used (rx_cbs s) = length (buf (rx_cbs s)) \<Longrightarrow>
   rx_deliver h (s, u) = Inr (s, u)"
  by (simp add: rx_deliver_def range_slots_eq drop_items_def)

lemma sock_rx_stalls:
  assumes "rx_ok s" "used (rx_cbs s) = length (buf (rx_cbs s))" "sock_rx h ks (s, u) = Inr (s', u', ks')"
  shows "rx_ok s' \<and> rx_cbs s' = rx_cbs s \<and> \<not> rx_rdy s' \<and> u' = u \<and>
    (\<exists>pre. ks = pre @ ks' \<and> contents (rbuf s') = contents (rbuf s) @ rd_stream pre)"
  using assms
proof (induction ks arbitrary: s)
  case Nil
  then show ?case by (auto simp: rx_ok_def wf_buffer_def items_def res_simps split: if_splits)
next
  case (Cons k ks)
  obtain d errno where k: "k = RdRet d errno" by (cases k)
  have wf: "wf_buffer (rx_cbs s)" "wf_buffer (rbuf s)" "used (rx_cbs s) \<noteq> 0"
    using Cons.prems(1,2) by (auto simp: rx_ok_def wf_buffer_def)
  note run = Cons.prems(3) [unfolded k]
  show ?case
  proof (cases d)
    case None
    with run wf Cons.prems show ?thesis
      by (auto simp: items_def rx_ok_def res_simps Let_def k intro!: exI [of _ "[RdRet None EAGAIN]"] split: if_splits)
  next
    case (Some bs)
    with run wf obtain p1 p2 n1 where st: "bs \<noteq> []"
      "queue_prep (rbuf s) (space (rbuf s)) = Inr (p1, p2, n1)" "length bs \<le> space (rbuf s)"
      by (auto simp: items_def res_simps Let_def split: if_splits)
    obtain rb where rb: "queue_commit ((rbuf s)\<lparr>buf := scatter (buf (rbuf s)) p1 n1 p2 bs\<rparr>) (length bs) = Inr rb"
      "wf_buffer rb" "contents rb = contents (rbuf s) @ bs"
      using scatter_commit [OF wf(2) st(2) _ st(3)] st(1) by auto
    have "sock_rx h ks (s\<lparr>rbuf := rb\<rparr>, u) = Inr (s', u', ks')"
      using run Some wf st rb deliver_full [of "s\<lparr>rbuf := rb\<rparr>" h u] Cons.prems(2)
      by (auto simp: items_def Let_def not_le split: if_splits)
    with Cons.IH [of "s\<lparr>rbuf := rb\<rparr>"] rb wf(1) Cons.prems(2) obtain pre where
      "rx_ok s' \<and> rx_cbs s' = rx_cbs s \<and> \<not> rx_rdy s' \<and> u' = u \<and> ks = pre @ ks' \<and>
        contents (rbuf s') = (contents (rbuf s) @ bs) @ rd_stream pre"
      by (auto simp: rx_ok_def)
    with Some k show ?thesis by (auto intro!: exI [of _ "k # pre"])
  qed
qed

lemma parse_length: "parse h this q bs u = Inr (q', bs', u') \<Longrightarrow> length q' \<le> length q"
proof (induction q arbitrary: bs u)
  case (Cons r q)
  from Cons.prems show ?case
  proof (cases rule: parse_Cons_cases)
    case (complete r1 bs1 u1 r2 bs2 u2)
    then show ?thesis using Cons.IH by (simp add: le_SucI)
  qed simp_all
qed simp

declare parse.simps(2) [simp del] rx_items.simps(2) [simp del]

subsection \<open>Handlers that do not see where a block is split\<close>

locale stream_handler =
  fixes h :: "('c, 'd, 'u) rx_handler"
  assumes split_blind: "h cb this d s1 (Some s2) st u = h cb this d (s1 @ s2) None st u"
begin

lemma call_on_segments:
  assumes "wf_buffer b" "peek b n = Inr (p1, p2, n1)" "segments b p1 n1 p2 n = (seg1, seg2)"
  shows "h cb this d seg1 seg2 st u = h cb this d (take n (contents b)) None st u"
proof -
  have g: "gather (buf b) p1 n1 p2 n = take n (contents b)"
    by (rule gather_contents [OF assms(1,2)])
  show ?thesis
  proof (cases p2)
    case None
    with g assms(3) show ?thesis by (simp add: segments_def gather_def)
  next
    case (Some q)
    with g assms(3) show ?thesis by (auto simp: segments_def gather_def split_blind)
  qed
qed

lemma rx_hdr_refines:
  assumes wf: "wf_buffer (rbuf s)" and i: "i < length (buf (rx_cbs s))"
  shows "rx_sim i s (parse_hdr h (self s) (rxcb_at s i) (contents (rbuf s)) u) (rx_hdr h i (s, u))"
proof -
  let ?r = "rxcb_at s i" and ?bs = "contents (rbuf s)"
  consider (zero) "hdrlen ?r = 0" | (short) "0 < hdrlen ?r" "used (rbuf s) < hdrlen ?r"
    | (full) "0 < hdrlen ?r" "hdrlen ?r \<le> used (rbuf s)" by linarith
  then show ?thesis
  proof cases
    case zero
    then show ?thesis using rx_result_same [OF wf] by (simp add: rx_hdr_def)
  next
    case short
    show ?thesis
    proof (cases "hdrcb ?r")
      case None
      have "\<exists>rb. drop_items (rbuf s) (used (rbuf s)) = Inr rb \<and>
        rx_result i s (r', [], u) ((set_rxcb s i r')\<lparr>rbuf := rb\<rparr>, u)" for r'
        using rx_result_drop [OF wf _ i, of "used (rbuf s)"] by simp
      from this [of "?r\<lparr>hdrlen := hdrlen ?r - used (rbuf s)\<rparr>"] short None
      show ?thesis by (auto simp: rx_hdr_def parse_hdr_def items_def Let_def)
    next
      case (Some cb)
      with short show ?thesis
        using rx_result_same [OF wf] by (simp add: rx_hdr_def parse_hdr_def items_def)
    qed
  next
    case full
    have dr: "\<exists>rb. drop_items (rbuf s) (hdrlen ?r) = Inr rb \<and> rx_result i s (r', drop (hdrlen ?r) ?bs, u')
        ((set_rxcb s i r')\<lparr>rbuf := rb\<rparr>, u')" for r' u'
      by (rule rx_result_drop [OF wf full(2) i])
    show ?thesis
    proof (cases "hdrcb ?r")
      case None
      with full dr [of "?r\<lparr>hdrlen := 0\<rparr>" u] show ?thesis
        by (auto simp: rx_hdr_def parse_hdr_def items_def Let_def)
    next
      case (Some cb)
      obtain p2 n1 where pk: "peek (rbuf s) (hdrlen ?r) = Inr (head (rbuf s), p2, n1)"
        using peek_ok [OF wf full] by blast
      obtain seg1 seg2 where sg: "segments (rbuf s) (head (rbuf s)) n1 p2 (hdrlen ?r) = (seg1, seg2)"
        by (cases "segments (rbuf s) (head (rbuf s)) n1 p2 (hdrlen ?r)")
      note call = call_on_segments [OF wf pk sg]
      show ?thesis
      proof (cases "h cb (self s) (rxdata ?r) (take (hdrlen ?r) ?bs) None 0 u")
        case (Inl e)
        with full Some pk sg call show ?thesis
          by (simp add: rx_hdr_def parse_hdr_def items_def)
      next
        case (Inr lu)
        obtain len u' where lu: "lu = (len, u')" by (cases lu)
        with full Some pk sg call Inr dr [of "?r\<lparr>bodylen := len, hdrlen := 0\<rparr>" u'] show ?thesis
          by (auto simp: rx_hdr_def parse_hdr_def items_def Let_def)
      qed
    qed
  qed
qed

lemma rx_body_refines:
  assumes wf: "wf_buffer (rbuf s)" and i: "i < length (buf (rx_cbs s))"
  shows "rx_sim i s (parse_body h (self s) (rxcb_at s i) (contents (rbuf s)) u) (rx_body h i (s, u))"
proof -
  let ?r = "rxcb_at s i" and ?bs = "contents (rbuf s)"
  consider (zero) "bodylen ?r = 0" | (short) "0 < bodylen ?r" "used (rbuf s) < bodylen ?r"
    | (full) "0 < bodylen ?r" "bodylen ?r \<le> used (rbuf s)" by linarith
  then show ?thesis
  proof cases
    case zero
    then show ?thesis using rx_result_same [OF wf] by (simp add: rx_body_def parse_body_def)
  next
    case short
    show ?thesis
    proof (cases "bodycb ?r")
      case None
      have "\<exists>rb. drop_items (rbuf s) (used (rbuf s)) = Inr rb \<and>
        rx_result i s (r', [], u) ((set_rxcb s i r')\<lparr>rbuf := rb\<rparr>, u)" for r'
        using rx_result_drop [OF wf _ i, of "used (rbuf s)"] by simp
      from this [of "?r\<lparr>bodylen := bodylen ?r - used (rbuf s)\<rparr>"] short None
      show ?thesis by (auto simp: rx_body_def parse_body_def items_def Let_def)
    next
      case (Some cb)
      with short show ?thesis
        using rx_result_same [OF wf] by (simp add: rx_body_def parse_body_def items_def)
    qed
  next
    case full
    have dr: "\<exists>rb. drop_items (rbuf s) (bodylen ?r) = Inr rb \<and> rx_result i s (r', drop (bodylen ?r) ?bs, u')
        ((set_rxcb s i r')\<lparr>rbuf := rb\<rparr>, u')" for r' u'
      by (rule rx_result_drop [OF wf full(2) i])
    show ?thesis
    proof (cases "bodycb ?r")
      case None
      with full dr [of "?r\<lparr>bodylen := 0\<rparr>" u] show ?thesis
        by (auto simp: rx_body_def parse_body_def items_def Let_def)
    next
      case (Some cb)
      obtain p2 n1 where pk: "peek (rbuf s) (bodylen ?r) = Inr (head (rbuf s), p2, n1)"
        using peek_ok [OF wf full] by blast
      obtain seg1 seg2 where sg: "segments (rbuf s) (head (rbuf s)) n1 p2 (bodylen ?r) = (seg1, seg2)"
        by (cases "segments (rbuf s) (head (rbuf s)) n1 p2 (bodylen ?r)")
      note call = call_on_segments [OF wf pk sg]
      show ?thesis
      proof (cases "h cb (self s) (rxdata ?r) (take (bodylen ?r) ?bs) None 0 u")
        case (Inl e)
        with full Some pk sg call show ?thesis
          by (simp add: rx_body_def parse_body_def items_def)
      next
        case (Inr lu)
        obtain len u' where lu: "lu = (len, u')" by (cases lu)
        with full Some pk sg call Inr dr [of "?r\<lparr>bodylen := 0\<rparr>" u'] show ?thesis
          by (auto simp: rx_body_def parse_body_def items_def Let_def)
      qed
    qed
  qed
qed

text \<open>Header and body together: one turn of the loop.\<close>

lemma rx_sim_then:
  assumes "rx_sim i s m m'"
    and "\<And>r1 bs1 u1 s1. m = Inr (Next (r1, bs1, u1)) \<Longrightarrow> m' = Inr (Next (s1, u1)) \<Longrightarrow>
      rx_frame {i} s s1 \<Longrightarrow> rxcb_at s1 i = r1 \<Longrightarrow> wf_buffer (rbuf s1) \<Longrightarrow> contents (rbuf s1) = bs1 \<Longrightarrow>
      rx_sim i s1 (f (r1, bs1, u1)) (g (s1, u1))"
  shows "rx_sim i s (turn m f) (turn m' g)"
proof (cases "\<exists>x. m = Inr (Next x)")
  case False
  then show ?thesis using assms(1) by (cases "(i, s, m, m')" rule: rx_sim.cases) (auto simp: turn_def)
next
  case True
  then obtain r1 bs1 u1 where m: "m = Inr (Next (r1, bs1, u1))" by (metis prod_cases3)
  with assms(1) obtain s1 where s1: "m' = Inr (Next (s1, u1))" "rx_frame {i} s s1"
    "rxcb_at s1 i = r1" "wf_buffer (rbuf s1)" "contents (rbuf s1) = bs1"
    by (auto simp: rx_result_def)
  have "rx_sim i s1 (f (r1, bs1, u1)) (g (s1, u1))" by (rule assms(2) [OF m s1])
  then have "rx_sim i s (f (r1, bs1, u1)) (g (s1, u1))" by (rule rx_sim_trans [OF s1(2)])
  with m s1(1) show ?thesis by (simp add: turn_def)
qed

lemma rx_op_refines:
  assumes wf: "wf_buffer (rbuf s)" and i: "i < length (buf (rx_cbs s))"
  shows "rx_sim i s (parse_op h (self s) (rxcb_at s i) (contents (rbuf s)) u) (rx_op h i (s, u))"
  unfolding parse_op_def rx_op_def
proof (rule rx_sim_then [OF rx_hdr_refines [OF wf i]])
  fix r1 bs1 u1 s1
  assume s1: "rx_frame {i} s s1" "rxcb_at s1 i = r1" "wf_buffer (rbuf s1)" "contents (rbuf s1) = bs1"
  then show "rx_sim i s1 ((\<lambda>(r', bs', u'). parse_body h (self s) r' bs' u') (r1, bs1, u1))
      (rx_body h i (s1, u1))"
    using rx_body_refines [OF s1(3), of i u1] i rx_frame_fields [OF s1(1)] by simp
qed

lemma rx_items_refines:
  assumes "wf_buffer (rbuf s)" "set is \<subseteq> {..<length (buf (rx_cbs s))}" "distinct is"
  shows "case parse h (self s) (map (rxcb_at s) is) (contents (rbuf s)) u of
      Inl e \<Rightarrow> rx_items h is (s, u) d = Inl e
    | Inr (q', bs', u') \<Rightarrow> \<exists>s' k. rx_items h is (s, u) d = Inr ((s', u'), d + k) \<and> k \<le> length is \<and>
        map (rxcb_at s') (drop k is) = q' \<and> rx_frame (set is) s s' \<and>
        wf_buffer (rbuf s') \<and> contents (rbuf s') = bs'"
  using assms
proof (induction "is" arbitrary: s u d)
  case Nil
  then show ?case by (simp add: rx_frame_refl)
next
  case (Cons i js)
  have i: "i < length (buf (rx_cbs s))" using Cons.prems by simp
  have same: "map (rxcb_at s') js = map (rxcb_at s) js" if "rx_frame {i} s s'" for s'
    using Cons.prems(3) by (intro map_cong refl rx_frame_fields(3) [OF that]) auto
  note op = rx_op_refines [OF Cons.prems(1) i, of u]
  show ?case
  proof (cases "parse_op h (self s) (rxcb_at s i) (contents (rbuf s)) u" rule: flow_res_cases)
    case (err e)
    with op show ?thesis by (simp add: parse_Cons rx_items_Cons)
  next
    case (break r1 bs1 u1)
    with op obtain s1 where s1: "rx_op h i (s, u) = Inr (Break (s1, u1))"
      "rx_frame {i} s s1" "rxcb_at s1 i = r1" "wf_buffer (rbuf s1)" "contents (rbuf s1) = bs1"
      by (auto simp: rx_result_def)
    have "rx_frame (set (i # js)) s s1" using rx_frame_trans [OF s1(2) rx_frame_refl, of "set js"] by simp
    with break s1 same [OF s1(2)] show ?thesis
      by (auto simp: parse_Cons rx_items_Cons intro!: exI [of _ s1] exI [of _ 0])
  next
    case (nxt r1 bs1 u1)
    with op obtain s1 where s1: "rx_op h i (s, u) = Inr (Next (s1, u1))"
      "rx_frame {i} s s1" "rxcb_at s1 i = r1" "wf_buffer (rbuf s1)" "contents (rbuf s1) = bs1"
      by (auto simp: rx_result_def)
    have pre: "set js \<subseteq> {..<length (buf (rx_cbs s1))}" "distinct js"
      using Cons.prems rx_frame_fields(2) [OF s1(2)] by auto
    note IH = Cons.IH [OF s1(4) pre, of u1 "Suc d", unfolded same [OF s1(2)] rx_frame_fields(1) [OF s1(2)] s1(5)]
    show ?thesis
    proof (cases "parse h (self s) (map (rxcb_at s) js) bs1 u1")
      case (Inl e)
      with IH nxt s1(1) show ?thesis by (simp add: parse_Cons rx_items_Cons)
    next
      case (Inr z)
      with IH obtain s' k where s': "rx_items h js (s1, u1) (Suc d) = Inr ((s', snd (snd z)), Suc d + k)"
        "k \<le> length js" "map (rxcb_at s') (drop k js) = fst z" "rx_frame (set js) s1 s'"
        "wf_buffer (rbuf s')" "contents (rbuf s') = fst (snd z)" by (auto split: prod.splits)
      have "rx_frame (set (i # js)) s s'" using rx_frame_trans [OF s1(2) s'(4)] by simp
      with nxt s1(1) Inr s' show ?thesis
        by (cases z) (auto simp: parse_Cons rx_items_Cons intro!: exI [of _ s'] exI [of _ "Suc k"])
    qed
  qed
qed

lemma rx_deliver_refines:
  assumes ok: "rx_ok s" and room: "used (rx_cbs s) < length (buf (rx_cbs s))"
  shows "case parse h (self s) (contents (rx_cbs s)) (contents (rbuf s)) u of
      Inl e \<Rightarrow> rx_deliver h (s, u) = Inl e
    | Inr (q', bs', u') \<Rightarrow> \<exists>s'. rx_deliver h (s, u) = Inr (s', u') \<and> rx_ok s' \<and> rx_same s s' \<and>
        contents (rx_cbs s') = q' \<and> contents (rbuf s') = bs'"
proof -
  let ?is = "slots (rx_cbs s)"
  have wf: "wf_buffer (rbuf s)" "wf_buffer (rx_cbs s)" using ok by (auto simp: rx_ok_def)
  have rs: "range_slots (rx_cbs s) = Some ?is"
    using range_slots_eq [OF wf(2)] room by simp
  have sub: "set ?is \<subseteq> {..<length (buf (rx_cbs s))}"
    using slots_less [OF wf(2)] by auto
  have q: "map (rxcb_at s) ?is = contents (rx_cbs s)"
    by (simp add: contents_def rxcb_at_def)
  note ref = rx_items_refines [OF wf(1) sub distinct_slots [OF wf(2)], of u 0, unfolded q]
  show ?thesis
  proof (cases "parse h (self s) (contents (rx_cbs s)) (contents (rbuf s)) u")
    case (Inl e)
    with ref rs show ?thesis by (simp add: rx_deliver_def)
  next
    case (Inr z)
    obtain q' bs' u' where z: "z = (q', bs', u')" by (cases z)
    with ref Inr obtain s1 k where s1: "rx_items h ?is (s, u) 0 = Inr ((s1, u'), k)"
      "k \<le> length ?is" "map (rxcb_at s1) (drop k ?is) = q'" "rx_frame (set ?is) s s1"
      "wf_buffer (rbuf s1)" "contents (rbuf s1) = bs'" by auto
    from s1(4) obtain xs rb where fr: "s1 = s\<lparr>rx_cbs := (rx_cbs s)\<lparr>buf := xs\<rparr>, rbuf := rb\<rparr>"
      "length xs = length (buf (rx_cbs s))" "length (buf rb) = length (buf (rbuf s))"
      by (auto simp: rx_frame_def)
    have "wf_buffer (rx_cbs s1)" and sl: "slots (rx_cbs s1) = ?is" and "used (rx_cbs s1) = length ?is"
      using wf(2) fr by (simp_all add: slots_def)
    then obtain c where c: "drop_items (rx_cbs s1) k = Inr c" "wf_buffer c"
      "contents c = drop k (contents (rx_cbs s1))" "buf c = buf (rx_cbs s1)"
      using drop_items_ok [of "rx_cbs s1" k] s1(2) by auto
    have "contents c = q'"
      using c(3) s1(3) by (simp add: contents_def sl drop_map rxcb_at_def [abs_def])
    with rs Inr z s1 c fr show ?thesis
      by (auto simp: rx_deliver_def rx_ok_def rx_same_def)
  qed
qed

lemma sock_rx_delivers:
  assumes "rx_ok s" "used (rx_cbs s) < length (buf (rx_cbs s))"
    and "sock_rx h ks (s, u) = Inr (s', u', ks')"
  shows "rx_ok s' \<and> rx_same (s\<lparr>rx_rdy := rx_rdy s'\<rparr>) s' \<and> (used (rx_cbs s') = 0 \<or> \<not> rx_rdy s') \<and>
    (\<exists>pre. ks = pre @ ks' \<and> (let data = rd_stream pre in
      (data = [] \<and> contents (rx_cbs s') = contents (rx_cbs s) \<and>
        contents (rbuf s') = contents (rbuf s) \<and> u' = u) \<or>
      (data \<noteq> [] \<and> parse h (self s) (contents (rx_cbs s)) (contents (rbuf s) @ data) u =
        Inr (contents (rx_cbs s'), contents (rbuf s'), u'))))"
  using assms
proof (induction ks arbitrary: s u)
  case Nil
  then show ?case
    by (auto simp: rx_ok_def rx_same_def items_def res_simps split: if_splits)
next
  case (Cons k ks)
  obtain d errno where k: "k = RdRet d errno" by (cases k)
  note run = Cons.prems(3) [unfolded k]
  consider (idle) "used (rx_cbs s) = 0"
    | (block) "0 < used (rx_cbs s)" "d = None" "errno = EAGAIN"
    | (data) bs where "0 < used (rx_cbs s)" "d = Some bs" "bs \<noteq> []"
    using run by (cases "used (rx_cbs s) = 0"; cases d)
      (auto simp: items_def res_simps Let_def split: if_splits)
  then show ?case
  proof cases
    case idle
    with run Cons.prems(1) k show ?thesis
      by (auto simp: items_def rx_same_def rx_ok_def intro!: exI [of _ "[]"])
  next
    case block
    with run Cons.prems(1) k show ?thesis
      by (auto simp: items_def rx_same_def rx_ok_def res_simps Let_def intro!: exI [of _ "[RdRet None EAGAIN]"])
  next
    case data
    from run data obtain p1 p2 n1 rb s1 u1 where st:
      "queue_prep (rbuf s) (space (rbuf s)) = Inr (p1, p2, n1)" "length bs \<le> space (rbuf s)"
      "queue_commit ((rbuf s)\<lparr>buf := scatter (buf (rbuf s)) p1 n1 p2 bs\<rparr>) (length bs) = Inr rb"
      "rx_deliver h (s\<lparr>rbuf := rb\<rparr>, u) = Inr (s1, u1)" "sock_rx h ks (s1, u1) = Inr (s', u', ks')"
      by (auto simp: items_def res_simps Let_def split: if_splits)
    have wf: "wf_buffer (rbuf s)" using Cons.prems(1) by (simp add: rx_ok_def)
    have rb: "wf_buffer rb" "contents rb = contents (rbuf s) @ bs" "length (buf rb) = length (buf (rbuf s))"
      using scatter_commit [OF wf st(1) _ st(2)] data(3) st(3) by auto
    have pre: "rx_ok (s\<lparr>rbuf := rb\<rparr>)" "used (rx_cbs (s\<lparr>rbuf := rb\<rparr>)) < length (buf (rx_cbs (s\<lparr>rbuf := rb\<rparr>)))"
      using Cons.prems(1,2) rb(1) by (auto simp: rx_ok_def)
    from rx_deliver_refines [OF pre, of u] st(4) rb(2)
    have p: "parse h (self s) (contents (rx_cbs s)) (contents (rbuf s) @ bs) u =
        Inr (contents (rx_cbs s1), contents (rbuf s1), u1)"
      and s1: "rx_ok s1" "rx_same (s\<lparr>rbuf := rb\<rparr>) s1"
      by (auto split: sum.splits prod.splits)
    have "used (rx_cbs s1) \<le> used (rx_cbs s)" using parse_length [OF p] by simp
    then have room: "used (rx_cbs s1) < length (buf (rx_cbs s1))"
      using Cons.prems(2) s1(2) by (auto simp: rx_same_def)
    have self: "self s1 = self s" using s1(2) by (auto simp: rx_same_def)
    note IH = Cons.IH [OF s1(1) room st(5)]
    then obtain pre' where pre': "ks = pre' @ ks'"
      and alt: "let data = rd_stream pre' in
        (data = [] \<and> contents (rx_cbs s') = contents (rx_cbs s1) \<and>
          contents (rbuf s') = contents (rbuf s1) \<and> u' = u1) \<or>
        (data \<noteq> [] \<and> parse h (self s1) (contents (rx_cbs s1)) (contents (rbuf s1) @ data) u1 =
          Inr (contents (rx_cbs s'), contents (rbuf s'), u'))" by blast
    have "parse h (self s) (contents (rx_cbs s)) (contents (rbuf s) @ bs @ rd_stream pre') u =
        Inr (contents (rx_cbs s'), contents (rbuf s'), u')"
    proof (cases "rd_stream pre' = []")
      case True
      show ?thesis using alt p unfolding True Let_def by simp
    next
      case False
      with alt p parse_append [of h "self s" "contents (rx_cbs s)" "contents (rbuf s) @ bs"
          "rd_stream pre'" u] self
      show ?thesis by (simp add: Let_def)
    qed
    moreover have "rx_same (s\<lparr>rx_rdy := rx_rdy s'\<rparr>) s'"
      using s1(2) IH rb(3) by (auto simp: rx_same_def)
    ultimately show ?thesis using IH pre' k data
      by (auto intro!: exI [of _ "k # pre'"])
  qed
qed

text \<open>One successful \<open>read\<close> of the loop, and what it makes of the promised state.\<close>

lemma rx_read_step:
  assumes ok: "rx_ok s" and seg: "queue_prep (rbuf s) (space (rbuf s)) = Inr (p1, p2, n1)"
    and x: "x \<noteq> []" "length x \<le> space (rbuf s)"
  obtains rb where
    "queue_commit ((rbuf s)\<lparr>buf := scatter (buf (rbuf s)) p1 n1 p2 x\<rparr>) (length x) = Inr rb"
    "case stream_state h s x u of Inl e \<Rightarrow> rx_deliver h (s\<lparr>rbuf := rb\<rparr>, u) = Inl e
     | Inr (q, bs, v) \<Rightarrow> \<exists>s1. rx_deliver h (s\<lparr>rbuf := rb\<rparr>, u) = Inr (s1, v) \<and> rx_ok s1 \<and> rx_same s s1 \<and>
         (\<forall>data. stream_state h s (x @ data) u = stream_state h s1 data v)"
proof -
  have wf: "wf_buffer (rbuf s)" using ok by (simp add: rx_ok_def)
  obtain rb where rb: "queue_commit ((rbuf s)\<lparr>buf := scatter (buf (rbuf s)) p1 n1 p2 x\<rparr>) (length x) = Inr rb"
    "wf_buffer rb" "contents rb = contents (rbuf s) @ x" "length (buf rb) = length (buf (rbuf s))"
    using scatter_commit [OF wf seg _ x(2)] x(1) by auto
  have ok': "rx_ok (s\<lparr>rbuf := rb\<rparr>)" using ok rb(2) by (simp add: rx_ok_def)
  show thesis
  proof (cases "used (rx_cbs s) = length (buf (rx_cbs s))")
    case True
    then have "rx_deliver h (s\<lparr>rbuf := rb\<rparr>, u) = Inr (s\<lparr>rbuf := rb\<rparr>, u)"
      using ok by (intro deliver_full) (simp_all add: rx_ok_def)
    with True rb ok' show thesis
      by (intro that [OF rb(1)]) (simp add: stream_state_def rx_same_def)
  next
    case False
    then have room: "used (rx_cbs (s\<lparr>rbuf := rb\<rparr>)) < length (buf (rx_cbs (s\<lparr>rbuf := rb\<rparr>)))"
      using ok by (simp add: rx_ok_def wf_buffer_def)
    note ref = rx_deliver_refines [OF ok' room, of u]
    show thesis
    proof (cases "parse h (self s) (contents (rx_cbs s)) (contents (rbuf s) @ x) u")
      case (Inl e)
      with ref rb(3) False x(1) show thesis by (intro that [OF rb(1)]) (simp add: stream_state_def)
    next
      case (Inr z)
      obtain q bs v where z: "z = (q, bs, v)" by (cases z)
      with ref Inr rb(3) obtain s1 where s1: "rx_deliver h (s\<lparr>rbuf := rb\<rparr>, u) = Inr (s1, v)" "rx_ok s1"
        "rx_same (s\<lparr>rbuf := rb\<rparr>) s1" "contents (rx_cbs s1) = q" "contents (rbuf s1) = bs" by auto
      have same: "rx_same s s1" using s1(3) rb(4) by (simp add: rx_same_def)
      have "used (rx_cbs s1) \<le> used (rx_cbs s)" using parse_length [of h "self s"] Inr z s1(4) by fastforce
      then have "used (rx_cbs s1) \<noteq> length (buf (rx_cbs s1))"
        using room same by (simp add: rx_same_def)
      then have "stream_state h s (x @ data) u = stream_state h s1 data v" for data
        using parse_append [of h "self s" "contents (rx_cbs s)" "contents (rbuf s) @ x" data u]
          Inr z s1(4,5) same False x(1)
        by (cases "data = []") (simp_all add: stream_state_def rx_same_def)
      with Inr z False x(1) s1 same show thesis
        by (intro that [OF rb(1)]) (simp add: stream_state_def)
    qed
  qed
qed

lemma sock_rx_errors:
  assumes "rx_ok s" "sock_rx h ks (s, u) = Inl e"
  shows "rx_failure h s u ks e"
  using assms
proof (induction ks arbitrary: s u)
  case Nil
  then have "space (rbuf s) = 0" "e = Invalid_argument ''buffer::queue_prep: len = 0''" "0 < used (rx_cbs s)"
    by (auto simp: rx_ok_def wf_buffer_def res_simps queue_prep_def space_def buffer_size_def
        items_def Let_def split: if_splits)
  then show ?case using rx_failure.full [of "[]" h s u "contents (rx_cbs s)" "contents (rbuf s)" u "[]"] Nil.prems(1)
    by (auto simp: stream_state_def space_def buffer_size_def rx_ok_def wf_buffer_def contents_Nil_iff)
next
  case (Cons k ks)
  obtain d errno where k: "k = RdRet d errno" by (cases k)
  have wf: "wf_buffer (rbuf s)" using Cons.prems(1) by (simp add: rx_ok_def)
  have now: "stream_state h s (rd_stream []) u = Inr (contents (rx_cbs s), contents (rbuf s), u)"
    by (simp add: stream_state_def)
  have pend: "contents (rx_cbs s) \<noteq> []"
    using Cons.prems(2) k by (cases "used (rx_cbs s) = 0") (simp_all add: items_def contents_Nil_iff)
  show ?case
  proof (cases "queue_prep (rbuf s) (space (rbuf s))")
    case (Inl e')
    then have "space (rbuf s) = 0" "e' = Invalid_argument ''buffer::queue_prep: len = 0''"
      using wf by (auto simp: queue_prep_def space_def buffer_size_def wf_buffer_def Let_def split: if_splits)
    with Cons.prems(2) k Inl pend rx_failure.full [OF _ now pend] wf show ?thesis
      by (auto simp: space_def buffer_size_def wf_buffer_def items_def contents_Nil_iff split: if_splits)
  next
    case (Inr seg)
    obtain p1 p2 n1 where seg: "seg = (p1, p2, n1)" by (cases seg)
    have sp: "space (rbuf s) = buffer_size (rbuf s) - length (contents (rbuf s))"
      by (simp add: space_def)
    have room: "length (contents (rbuf s)) < buffer_size (rbuf s)"
      using Inr wf by (auto simp: queue_prep_def space_def buffer_size_def Let_def split: if_splits)
    show ?thesis
    proof (cases "\<exists>bs. d = Some bs \<and> bs \<noteq> [] \<and> length bs \<le> space (rbuf s)")
      case False
      then consider (bad) "d = None \<and> errno \<noteq> EAGAIN \<or> d = Some []" "e = System_error errno ''Sock::rx: readv error''"
        | (big) x where "d = Some x" "space (rbuf s) < length x"
            "e = Runtime_error ''Sock::rx: read returned more bytes than asked''"
        using Cons.prems(2) k Inr seg pend
        by (cases d) (auto simp: Let_def items_def contents_Nil_iff split: if_splits)
      then show ?thesis
      proof cases
        case bad
        with rx_failure.broken [OF _ now pend room bad(1), of ks] k show ?thesis by simp
      next
        case (big x)
        then have "buffer_size (rbuf s) < length (contents (rbuf s)) + length x" using sp by linarith
        from rx_failure.too_much [OF _ now pend room this, of errno ks] k big show ?thesis by simp
      qed
    next
      case True
      then obtain x where x: "d = Some x" "x \<noteq> []" "length x \<le> space (rbuf s)" by blast
      obtain rb where rb: "queue_commit ((rbuf s)\<lparr>buf := scatter (buf (rbuf s)) p1 n1 p2 x\<rparr>) (length x) = Inr rb"
        "case stream_state h s x u of Inl e \<Rightarrow> rx_deliver h (s\<lparr>rbuf := rb\<rparr>, u) = Inl e
         | Inr (q, bs, v) \<Rightarrow> \<exists>s1. rx_deliver h (s\<lparr>rbuf := rb\<rparr>, u) = Inr (s1, v) \<and> rx_ok s1 \<and> rx_same s s1 \<and>
             (\<forall>data. stream_state h s (x @ data) u = stream_state h s1 data v)"
        by (rule rx_read_step [OF Cons.prems(1) Inr [unfolded seg] x(2,3)])
      have run: "rbind (rx_deliver h (s\<lparr>rbuf := rb\<rparr>, u)) (\<lambda>(s', u'). sock_rx h ks (s', u')) = Inl e"
        using Cons.prems(2) k Inr seg x rb(1) pend by (auto simp: Let_def not_le contents_Nil_iff items_def split: if_splits)
      show ?thesis
      proof (cases "stream_state h s x u")
        case (Inl e')
        with rb(2) run have "e' = e" by simp
        have "length (contents (rbuf s)) + length x \<le> buffer_size (rbuf s)" using sp room x(3) by linarith
        from rx_failure.callback [OF _ now pend x(2) this, of e errno ks] Inl \<open>e' = e\<close> k x(1)
        show ?thesis by simp
      next
        case (Inr z)
        obtain q bs v where z: "z = (q, bs, v)" by (cases z)
        with rb(2) Inr obtain s1 where s1: "rx_deliver h (s\<lparr>rbuf := rb\<rparr>, u) = Inr (s1, v)" "rx_ok s1"
          "rx_same s s1" "\<And>data. stream_state h s (x @ data) u = stream_state h s1 data v" by auto
        have "rx_failure h s1 v ks e" using run s1(1,2) by (intro Cons.IH) simp_all
        then show ?thesis
          by (rule rx_failure_later [OF _ _ x(2) s1(4)])
            (use x(1) k s1(3) in \<open>simp_all add: buffer_size_def rx_same_def\<close>)
      qed
    qed
  qed
qed

end

subsection \<open>Properties\<close>

text \<open>C1: \<open>Sock::rx\<close> implements stream parsing, for a handler that does not look at where the block it is given is
  split in two (which the memcache generator's does) and while the queue of pending reads is not full:
  whatever pieces the kernel returns and wherever they wrap in the receive buffer, the callbacks, the reads still
  pending and the unconsumed bytes are those of \<open>parse\<close> on the whole stream received. With the queue full
  the bytes received are only buffered: no callback runs and no read completes. Either way it
  returns only when no read is pending or the kernel would block.\<close>

theorem rx_delivers_stream:
  assumes "stream_handler h" "rx_ok s" "sock_rx h ks (s, u) = Inr (s', u', ks')"
  shows "rx_ok s' \<and> (items (rx_cbs s') = 0 \<or> \<not> rx_rdy s') \<and>
    (\<exists>pre. ks = pre @ ks' \<and> (let data = rd_stream pre in
      if items (rx_cbs s) < buffer_size (rx_cbs s) then
        (data = [] \<and> contents (rx_cbs s') = contents (rx_cbs s) \<and>
          contents (rbuf s') = contents (rbuf s) \<and> u' = u) \<or>
        (data \<noteq> [] \<and> parse h (self s) (contents (rx_cbs s)) (contents (rbuf s) @ data) u =
          Inr (contents (rx_cbs s'), contents (rbuf s'), u'))
      else rx_cbs s' = rx_cbs s \<and> contents (rbuf s') = contents (rbuf s) @ data \<and> u' = u))"
proof (cases "items (rx_cbs s) < buffer_size (rx_cbs s)")
  case True
  then show ?thesis using stream_handler.sock_rx_delivers [OF assms(1,2) _ assms(3)]
    by (simp add: items_def buffer_size_def)
next
  case False
  with assms(2) have "used (rx_cbs s) = length (buf (rx_cbs s))"
    by (simp add: rx_ok_def wf_buffer_def items_def buffer_size_def)
  from sock_rx_stalls [OF assms(2) this assms(3)] False show ?thesis by (auto simp: Let_def)
qed

text \<open>C18: TCP segmentation is invisible, for a handler that does not look at where the block it is given is split
  (the synthetic generator's and the loader's, not the memcache generator's) and a queue of pending reads that is
  not full: two kernels that deliver the same bytes cut in different pieces leave the program in the same state, with
  the same reads pending and the same unconsumed bytes.\<close>

theorem rx_segmentation_independent:
  assumes "stream_handler h" "rx_ok s" "items (rx_cbs s) < buffer_size (rx_cbs s)"
    and "sock_rx h ks1 (s, u) = Inr (s1, u1, [])" "sock_rx h ks2 (s, u) = Inr (s2, u2, [])"
    and "rd_stream ks1 = rd_stream ks2"
  shows "u1 = u2 \<and> contents (rx_cbs s1) = contents (rx_cbs s2) \<and>
    contents (rbuf s1) = contents (rbuf s2)"
proof -
  have room: "used (rx_cbs s) < length (buf (rx_cbs s))"
    using assms(3) by (simp add: items_def buffer_size_def)
  show ?thesis
    using stream_handler.sock_rx_delivers [OF assms(1,2) room assms(4)]
      stream_handler.sock_rx_delivers [OF assms(1,2) room assms(5)] assms(6)
    by (auto simp: Let_def)
qed

text \<open>C36: How \<open>Sock::rx\<close> throws, for a handler that does not look at where the block it is given is split. Some
  \<open>read\<close>s succeeded, what they delivered left a read pending, and then exactly one thing happened: no room
  was left in the receive buffer; there was room, and \<open>readv\<close> failed with another error than \<open>EAGAIN\<close> or met the end
  of the stream; the kernel returned more bytes than there was room for; or a callback threw this exception on the bytes
  received so far. With a full queue of pending reads no callback runs, so it is not the last.\<close>

theorem rx_errors:
  assumes "stream_handler h" "rx_ok s" "sock_rx h ks (s, u) = Inl e"
  shows "\<exists>pre q bs v post. ks = pre @ post \<and> (\<forall>k \<in> set pre. rd_bytes k \<noteq> []) \<and>
    stream_state h s (rd_stream pre) u = Inr (q, bs, v) \<and> q \<noteq> [] \<and>
    (if length bs = buffer_size (rbuf s) then e = Invalid_argument ''buffer::queue_prep: len = 0''
     else length bs < buffer_size (rbuf s) \<and> (\<exists>d errno rest. post = RdRet d errno # rest \<and>
       (case d of
          None \<Rightarrow> errno \<noteq> EAGAIN \<and> e = System_error errno ''Sock::rx: readv error''
        | Some x \<Rightarrow>
            if x = [] then e = System_error errno ''Sock::rx: readv error''
            else if buffer_size (rbuf s) < length bs + length x
              then e = Runtime_error ''Sock::rx: read returned more bytes than asked''
            else items (rx_cbs s) < buffer_size (rx_cbs s) \<and>
              parse h (self s) (contents (rx_cbs s)) (contents (rbuf s) @ rd_stream pre @ x) u = Inl e)))"
  using stream_handler.sock_rx_errors [OF assms]
proof cases
  case (full pre q bs v post)
  then show ?thesis by (intro exI [of _ pre] exI [of _ q] exI [of _ bs] exI [of _ v] exI [of _ post]) simp
next
  case (broken pre q bs v d errno post)
  then show ?thesis
    by (intro exI [of _ pre] exI [of _ q] exI [of _ bs] exI [of _ v] exI [of _ "RdRet d errno # post"]) auto
next
  case (too_much pre q bs v x errno post)
  then show ?thesis
    by (intro exI [of _ pre] exI [of _ q] exI [of _ bs] exI [of _ v] exI [of _ "RdRet (Some x) errno # post"]) auto
next
  case (callback pre q bs v x errno post)
  moreover from callback have "items (rx_cbs s) < buffer_size (rx_cbs s)" "0 < length x"
    using assms(2) by (auto simp: stream_state_def rx_ok_def wf_buffer_def items_def buffer_size_def split: if_splits)
  ultimately show ?thesis
    by (intro exI [of _ pre] exI [of _ q] exI [of _ bs] exI [of _ v] exI [of _ "RdRet (Some x) errno # post"])
      (auto simp: stream_state_def split: if_splits)
qed

text \<open>For the witnesses: a handler that records the bytes it is given and asks for a body of two
  bytes, and a socket with one read pending whose receive buffer is about to wrap.\<close>

definition recorder :: "(unit, unit, byte list) rx_handler" where
  "recorder cb this d s1 s2 st u = Inr (2, u @ s1 @ (case s2 of None \<Rightarrow> [] | Some x \<Rightarrow> x))"

lemma recorder_stream: "stream_handler recorder"
  by unfold_locales (simp add: recorder_def)

definition demo_sock :: "(unit, unit, unit) Sock" where
  "demo_sock = (sock_new 3 5 7 ())
     \<lparr>rx_cbs := \<lparr>buf = [IORx_default (), IORx_default (),
        \<lparr>hdrlen = 3, hdrcb = Some (), bodylen = 0, bodycb = Some (), rxdata = ()\<rparr>],
        head = 2, tail = 0, used = 1\<rparr>,
      rbuf := \<lparr>buf = replicate 5 0, head = 3, tail = 3, used = 0\<rparr>\<rparr>"

lemma demo_sock_ok: "rx_ok demo_sock" "items (rx_cbs demo_sock) < buffer_size (rx_cbs demo_sock)"
  by (simp_all add: rx_ok_def demo_sock_def wf_buffer_def ring_ix_def items_def buffer_size_def)

lemma demo_one_piece:
  "\<exists>s'. sock_rx recorder [RdRet (Some [1, 2, 3, 4, 5]) 0] (demo_sock, []) = Inr (s', [1, 2, 3, 4, 5], [])"
  by (rule run_outcome) code_simp

lemma demo_three_pieces:
  "\<exists>s'. sock_rx recorder [RdRet (Some [1]) 0, RdRet (Some [2, 3, 4]) 0, RdRet (Some [5]) 0] (demo_sock, [])
     = Inr (s', [1, 2, 3, 4, 5], [])"
  by (rule run_outcome) code_simp

theorem rx_delivers_stream_witness:
  "\<exists>s'. sock_rx recorder [RdRet (Some [1]) 0, RdRet (Some [2, 3, 4]) 0, RdRet (Some [5]) 0]
      (demo_sock, []) = Inr (s', [1, 2, 3, 4, 5], []) \<and> rx_ok s' \<and>
    (items (rx_cbs s') = 0 \<or> \<not> rx_rdy s')"
  using demo_three_pieces rx_delivers_stream [OF recorder_stream demo_sock_ok(1)] by blast

theorem rx_segmentation_independent_witness:
  "\<exists>s1 s2. sock_rx recorder [RdRet (Some [1, 2, 3, 4, 5]) 0] (demo_sock, []) = Inr (s1, [1, 2, 3, 4, 5], []) \<and>
    sock_rx recorder [RdRet (Some [1]) 0, RdRet (Some [2, 3, 4]) 0, RdRet (Some [5]) 0] (demo_sock, [])
      = Inr (s2, [1, 2, 3, 4, 5], []) \<and> contents (rbuf s1) = contents (rbuf s2)"
proof -
  obtain s1 s2 where r: "sock_rx recorder [RdRet (Some [1, 2, 3, 4, 5]) 0] (demo_sock, []) =
      Inr (s1, [1, 2, 3, 4, 5], [])"
    "sock_rx recorder [RdRet (Some [1]) 0, RdRet (Some [2, 3, 4]) 0, RdRet (Some [5]) 0] (demo_sock, [])
      = Inr (s2, [1, 2, 3, 4, 5], [])"
    using demo_one_piece demo_three_pieces by blast
  with rx_segmentation_independent [OF recorder_stream demo_sock_ok r] show ?thesis by auto
qed

theorem rx_errors_witness:
  "sock_rx recorder [RdRet (Some [1, 2]) 0, RdRet (Some []) 104] (demo_sock, []) =
      Inl (System_error 104 ''Sock::rx: readv error'') \<and>
    (\<exists>pre q bs v post. [RdRet (Some [1, 2]) 0, RdRet (Some []) 104] = pre @ post \<and>
      stream_state recorder demo_sock (rd_stream pre) [] = Inr (q, bs, v) \<and> q \<noteq> [] \<and>
      length bs < buffer_size (rbuf demo_sock))"
proof -
  have "case sock_rx recorder [RdRet (Some [1, 2]) 0, RdRet (Some []) 104] (demo_sock, []) of
      Inr _ \<Rightarrow> False | Inl e \<Rightarrow> e = System_error 104 ''Sock::rx: readv error''"
    by code_simp
  then have run: "sock_rx recorder [RdRet (Some [1, 2]) 0, RdRet (Some []) 104] (demo_sock, []) =
      Inl (System_error 104 ''Sock::rx: readv error'')"
    by (simp split: sum.splits del: sock_rx.simps)
  from rx_errors [OF recorder_stream demo_sock_ok(1) run] obtain pre q bs v post where
    "[RdRet (Some [1, 2]) 0, RdRet (Some []) 104] = pre @ post"
    "stream_state recorder demo_sock (rd_stream pre) [] = Inr (q, bs, v)" "q \<noteq> []"
    "length bs < buffer_size (rbuf demo_sock)"
    by (auto split: if_splits)
  with run show ?thesis by blast
qed

end
