(* ===== verification/Sock_Tx.thy ===== *)
theory Sock_Tx
  imports Sock_Rx
begin

section \<open>Transmitting as a byte stream with due callbacks\<close>

text \<open>
  What the write side of \<open>Sock\<close> promises: the bytes written are handed to the kernel in order,
  none lost or repeated, whatever part of them each \<open>write\<close> takes; and a callback point fires
  once everything written before it has been taken. The code keeps the points as deltas; \<open>dues\<close>
  turns them into the number of bytes still to be sent before each one.
\<close>

subsection \<open>Deltas and absolute points\<close>

fun due_from :: "nat \<Rightarrow> ('t, 'd) IOTx list \<Rightarrow> (nat \<times> 't option \<times> 'd) list" where
  "due_from a [] = []"
| "due_from a (t # q) = (a + txlen t, txcb t, txdata t) # due_from (a + txlen t) q"

definition dues :: "('c, 't, 'd) Sock \<Rightarrow> (nat \<times> 't option \<times> 'd) list" where
  "dues s = due_from 0 (contents (tx_cbs s))"

abbreviation "total_len q \<equiv> sum_list (map txlen q)"

lemma due_from_append: "due_from a (p @ q) = due_from a p @ due_from (a + total_len p) q"
  by (induction p arbitrary: a) (auto simp: add.assoc)

lemma due_from_shift: "due_from (a + n) q = map (\<lambda>(p, c). (p + n, c)) (due_from a q)"
proof (induction q arbitrary: a)
  case (Cons t q)
  show ?case using Cons.IH [of "a + txlen t"] by (simp add: ac_simps)
qed simp

lemma due_from_ge: "x \<in> set (due_from a q) \<Longrightarrow> a \<le> fst x"
  by (induction q arbitrary: a) force+

lemma due_from_le: "x \<in> set (due_from a q) \<Longrightarrow> fst x \<le> a + total_len q"
  by (induction q arbitrary: a) force+

text \<open>Advancing by \<open>n\<close> bytes: what fires and what is left.\<close>

fun fire :: "('t, 'd) IOTx list \<Rightarrow> nat \<Rightarrow> ('t option \<times> 'd) list \<times> ('t, 'd) IOTx list" where
  "fire [] n = ([], [])"
| "fire (t # q) n =
     (if txlen t > n then ([], t\<lparr>txlen := txlen t - n\<rparr> # q)
      else ((txcb t, txdata t) # fst (fire q (n - txlen t)), snd (fire q (n - txlen t))))"

fun fired_by :: "nat \<Rightarrow> (nat \<times> 'x) list \<Rightarrow> 'x list" where
  "fired_by n [] = []"
| "fired_by n ((p, c) # ds) = (if p \<le> n then c # fired_by n ds else [])"

fun left_by :: "nat \<Rightarrow> (nat \<times> 'x) list \<Rightarrow> (nat \<times> 'x) list" where
  "left_by n [] = []"
| "left_by n ((p, c) # ds) =
     (if p \<le> n then left_by n ds else map (\<lambda>(p, c). (p - n, c)) ((p, c) # ds))"

lemma fired_by_shift:
  assumes "m \<le> n"
  shows "fired_by n (map (\<lambda>(p, c). (p + m, c)) ds) = fired_by (n - m) ds"
proof -
  have "p + m \<le> n \<longleftrightarrow> p \<le> n - m" "p + m - n = p - (n - m)" for p
    using assms by linarith+
  then show ?thesis by (induction ds) auto
qed

lemma left_by_shift:
  assumes "m \<le> n"
  shows "left_by n (map (\<lambda>(p, c). (p + m, c)) ds) = left_by (n - m) ds"
proof -
  have "p + m \<le> n \<longleftrightarrow> p \<le> n - m" "p + m - n = p - (n - m)" for p
    using assms by linarith+
  then show ?thesis by (induction ds) auto
qed

lemma due_from_add: "due_from a q = map (\<lambda>(p, c). (p + a, c)) (due_from 0 q)"
  using due_from_shift [of 0 a q] by simp

lemma fire_spec:
  "fst (fire q n) = fired_by n (due_from 0 q) \<and> due_from 0 (snd (fire q n)) = left_by n (due_from 0 q)"
proof (induction q arbitrary: n)
  case Nil
  then show ?case by simp
next
  case (Cons t q)
  show ?case
  proof (cases "txlen t > n")
    case True
    have "map (\<lambda>(p, c). (p - n, c)) (due_from (txlen t) q) = due_from (txlen t - n) q"
      using True due_from_add [of "txlen t" q] due_from_add [of "txlen t - n" q]
      by (auto simp: comp_def case_prod_unfold)
    with True show ?thesis by simp
  next
    case False
    have f: "fired_by n (due_from (txlen t) q) = fired_by (n - txlen t) (due_from 0 q)"
      "left_by n (due_from (txlen t) q) = left_by (n - txlen t) (due_from 0 q)"
      using False due_from_add [of "txlen t" q] by (simp_all add: fired_by_shift left_by_shift)
    with False Cons.IH [of "n - txlen t"] show ?thesis by simp
  qed
qed

lemma fire_total: "total_len (snd (fire q n)) = total_len q - n"
  by (induction q arbitrary: n) auto

text \<open>Sending in two parts is sending at once.\<close>

lemma none_fired: "\<forall>x \<in> set ds. n < fst x \<Longrightarrow> fired_by n ds = []"
  by (cases "(n, ds)" rule: fired_by.cases) auto

lemma none_left: "\<forall>x \<in> set ds. n < fst x \<Longrightarrow> left_by n ds = map (\<lambda>(p, c). (p - n, c)) ds"
  by (cases "(n, ds)" rule: left_by.cases) auto

lemma fired_by_map: "\<forall>x \<in> set ds. a < fst x \<Longrightarrow>
   fired_by b (map (\<lambda>(p, c). (p - a, c)) ds) = fired_by (a + b) ds"
  by (induction ds) (auto simp: le_diff_conv add.commute)

lemma left_by_map: "\<forall>x \<in> set ds. a < fst x \<Longrightarrow>
   left_by b (map (\<lambda>(p, c). (p - a, c)) ds) = left_by (a + b) ds"
  by (induction ds) (auto simp: le_diff_conv add.commute)

lemma dues_add:
  assumes "sorted (map fst ds)"
  shows "fired_by (a + b) ds = fired_by a ds @ fired_by b (left_by a ds) \<and>
    left_by (a + b) ds = left_by b (left_by a ds)"
  using assms
proof (induction ds)
  case (Cons x ds)
  obtain p c where x: "x = (p, c)" by (cases x)
  show ?case
  proof (cases "p \<le> a")
    case True
    with Cons x show ?thesis by simp
  next
    case False
    then have "\<forall>y \<in> set (x # ds). a < fst y" using Cons.prems x by fastforce
    then show ?thesis
      by (simp add: none_fired none_left fired_by_map left_by_map del: fired_by.simps left_by.simps list.map)
  qed
qed simp

lemma due_sorted: "sorted (map fst (due_from a q))"
  by (induction q arbitrary: a) (auto dest: due_from_ge)


subsection \<open>The code refines the specification\<close>

text \<open>\<open>tx_ok\<close>: both transmit-side buffers are well formed, \<open>tx_out_\<close> is the sum of the deltas,
  and no point lies behind the bytes in the buffer.\<close>

definition tx_ok :: "('c, 't, 'd) Sock \<Rightarrow> bool" where
  "tx_ok s \<longleftrightarrow> wf_buffer (wbuf s) \<and> wf_buffer (tx_cbs s) \<and>
     tx_out s = total_len (contents (tx_cbs s)) \<and> tx_out s \<le> items (wbuf s)"

fun call_all :: "('t, 'd, 'u) tx_handler \<Rightarrow> nat \<Rightarrow> ('t option \<times> 'd) list \<Rightarrow> 'u \<Rightarrow> 'u res" where
  "call_all h this [] u = Inr u"
| "call_all h this ((c, d) # cs) u =
     (case c of None \<Rightarrow> Inl Bad_function_call
      | Some cb \<Rightarrow> rbind (h cb this d 0 u) (\<lambda>u'. call_all h this cs u'))"

lemma call_all_append:
  "call_all h this (xs @ ys) u = rbind (call_all h this xs u) (call_all h this ys)"
proof (induction xs arbitrary: u)
  case (Cons x xs)
  then have "call_all h this (xs @ ys) = (\<lambda>u. rbind (call_all h this xs u) (call_all h this ys))"
    by blast
  then show ?case by (cases x) (auto simp: rbind_assoc split: option.splits)
qed simp

definition tx_frame :: "nat set \<Rightarrow> ('c, 't, 'd) Sock \<Rightarrow> ('c, 't, 'd) Sock \<Rightarrow> bool" where
  "tx_frame I s s' \<longleftrightarrow> (\<exists>xs n. s' = s\<lparr>tx_cbs := (tx_cbs s)\<lparr>buf := xs\<rparr>, tx_out := n\<rparr> \<and>
     length xs = length (buf (tx_cbs s)) \<and> (\<forall>j. j \<notin> I \<longrightarrow> xs ! j = buf (tx_cbs s) ! j))"

lemma tx_frame_out: "tx_frame I s (s\<lparr>tx_out := n\<rparr>)"
  unfolding tx_frame_def by (intro exI [of _ "buf (tx_cbs s)"] exI [of _ n]) simp

lemma tx_frame_trans:
  assumes "tx_frame I s s'" "tx_frame J s' s''"
  shows "tx_frame (I \<union> J) s s''"
proof -
  obtain xs n where 1: "s' = s\<lparr>tx_cbs := (tx_cbs s)\<lparr>buf := xs\<rparr>, tx_out := n\<rparr>"
    "length xs = length (buf (tx_cbs s))" "\<And>j. j \<notin> I \<Longrightarrow> xs ! j = buf (tx_cbs s) ! j"
    using assms(1) by (auto simp: tx_frame_def)
  obtain ys m where 2: "s'' = s'\<lparr>tx_cbs := (tx_cbs s')\<lparr>buf := ys\<rparr>, tx_out := m\<rparr>"
    "length ys = length (buf (tx_cbs s'))" "\<And>j. j \<notin> J \<Longrightarrow> ys ! j = buf (tx_cbs s') ! j"
    using assms(2) by (auto simp: tx_frame_def)
  show ?thesis
    unfolding tx_frame_def by (intro exI [of _ ys] exI [of _ m]) (simp add: 1 2)
qed

lemma tx_frame_set:
  "i \<in> I \<Longrightarrow> tx_frame I s ((set_txcb s i t)\<lparr>tx_out := n\<rparr>)"
  unfolding tx_frame_def
  by (intro exI [of _ "(buf (tx_cbs s))[i := t]"] exI [of _ n]) (auto simp: set_txcb_def, metis nth_list_update_neq)

lemma txcb_at_simps [simp]:
  "txcb_at (s\<lparr>tx_out := n\<rparr>) j = txcb_at s j"
  "i < length (buf (tx_cbs s)) \<Longrightarrow> txcb_at (set_txcb s i t) i = t"
  "i \<noteq> j \<Longrightarrow> txcb_at (set_txcb s i t) j = txcb_at s j"
  by (simp_all add: txcb_at_def set_txcb_def)

text \<open>The callbacks and the socket do not depend on each other: \<open>tx_after\<close> is the socket part of
  the loop.\<close>

fun tx_after :: "nat list \<Rightarrow> nat \<Rightarrow> ('c, 't, 'd) Sock \<Rightarrow> ('c, 't, 'd) Sock" where
  "tx_after [] n s = s"
| "tx_after (i # is) n s =
     (if txlen (txcb_at s i) > n
      then (set_txcb s i ((txcb_at s i)\<lparr>txlen := txlen (txcb_at s i) - n\<rparr>))
             \<lparr>tx_out := size_sub (tx_out s) n\<rparr>
      else tx_after is (n - txlen (txcb_at s i))
             (s\<lparr>tx_out := size_sub (tx_out s) (txlen (txcb_at s i))\<rparr>))"

lemma tx_fire_splits:
  "tx_fire h is n (s, u) d = rbind (call_all h (self s) (fst (fire (map (txcb_at s) is) n)) u)
     (\<lambda>u'. Inr ((tx_after is n s, u'), d + length (fst (fire (map (txcb_at s) is) n))))"
proof (induction "is" arbitrary: n s u d)
  case (Cons i js)
  let ?s1 = "s\<lparr>tx_out := size_sub (tx_out s) (txlen (txcb_at s i))\<rparr>"
  have "map (txcb_at ?s1) js = map (txcb_at s) js" by simp
  then show ?case using Cons.IH [of "n - txlen (txcb_at s i)" ?s1 _ "Suc d"]
    by (simp add: Let_def rbind_assoc split: option.splits)
qed simp

lemma tx_after_spec:
  assumes "set is \<subseteq> {..<length (buf (tx_cbs s))}" "distinct is"
    and "total_len (map (txcb_at s) is) \<le> tx_out s"
  shows "length (fst (fire (map (txcb_at s) is) n)) \<le> length is \<and>
    map (txcb_at (tx_after is n s)) (drop (length (fst (fire (map (txcb_at s) is) n))) is) =
      snd (fire (map (txcb_at s) is) n) \<and>
    tx_frame (set is) s (tx_after is n s) \<and>
    tx_out (tx_after is n s) = tx_out s - min n (total_len (map (txcb_at s) is))"
  using assms
proof (induction "is" arbitrary: s n)
  case Nil
  show ?case using tx_frame_out [of "{}" s "tx_out s"] by simp
next
  case (Cons i js)
  let ?t = "txcb_at s i"
  have i: "i < length (buf (tx_cbs s))" using Cons.prems by simp
  show ?case
  proof (cases "txlen ?t > n")
    case True
    let ?s' = "(set_txcb s i (?t\<lparr>txlen := txlen ?t - n\<rparr>))\<lparr>tx_out := tx_out s - n\<rparr>"
    have "i \<noteq> j" if "j \<in> set js" for j using that Cons.prems(2) by auto
    then have "map (txcb_at ?s') js = map (txcb_at s) js" by simp
    with True Cons.prems i tx_frame_set [of i "set (i # js)"] show ?thesis by simp
  next
    case False
    let ?s1 = "s\<lparr>tx_out := tx_out s - txlen ?t\<rparr>"
    have "map (txcb_at ?s1) js = map (txcb_at s) js" by simp
    moreover have "set js \<subseteq> {..<length (buf (tx_cbs ?s1))}" "distinct js"
      "total_len (map (txcb_at s) js) \<le> tx_out ?s1"
      using Cons.prems by auto
    moreover have "tx_frame (set (i # js)) s s2" if "tx_frame (set js) ?s1 s2" for s2
      using tx_frame_trans [OF tx_frame_out that, of "{i}"] by simp
    ultimately show ?thesis
      using Cons.IH [of ?s1 "n - txlen ?t"] False Cons.prems(3) by (auto simp: min_def)
  qed
qed


definition tx_same :: "('c, 't, 'd) Sock \<Rightarrow> ('c, 't, 'd) Sock \<Rightarrow> bool" where
  "tx_same s s' \<longleftrightarrow> self s' = self s \<and> fd s' = fd s \<and> connected s' = connected s \<and>
     rx_rdy s' = rx_rdy s \<and> rx_cbs s' = rx_cbs s \<and> rbuf s' = rbuf s \<and>
     length (buf (tx_cbs s')) = length (buf (tx_cbs s)) \<and>
     length (buf (wbuf s')) = length (buf (wbuf s))"

lemma tx_same_refl [simp]: "tx_same s s"
  by (simp add: tx_same_def)

lemma tx_same_trans: "tx_same s s' \<Longrightarrow> tx_same s' s'' \<Longrightarrow> tx_same s s''"
  by (simp add: tx_same_def)

lemma tx_callbacks_refines:
  assumes wf: "wf_buffer (tx_cbs s)" and room: "used (tx_cbs s) < length (buf (tx_cbs s))"
    and out: "tx_out s = total_len (contents (tx_cbs s))"
  shows "\<exists>s'. (\<forall>u. tx_callbacks h n (s, u) =
      rbind (call_all h (self s) (fired_by n (dues s)) u) (\<lambda>u'. Inr (s', u'))) \<and>
    wf_buffer (tx_cbs s') \<and> dues s' = left_by n (dues s) \<and> tx_same s s' \<and> wbuf s' = wbuf s \<and>
    tx_rdy s' = tx_rdy s \<and> tx_out s' = total_len (contents (tx_cbs s')) \<and> tx_out s' = tx_out s - n \<and>
    used (tx_cbs s') \<le> used (tx_cbs s)"
proof -
  let ?is = "slots (tx_cbs s)" and ?ts = "contents (tx_cbs s)"
  have ts: "map (txcb_at s) ?is = ?ts" by (simp add: contents_def txcb_at_def)
  let ?k = "length (fst (fire ?ts n))"
  have sub: "set ?is \<subseteq> {..<length (buf (tx_cbs s))}" using slots_less [OF wf] by auto
  define s1 where "s1 = tx_after ?is n s"
  have s1: "?k \<le> length ?is" "map (txcb_at s1) (drop ?k ?is) = snd (fire ?ts n)"
    "tx_frame (set ?is) s s1" "tx_out s1 = tx_out s - min n (total_len ?ts)"
    using tx_after_spec [OF sub distinct_slots [OF wf], of n] out by (simp_all add: ts s1_def)
  from s1(3) obtain xs m where fr: "s1 = s\<lparr>tx_cbs := (tx_cbs s)\<lparr>buf := xs\<rparr>, tx_out := m\<rparr>"
    "length xs = length (buf (tx_cbs s))" by (auto simp: tx_frame_def)
  have "wf_buffer (tx_cbs s1)" and sl: "slots (tx_cbs s1) = ?is" and us: "used (tx_cbs s1) = length ?is"
    using wf fr by (simp_all add: slots_def)
  then obtain c where c: "drop_items (tx_cbs s1) ?k = Inr c" "wf_buffer c"
    "contents c = drop ?k (contents (tx_cbs s1))" "buf c = buf (tx_cbs s1)" "used c = used (tx_cbs s1) - ?k"
    using drop_items_ok [of "tx_cbs s1" ?k] s1(1) by auto
  have cc: "contents c = snd (fire ?ts n)"
    using c(3) s1(2) by (simp add: contents_def sl drop_map txcb_at_def [abs_def])
  let ?s' = "s1\<lparr>tx_cbs := c\<rparr>"
  have "tx_callbacks h n (s, u) =
      rbind (call_all h (self s) (fired_by n (dues s)) u) (\<lambda>u'. Inr (?s', u'))" for u
    using range_slots_eq [OF wf] room c(1)
    by (simp add: tx_callbacks_def tx_fire_splits ts rbind_assoc dues_def fire_spec flip: s1_def)
  moreover have "dues ?s' = left_by n (dues s)"
    by (simp add: dues_def cc fire_spec)
  moreover have "tx_out ?s' = total_len (contents c)"
    using s1(4) out by (simp add: cc fire_total)
  ultimately show ?thesis using c s1(4) fr out us
    by (intro exI [of _ ?s']) (auto simp: tx_same_def)
qed

lemma sock_tx_sends:
  assumes "tx_ok s" "used (tx_cbs s) < length (buf (tx_cbs s))"
    and "sock_tx h ws (s, u) wire = Inr (s', u', ws', wire')"
  shows "tx_ok s' \<and> tx_same s s' \<and> used (tx_cbs s') \<le> used (tx_cbs s) \<and>
    (used (wbuf s') = 0 \<or> \<not> tx_rdy s') \<and>
    (\<exists>sent. wire' = wire @ sent \<and> contents (wbuf s) = sent @ contents (wbuf s') \<and>
      ((sent = [] \<and> dues s' = dues s \<and> u' = u) \<or>
       (dues s' = left_by (length sent) (dues s) \<and>
        call_all h (self s) (fired_by (length sent) (dues s)) u = Inr u')))"
  using assms
proof (induction ws arbitrary: s u wire)
  case Nil
  then show ?case
    by (auto simp: items_def res_simps tx_same_def tx_ok_def dues_def split: if_splits)
next
  case (Cons w ws)
  obtain r errno where w: "w = WrRet r errno" by (cases w)
  note run = Cons.prems(3) [unfolded w]
  consider (idle) "used (wbuf s) = 0" | (block) "0 < used (wbuf s)" "r = None" "errno = EAGAIN"
    | (wrote) k where "0 < used (wbuf s)" "r = Some k" "k \<le> used (wbuf s)"
    using run by (cases "used (wbuf s) = 0"; cases r)
      (auto simp: items_def res_simps Let_def split: if_splits)
  then show ?case
  proof cases
    case idle
    with run Cons.prems(1) show ?thesis by (auto simp: items_def)
  next
    case block
    with run Cons.prems(1) show ?thesis
      by (auto simp: items_def tx_same_def tx_ok_def res_simps Let_def dues_def)
  next
    case wrote
    have wf: "wf_buffer (wbuf s)" "wf_buffer (tx_cbs s)" "tx_out s = total_len (contents (tx_cbs s))"
      "tx_out s \<le> used (wbuf s)"
      using Cons.prems(1) by (auto simp: tx_ok_def items_def)
    obtain p2 n1 where pk: "peek (wbuf s) (used (wbuf s)) = Inr (head (wbuf s), p2, n1)"
      "gather (buf (wbuf s)) (head (wbuf s)) n1 p2 (used (wbuf s)) = contents (wbuf s)"
      using peek_ok [OF wf(1) wrote(1)] by auto
    obtain wb where wb: "drop_items (wbuf s) k = Inr wb" "wf_buffer wb"
      "contents wb = drop k (contents (wbuf s))" "buf wb = buf (wbuf s)" "used wb = used (wbuf s) - k"
      using drop_items_ok [OF wf(1) wrote(3)] by blast
    let ?s = "s\<lparr>wbuf := wb\<rparr>"
    obtain s1 where s1: "\<And>u. tx_callbacks h k (?s, u) =
        rbind (call_all h (self s) (fired_by k (dues s)) u) (\<lambda>u'. Inr (s1, u'))"
      "wf_buffer (tx_cbs s1)" "dues s1 = left_by k (dues s)" "tx_same ?s s1" "wbuf s1 = wb"
      "tx_out s1 = total_len (contents (tx_cbs s1))" "tx_out s1 = tx_out s - k"
      "used (tx_cbs s1) \<le> used (tx_cbs s)"
      using tx_callbacks_refines [of ?s h k] wf(2,3) Cons.prems(2) by (auto simp: dues_def)
    from run wrote pk wb s1(1) obtain u1 where
      u1: "call_all h (self s) (fired_by k (dues s)) u = Inr u1"
      and rest: "sock_tx h ws (s1, u1) (wire @ take k (contents (wbuf s))) = Inr (s', u', ws', wire')"
      by (auto simp: items_def res_simps Let_def)
    have ok1: "tx_ok s1" using s1 wb wf(4) by (auto simp: tx_ok_def items_def)
    have same: "tx_same s s1" using s1(4) wb(4) by (simp add: tx_same_def)
    have room: "used (tx_cbs s1) < length (buf (tx_cbs s1))"
      using s1(8) Cons.prems(2) same by (simp add: tx_same_def)
    note IH = Cons.IH [OF ok1 room rest]
    then obtain sent where sent: "wire' = (wire @ take k (contents (wbuf s))) @ sent"
      "contents (wbuf s1) = sent @ contents (wbuf s')"
      and alt: "(sent = [] \<and> dues s' = dues s1 \<and> u' = u1) \<or>
       (dues s' = left_by (length sent) (dues s1) \<and>
        call_all h (self s1) (fired_by (length sent) (dues s1)) u1 = Inr u')" by blast
    have eq: "contents (wbuf s) = (take k (contents (wbuf s)) @ sent) @ contents (wbuf s')"
      using sent(2) wb(3) s1(5) by (metis append.assoc append_take_drop_id)
    have len: "length (take k (contents (wbuf s)) @ sent) = k + length sent" using wrote(3) by simp
    have srt: "sorted (map fst (dues s))" by (simp add: dues_def due_sorted)
    have "dues s' = left_by (k + length sent) (dues s) \<and>
        call_all h (self s) (fired_by (k + length sent) (dues s)) u = Inr u'"
      using alt u1 s1(3) dues_add [OF srt, of k "length sent"] same
      by (auto simp: call_all_append tx_same_def)
    then show ?thesis
      using IH sent(1) eq len same s1(8) tx_same_trans [OF same]
      by (intro conjI exI [of _ "take k (contents (wbuf s)) @ sent"]) auto
  qed
qed


text \<open>With a full queue of callback points the bytes still go out in order; no point fires or moves.\<close>

lemma callbacks_full:
  "wf_buffer (tx_cbs s) \<Longrightarrow> used (tx_cbs s) = length (buf (tx_cbs s)) \<Longrightarrow>
   tx_callbacks h n (s, u) = Inr (s, u)"
  by (simp add: tx_callbacks_def range_slots_eq drop_items_def)

lemma sock_tx_stalls:
  assumes "wf_buffer (wbuf s)" "wf_buffer (tx_cbs s)" "used (tx_cbs s) = length (buf (tx_cbs s))"
    and "sock_tx h ws (s, u) wire = Inr (s', u', ws', wire')"
  shows "wf_buffer (wbuf s') \<and> tx_cbs s' = tx_cbs s \<and> tx_out s' = tx_out s \<and> u' = u \<and>
    (used (wbuf s') = 0 \<or> \<not> tx_rdy s') \<and>
    (\<exists>sent. wire' = wire @ sent \<and> contents (wbuf s) = sent @ contents (wbuf s'))"
  using assms
proof (induction ws arbitrary: s wire)
  case Nil
  then show ?case by (auto simp: items_def res_simps split: if_splits)
next
  case (Cons w ws)
  obtain r errno where w: "w = WrRet r errno" by (cases w)
  note run = Cons.prems(4) [unfolded w]
  consider (idle) "used (wbuf s) = 0" | (block) "0 < used (wbuf s)" "r = None" "errno = EAGAIN"
    | (wrote) k where "0 < used (wbuf s)" "r = Some k" "k \<le> used (wbuf s)"
    using run by (cases "used (wbuf s) = 0"; cases r)
      (auto simp: items_def res_simps Let_def split: if_splits)
  then show ?case
  proof cases
    case idle
    with run Cons.prems(1) show ?thesis by (auto simp: items_def)
  next
    case block
    with run Cons.prems(1) show ?thesis by (auto simp: items_def res_simps Let_def)
  next
    case wrote
    obtain p2 n1 where pk: "peek (wbuf s) (used (wbuf s)) = Inr (head (wbuf s), p2, n1)"
      "gather (buf (wbuf s)) (head (wbuf s)) n1 p2 (used (wbuf s)) = contents (wbuf s)"
      using peek_ok [OF Cons.prems(1) wrote(1)] by auto
    obtain wb where wb: "drop_items (wbuf s) k = Inr wb" "wf_buffer wb"
      "contents wb = drop k (contents (wbuf s))"
      using drop_items_ok [OF Cons.prems(1) wrote(3)] by blast
    have "sock_tx h ws (s\<lparr>wbuf := wb\<rparr>, u) (wire @ take k (contents (wbuf s))) = Inr (s', u', ws', wire')"
      using run wrote pk wb(1) callbacks_full [of "s\<lparr>wbuf := wb\<rparr>" h k u] Cons.prems(2,3)
      by (simp add: items_def Let_def not_less [symmetric])
    from Cons.IH [OF _ _ _ this] wb Cons.prems(2,3) obtain sent where
      "wf_buffer (wbuf s') \<and> tx_cbs s' = tx_cbs s \<and> tx_out s' = tx_out s \<and> u' = u \<and>
        (used (wbuf s') = 0 \<or> \<not> tx_rdy s')"
      "wire' = (wire @ take k (contents (wbuf s))) @ sent" "drop k (contents (wbuf s)) = sent @ contents (wbuf s')"
      by auto
    then show ?thesis
      by (metis append.assoc append_take_drop_id)
  qed
qed

subsection \<open>Writing\<close>

text \<open>What a write changes: only the transmit buffer.\<close>

definition appended :: "('c, 't, 'd) Sock \<Rightarrow> byte list \<Rightarrow> ('c, 't, 'd) Sock \<Rightarrow> bool" where
  "appended s data s' \<longleftrightarrow> (\<exists>w. s' = s\<lparr>wbuf := w\<rparr> \<and> wf_buffer w \<and>
     contents w = contents (wbuf s) @ data \<and> length (buf w) = length (buf (wbuf s)))"

lemma appended_tx_ok:
  assumes "tx_ok s" "appended s data s'"
  shows "tx_ok s' \<and> dues s' = dues s \<and> tx_same s s'"
proof -
  obtain w where w: "s' = s\<lparr>wbuf := w\<rparr>" "wf_buffer w" "contents w = contents (wbuf s) @ data"
    "length (buf w) = length (buf (wbuf s))" using assms(2) by (auto simp: appended_def)
  have "used w = used (wbuf s) + length data" using arg_cong [OF w(3), of length] by simp
  with assms(1) w show ?thesis by (auto simp: tx_ok_def items_def dues_def tx_same_def)
qed

lemma commit_scattered:
  assumes "wf_buffer (wbuf s)" "write_prepare s (length data) = Inr (p1, p2, n1)" "data \<noteq> []"
  shows "\<exists>s'. write_commit (set_wmem s (scatter (buf (wbuf s)) p1 n1 p2 data)) (length data) = Inr s' \<and>
    appended s data s'"
  using scatter_commit [OF assms(1), of "length data" p1 p2 n1 data] assms(2,3)
  by (auto simp: write_prepare_def write_commit_def set_wmem_def appended_def)

lemma sock_write_ok:
  assumes "wf_buffer (wbuf s)" "data \<noteq> []" "length data \<le> space (wbuf s)"
  shows "\<exists>s'. sock_write s data = Inr s' \<and> appended s data s'"
proof -
  obtain p1 p2 n1 where p: "write_prepare s (length data) = Inr (p1, p2, n1)"
    using queue_prep_ok_iff [OF assms(1), of "length data"] assms(2,3)
    by (auto simp: is_ok_iff write_prepare_def)
  have seg: "n1 \<le> length data" "p2 = None \<Longrightarrow> n1 = length data"
    using queue_prep_segments [OF assms(1) p [unfolded write_prepare_def]] by (auto split: option.splits)
  have "sock_write s data = write_commit (set_wmem s (scatter (buf (wbuf s)) p1 n1 p2 data)) (length data)"
    using p seg by (cases p2) (auto simp: sock_write_def scatter_def Let_def)
  with commit_scattered [OF assms(1) p assms(2)] show ?thesis by simp
qed

lemma sock_write_err:
  assumes "wf_buffer (wbuf s)" "data = [] \<or> space (wbuf s) < length data"
  shows "\<not> is_ok (sock_write s data)"
  using queue_prep_ok_iff [OF assms(1), of "length data"] assms(2)
  by (cases "queue_prep (wbuf s) (length data)") (auto simp: sock_write_def write_prepare_def)

text \<open>The object straddles the end of the array: the only case in which the two-segment branch
  copies anything.\<close>

definition straddles :: "'a buffer \<Rightarrow> nat \<Rightarrow> bool" where
  "straddles b n \<longleftrightarrow> head b \<le> tail b \<and> bufcap b - tail b < n"

lemma straddles_segments:
  assumes "wf_buffer b" "queue_prep b n = Inr (p1, p2, n1)"
  shows "straddles b n \<longleftrightarrow> n1 < n"
  using assms by (auto simp: straddles_def queue_prep_def Let_def buffer_sizes split: if_splits)

lemma write_emplace_cases:
  assumes "wf_buffer (wbuf s)" "t \<noteq> []" "length t \<le> space (wbuf s)"
  shows "if straddles (wbuf s) (length t)
    then write_emplace s t = Inl (Undefined_behaviour ''memcpy past the end of an object'')
    else \<exists>s'. write_emplace s t = Inr s' \<and> appended s t s'"
proof -
  obtain p1 p2 n1 where p: "write_prepare s (length t) = Inr (p1, p2, n1)"
    using queue_prep_ok_iff [OF assms(1), of "length t"] assms(2,3)
    by (auto simp: is_ok_iff write_prepare_def)
  note q = p [unfolded write_prepare_def]
  have seg: "0 < n1" "n1 \<le> length t" "p2 = None \<Longrightarrow> n1 = length t"
    using queue_prep_segments [OF assms(1) q] by (auto split: option.splits)
  show ?thesis
  proof (cases "n1 < length t")
    case True
    then obtain k where k: "p2 = Some k" using seg(3) by (cases p2) auto
    have "length t \<le> n1 * length t" using seg(1) by (cases n1) auto
    then have "\<not> n1 * length t + (length t - n1) \<le> length t" using True by linarith
    with True k p straddles_segments [OF assms(1) q] show ?thesis
      by (simp add: write_emplace_def object_bytes_def Let_def)
  next
    case False
    with seg(2) have n: "n1 = length t" by simp
    have "write_emplace s t = write_commit (set_wmem s (scatter (buf (wbuf s)) p1 n1 p2 t)) (length t)"
      using p n by (cases p2) (auto simp: write_emplace_def scatter_def object_bytes_def Let_def)
    with commit_scattered [OF assms(1) p assms(2)] straddles_segments [OF assms(1) q] False
    show ?thesis by simp
  qed
qed

lemma appended_trans: "appended s d1 s1 \<Longrightarrow> appended s1 d2 s2 \<Longrightarrow> appended s (d1 @ d2) s2"
  by (auto simp: appended_def)

text \<open>Committing space without filling it sends what the memory holds.\<close>

lemma commit_raw:
  assumes "wf_buffer (wbuf s)" "write_prepare s n = Inr seg" "write_commit s n = Inr s'"
  shows "\<exists>data. length data = n \<and> appended s data s'"
proof -
  let ?b = "wbuf s"
  let ?N = "length (buf ?b)"
  let ?data = "map (\<lambda>j. buf ?b ! ring_ix ?N (tail ?b) j) [0..<n]"
  have n: "0 < n" "n \<le> space ?b"
    using queue_prep_ok_iff [OF assms(1), of n] assms(2) by (auto simp: write_prepare_def)
  obtain t where t: "queue_commit ?b n = Inr (?b\<lparr>tail := t, used := used ?b + n\<rparr>)"
    "wf_buffer (?b\<lparr>tail := t, used := used ?b + n\<rparr>)"
    using queue_commit_ok [OF assms(1) n] by blast
  have "contents (?b\<lparr>buf := buf ?b, tail := t, used := used ?b + length ?data\<rparr>) = contents ?b @ ?data"
  proof (rule contents_extend [OF assms(1)])
    show "used ?b + length ?data \<le> ?N"
      using n(2) assms(1) by (auto simp: space_def buffer_size_def wf_buffer_def)
  qed (simp_all add: nth_contents)
  with t assms(3) show ?thesis
    by (intro exI [of _ ?data]) (auto simp: write_commit_def appended_def)
qed

lemma sock_write_appends:
  assumes "wf_buffer (wbuf s)" "sock_write s data = Inr s'"
  shows "appended s data s'"
proof -
  have "data \<noteq> []" "length data \<le> space (wbuf s)"
    using sock_write_err [OF assms(1), of data] assms(2) by (auto simp: not_le [symmetric])
  from sock_write_ok [OF assms(1) this] assms(2) show ?thesis by auto
qed

lemma write_emplace_appends:
  assumes "wf_buffer (wbuf s)" "write_emplace s t = Inr s'"
  shows "appended s t s'"
proof -
  obtain r where "queue_prep (wbuf s) (length t) = Inr r"
    using assms(2) by (auto simp: write_emplace_def Let_def write_prepare_def res_simps)
  then have "t \<noteq> []" "length t \<le> space (wbuf s)" using queue_prep_ok_iff [OF assms(1), of "length t"] by auto
  from write_emplace_cases [OF assms(1) this] assms(2) show ?thesis by (auto split: if_splits)
qed

lemma appended_wf: "appended s data s' \<Longrightarrow> wf_buffer (wbuf s')"
  by (auto simp: appended_def)

lemma write_cb_point_ok:
  assumes "tx_ok s" "used (tx_cbs s) < length (buf (tx_cbs s))"
  shows "\<exists>s'. write_cb_point s cb d = Inr s' \<and> tx_ok s' \<and> tx_same s s' \<and> wbuf s' = wbuf s \<and>
    tx_rdy s' = tx_rdy s \<and> dues s' = dues s @ [(items (wbuf s), cb, d)]"
proof -
  let ?c = "contents (tx_cbs s)" and ?n = "items (wbuf s)"
  have wf: "wf_buffer (tx_cbs s)" and out: "tx_out s = total_len ?c" "tx_out s \<le> ?n"
    using assms(1) by (auto simp: tx_ok_def)
  have "used (tx_cbs s) = 0 \<Longrightarrow> tx_out s = 0" using out(1) by (simp add: contents_def slots_def)
  then have n: "(if items (tx_cbs s) = 0 then ?n else size_sub ?n (tx_out s)) = ?n - tx_out s"
    using out(2) by (simp add: items_def)
  obtain q where q: "queue_emplace (tx_cbs s) \<lparr>txlen = ?n - tx_out s, txcb = cb, txdata = d\<rparr> =
      Inr (tail (tx_cbs s), q)" "wf_buffer q"
    "contents q = ?c @ [\<lparr>txlen = ?n - tx_out s, txcb = cb, txdata = d\<rparr>]"
    "length (buf q) = length (buf (tx_cbs s))"
    using queue_emplace_ok [OF wf assms(2)] by blast
  have "write_cb_point s cb d = Inr (s\<lparr>tx_cbs := q, tx_out := ?n\<rparr>)"
    using q(1) n by (simp add: write_cb_point_def Let_def split: if_splits)
  then show ?thesis using q out assms(1)
    by (auto simp: tx_ok_def tx_same_def dues_def due_from_append items_def)
qed

lemma write_cb_point_full:
  "wf_buffer (tx_cbs s) \<Longrightarrow> used (tx_cbs s) = length (buf (tx_cbs s)) \<Longrightarrow> 0 < used (tx_cbs s) \<Longrightarrow>
   write_cb_point s cb d = Inl (System_error ENOSPC ''buffer::queue_prep: buffer full'')"
  by (simp add: write_cb_point_def items_def queue_emplace_full)

subsection \<open>Full queues and destruction\<close>

lemma visited_eq:
  "wf_buffer b \<Longrightarrow> visited b = Inr (if used b = length (buf b) then [] else contents b)"
  by (simp add: visited_def range_slots_eq contents_def)

lemma clear_ok:
  assumes "wf_buffer b"
  shows "\<exists>b'. clear b = Inr b' \<and> wf_buffer b' \<and> used b' = 0 \<and> length (buf b') = length (buf b)"
  using drop_items_ok [OF assms, of "used b"] by (auto simp: clear_def items_def)

text \<open>The callbacks that destruction owes a call.\<close>

definition pending_reads :: "('c, 'd) IORx list \<Rightarrow> ('c \<times> 'd) list" where
  "pending_reads rs = concat (map (\<lambda>r. map (\<lambda>cb. (cb, rxdata r))
     (case (hdrcb r, bodycb r) of
        (None, None) \<Rightarrow> [] | (Some a, None) \<Rightarrow> [a] | (None, Some b) \<Rightarrow> [b] | (Some a, Some b) \<Rightarrow> [a, b])) rs)"

definition pending_points :: "('t, 'd) IOTx list \<Rightarrow> ('t \<times> 'd) list" where
  "pending_points ts = List.map_filter (\<lambda>t. map_option (\<lambda>cb. (cb, txdata t)) (txcb t)) ts"

text \<open>Calling one after the other; the first exception ends it.\<close>

fun in_turn :: "('a \<Rightarrow> 'u \<Rightarrow> 'u res) \<Rightarrow> 'a list \<Rightarrow> 'u \<Rightarrow> 'u res" where
  "in_turn f [] u = Inr u"
| "in_turn f (x # xs) u = rbind (f x u) (in_turn f xs)"

lemma cancel_rx_calls:
  "cancel_rx h this rs u =
   in_turn (\<lambda>(cb, d) u. rbind (h cb this d [] None (- EIO) u) (\<lambda>(n, u). Inr u)) (pending_reads rs) u"
proof (induction rs arbitrary: u)
  case (Cons r rs)
  show ?case
    by (cases "hdrcb r"; cases "bodycb r")
      (simp_all add: pending_reads_def Cons.IH [unfolded pending_reads_def] rbind_assoc case_prod_unfold)
qed (simp add: pending_reads_def)

lemma cancel_tx_calls:
  "cancel_tx h this ts u = in_turn (\<lambda>(cb, d). h cb this d (- EIO)) (pending_points ts) u"
proof (induction ts arbitrary: u)
  case (Cons t ts)
  then have "cancel_tx h this ts = in_turn (\<lambda>(cb, d). h cb this d (- EIO)) (pending_points ts)" by blast
  then show ?case by (cases "txcb t") (simp_all add: pending_points_def map_filter_simps)
qed (simp add: pending_points_def map_filter_simps)

lemma sock_destroy_runs:
  assumes "wf_buffer (rx_cbs s)" "wf_buffer (tx_cbs s)"
  shows "\<exists>s'. fd s' = -1 \<and> \<not> connected s' \<and> used (rx_cbs s') = 0 \<and> used (tx_cbs s') = 0 \<and>
    (\<forall>u. sock_destroy hr ht (s, u) =
      rbind (cancel_rx hr (self s)
        (if used (rx_cbs s) = length (buf (rx_cbs s)) then [] else contents (rx_cbs s)) u) (\<lambda>u1.
      rbind (cancel_tx ht (self s)
        (if used (tx_cbs s) = length (buf (tx_cbs s)) then [] else contents (tx_cbs s)) u1) (\<lambda>u2. Inr (s', u2))))"
proof -
  obtain rq tq where c: "clear (rx_cbs s) = Inr rq" "used rq = 0" "clear (tx_cbs s) = Inr tq" "used tq = 0"
    using clear_ok [OF assms(1)] clear_ok [OF assms(2)] by blast
  let ?s' = "s\<lparr>fd := -1, connected := False, rx_rdy := False, tx_rdy := False,
    rx_cbs := rq, tx_cbs := tq, tx_out := 0\<rparr>"
  show ?thesis
    by (rule exI [of _ ?s']) (use assms c in \<open>simp add: sock_destroy_def visited_eq\<close>)
qed


subsection \<open>Properties\<close>

text \<open>C2: \<open>Sock::tx\<close> hands the buffered bytes to the kernel in the order they were written, none lost,
  repeated or changed, whatever part each \<open>write\<close> or \<open>writev\<close> takes. While the queue of callback points is not
  full it fires exactly the points that lie within the bytes sent, in order, and the points left move closer by
  the same number of bytes; with the queue full the bytes go out, but no point fires and none moves. It
  returns when nothing is left or the kernel would block.\<close>

theorem tx_sends_in_order:
  assumes "tx_ok s" "sock_tx h ws (s, u) wire = Inr (s', u', ws', wire')"
  shows "wf_buffer (wbuf s') \<and> (items (wbuf s') = 0 \<or> \<not> tx_rdy s') \<and>
    (\<exists>sent. wire' = wire @ sent \<and> contents (wbuf s) = sent @ contents (wbuf s') \<and>
      (if items (tx_cbs s) < buffer_size (tx_cbs s) then
         tx_ok s' \<and>
         ((sent = [] \<and> dues s' = dues s \<and> u' = u) \<or>
          (dues s' = left_by (length sent) (dues s) \<and>
           call_all h (self s) (fired_by (length sent) (dues s)) u = Inr u'))
       else tx_cbs s' = tx_cbs s \<and> tx_out s' = tx_out s \<and> u' = u))"
proof (cases "items (tx_cbs s) < buffer_size (tx_cbs s)")
  case True
  then show ?thesis using sock_tx_sends [OF assms(1) _ assms(2)]
    by (auto simp: items_def buffer_size_def tx_ok_def)
next
  case False
  with assms(1) have "wf_buffer (wbuf s)" "wf_buffer (tx_cbs s)" "used (tx_cbs s) = length (buf (tx_cbs s))"
    by (simp_all add: tx_ok_def wf_buffer_def items_def buffer_size_def)
  from sock_tx_stalls [OF this assms(2)] False show ?thesis by (simp add: items_def)
qed

text \<open>\<open>Sock::write\<close> appends exactly its data to the bytes waiting to be sent, across the wrap of the
  buffer, and moves no callback point; it throws when and only when the data is empty or larger than
  the free space.\<close>

theorem write_appends:
  assumes "tx_ok s"
  shows "(is_ok (sock_write s data) \<longleftrightarrow> data \<noteq> [] \<and> length data \<le> space (wbuf s)) \<and>
    (\<forall>s'. sock_write s data = Inr s' \<longrightarrow>
      tx_ok s' \<and> contents (wbuf s') = contents (wbuf s) @ data \<and> dues s' = dues s)"
proof -
  have wf: "wf_buffer (wbuf s)" using assms by (simp add: tx_ok_def)
  show ?thesis
  proof (cases "data \<noteq> [] \<and> length data \<le> space (wbuf s)")
    case True
    then obtain s' where "sock_write s data = Inr s'" "appended s data s'"
      using sock_write_ok [OF wf] by blast
    with True appended_tx_ok [OF assms this(2)] show ?thesis by (auto simp: appended_def)
  next
    case False
    with sock_write_err [OF wf, of data] show ?thesis by (auto simp: is_ok_iff not_le)
  qed
qed

text \<open>C39: For an object that the free space of the buffer can hold, \<open>Sock::write_emplace\<close> appends its bytes, and leaves every
  callback point due where it was, when they fit before the end of the array (or the free space does not wrap); when the object straddles
  the end, the second \<open>memcpy\<close> reads from \<open>&t + n1\<close>, which is past the object: undefined behaviour.\<close>

theorem write_emplace_straddling:
  assumes "tx_ok s" "t \<noteq> []" "length t \<le> space (wbuf s)"
  shows "if straddles (wbuf s) (length t)
    then write_emplace s t = Inl (Undefined_behaviour ''memcpy past the end of an object'')
    else \<exists>s'. write_emplace s t = Inr s' \<and> tx_ok s' \<and>
      contents (wbuf s') = contents (wbuf s) @ t \<and> dues s' = dues s"
proof -
  have wf: "wf_buffer (wbuf s)" using assms(1) by (simp add: tx_ok_def)
  show ?thesis
  proof (cases "straddles (wbuf s) (length t)")
    case True
    with write_emplace_cases [OF wf assms(2,3)] show ?thesis by simp
  next
    case False
    with write_emplace_cases [OF wf assms(2,3)] obtain s' where
      "write_emplace s t = Inr s'" "appended s t s'" by auto
    with appended_tx_ok [OF assms(1) this(2)] False show ?thesis by (auto simp: appended_def)
  qed
qed

text \<open>A callback point becomes due after exactly the bytes buffered when it is inserted, behind
  the points already there, although the code stores only the distance to the point before it.\<close>

theorem cb_point_due:
  assumes "tx_ok s" "items (tx_cbs s) < buffer_size (tx_cbs s)"
  shows "\<exists>s'. write_cb_point s cb d = Inr s' \<and> tx_ok s' \<and> wbuf s' = wbuf s \<and>
    dues s' = dues s @ [(items (wbuf s), cb, d)]"
  using write_cb_point_ok [OF assms(1)] assms(2) by (auto simp: items_def buffer_size_def)

text \<open>With as many reads or callback points pending as their queue holds
  (\<open>MAX_OUTSTANDING_REQS\<close>), the loops over the queue see it as empty: received data is delivered to
  no callback and sent data fires none.\<close>

theorem full_queue_stalls:
  assumes "wf_buffer (rx_cbs s)" "wf_buffer (tx_cbs s)"
  shows "(items (rx_cbs s) = buffer_size (rx_cbs s) \<longrightarrow> rx_deliver hr (s, u) = Inr (s, u)) \<and>
    (items (tx_cbs s) = buffer_size (tx_cbs s) \<longrightarrow> tx_callbacks ht n (s, u) = Inr (s, u))"
  using assms
  by (simp_all add: items_def buffer_size_def deliver_full callbacks_full)

text \<open>C35: The destructor calls every callback still pending exactly once with \<open>-EIO\<close> and no data, and no other: for
  each read, oldest first, its header callback and then its body callback, then the callback of each point,
  oldest first; the first exception ends it. It leaves a closed socket with empty queues. Neither queue may be full:
  the items of a full one are dropped without a call.\<close>

theorem destroy_cancels_pending:
  assumes "wf_buffer (rx_cbs s)" "wf_buffer (tx_cbs s)"
  shows "\<exists>s'. fd s' = -1 \<and> \<not> connected s' \<and> items (rx_cbs s') = 0 \<and> items (tx_cbs s') = 0 \<and>
    (\<forall>u. sock_destroy hr ht (s, u) =
      rbind (in_turn (\<lambda>(cb, d) u. rbind (hr cb (self s) d [] None (- EIO) u) (\<lambda>(n, u). Inr u))
        (if items (rx_cbs s) = buffer_size (rx_cbs s) then [] else pending_reads (contents (rx_cbs s))) u) (\<lambda>u1.
      rbind (in_turn (\<lambda>(cb, d). ht cb (self s) d (- EIO))
        (if items (tx_cbs s) = buffer_size (tx_cbs s) then [] else pending_points (contents (tx_cbs s))) u1) (\<lambda>u2.
      Inr (s', u2))))"
proof -
  have none: "pending_reads [] = []" "pending_points [] = []"
    by (simp_all add: pending_reads_def pending_points_def map_filter_simps)
  show ?thesis
    using sock_destroy_runs [OF assms, of hr ht]
    by (cases "used (rx_cbs s) = length (buf (rx_cbs s))"; cases "used (tx_cbs s) = length (buf (tx_cbs s))")
      (simp_all add: items_def buffer_size_def cancel_rx_calls cancel_tx_calls none)
qed

text \<open>For the witnesses: a handler that records the data of the points it is called for, and a socket
  whose transmit buffer of four bytes holds three, wrapped, with two points.\<close>

definition noter :: "(unit, nat, nat list) tx_handler" where
  "noter cb this d st u = (if st < 0 then Inr (u @ [100 + d]) else Inr (u @ [d]))"

definition demo_tx :: "(unit, unit, nat) Sock" where
  "demo_tx = (sock_new 3 4 7 0)
     \<lparr>tx_rdy := True,
      wbuf := \<lparr>buf = [11, 12, 0, 10], head = 3, tail = 2, used = 3\<rparr>,
      tx_cbs := \<lparr>buf = [\<lparr>txlen = 1, txcb = Some (), txdata = 5\<rparr>, \<lparr>txlen = 2, txcb = Some (), txdata = 6\<rparr>,
         IOTx_default 0], head = 0, tail = 2, used = 2\<rparr>,
      tx_out := 3\<rparr>"

lemma demo_tx_ok: "tx_ok demo_tx" "items (tx_cbs demo_tx) < buffer_size (tx_cbs demo_tx)"
  by (simp_all add: tx_ok_def demo_tx_def wf_buffer_def ring_ix_def items_def buffer_size_def
      contents_def slots_def upt_rec)

lemma demo_tx_contents: "contents (wbuf demo_tx) = [10, 11, 12]"
  by (simp add: demo_tx_def contents_def slots_def ring_ix_def upt_rec)

lemma demo_tx_dues: "dues demo_tx = [(1, Some (), 5), (3, Some (), 6)]"
  by (simp add: demo_tx_def dues_def contents_def slots_def ring_ix_def upt_rec)

lemma demo_tx_run:
  "\<exists>s'. sock_tx noter [WrRet (Some 2) 0, WrRet None EAGAIN] (demo_tx, []) [] =
     Inr (s', [5], [], [10, 11])"
proof -
  have "case sock_tx noter [WrRet (Some 2) 0, WrRet None EAGAIN] (demo_tx, []) [] of
    Inl _ \<Rightarrow> False | Inr (s, u, k) \<Rightarrow> u = [5] \<and> k = ([], [10, 11])"
    by code_simp
  then show ?thesis by (rule run_outcome)
qed

theorem tx_sends_in_order_witness:
  "\<exists>s'. sock_tx noter [WrRet (Some 2) 0, WrRet None EAGAIN] (demo_tx, []) [] = Inr (s', [5], [], [10, 11]) \<and>
    contents (wbuf s') = [12] \<and> dues s' = [(1, Some (), 6)] \<and> \<not> tx_rdy s'"
proof -
  obtain s' where r: "sock_tx noter [WrRet (Some 2) 0, WrRet None EAGAIN] (demo_tx, []) [] =
      Inr (s', [5], [], [10, 11])" using demo_tx_run by blast
  note t = tx_sends_in_order [OF demo_tx_ok(1) r] demo_tx_ok(2)
  have c: "contents (wbuf s') = [12]" using t by (auto simp: demo_tx_contents)
  then have "items (wbuf s') \<noteq> 0" by (auto simp: items_def simp flip: length_contents)
  with r t c show ?thesis by (auto simp: demo_tx_dues)
qed

theorem write_appends_witness:
  "is_ok (sock_write demo_tx [13]) \<and> \<not> is_ok (sock_write demo_tx [13, 14])"
  using write_appends [OF demo_tx_ok(1), of "[13]"] write_appends [OF demo_tx_ok(1), of "[13, 14]"]
  by (simp add: demo_tx_def space_def buffer_size_def)

theorem write_emplace_straddling_witness:
  "write_emplace (demo_tx\<lparr>wbuf := \<lparr>buf = [0, 0, 10, 11], head = 2, tail = 3, used = 1\<rparr>,
      tx_cbs := buffer_new (IOTx_default 0) 3, tx_out := 0\<rparr>) [1, 2] =
    Inl (Undefined_behaviour ''memcpy past the end of an object'') \<and>
   (\<exists>s'. write_emplace demo_tx [13] = Inr s' \<and> contents (wbuf s') = [10, 11, 12, 13] \<and>
     dues s' = [(1, Some (), 5), (3, Some (), 6)])"
proof -
  let ?s = "demo_tx\<lparr>wbuf := \<lparr>buf = [0, 0, 10, 11], head = 2, tail = 3, used = 1\<rparr>,
      tx_cbs := buffer_new (IOTx_default 0) 3, tx_out := 0\<rparr>"
  have "tx_ok ?s"
    by (simp add: tx_ok_def wf_buffer_def ring_ix_def items_def buffer_new_def contents_def slots_def)
  then have "write_emplace ?s [1, 2] = Inl (Undefined_behaviour ''memcpy past the end of an object'')"
    using write_emplace_straddling [of ?s "[1, 2]"]
    by (simp add: straddles_def bufcap_def space_def buffer_size_def)
  moreover have "\<not> straddles (wbuf demo_tx) 1" "1 \<le> space (wbuf demo_tx)"
    by (simp_all add: demo_tx_def straddles_def bufcap_def space_def buffer_size_def)
  ultimately show ?thesis
    using write_emplace_straddling [OF demo_tx_ok(1), of "[13]"] by (auto simp: demo_tx_contents demo_tx_dues)
qed

theorem cb_point_due_witness:
  "\<exists>s'. write_cb_point demo_tx (Some ()) 9 = Inr s' \<and>
    dues s' = [(1, Some (), 5), (3, Some (), 6), (3, Some (), 9)]"
  using cb_point_due [OF demo_tx_ok, of "Some ()" 9] demo_tx_contents
  by (auto simp: demo_tx_dues items_def simp flip: length_contents)

theorem full_queue_stalls_witness:
  "tx_callbacks noter 3 (demo_tx\<lparr>tx_cbs := (tx_cbs demo_tx)\<lparr>tail := 0, used := 3\<rparr>\<rparr>, []) =
    Inr (demo_tx\<lparr>tx_cbs := (tx_cbs demo_tx)\<lparr>tail := 0, used := 3\<rparr>\<rparr>, [])"
  using full_queue_stalls [of "demo_tx\<lparr>tx_cbs := (tx_cbs demo_tx)\<lparr>tail := 0, used := 3\<rparr>\<rparr>"
      undefined "[]" noter 3]
  by (simp add: demo_tx_def wf_buffer_def ring_ix_def items_def buffer_size_def sock_new_def buffer_new_def)

text \<open>For the destructor: handlers that record which callback is called, with what status, and a socket with a read
  that is past its header, a read of a header alone, and two points.\<close>

definition rx_noter :: "(nat, nat, (nat \<times> nat \<times> int) list) rx_handler" where
  "rx_noter cb this d s1 s2 st u = Inr (0, u @ [(cb, d, st)])"

definition tx_noter :: "(nat, nat, (nat \<times> nat \<times> int) list) tx_handler" where
  "tx_noter cb this d st u = Inr (u @ [(cb, d, st)])"

definition demo_pending :: "(nat, nat, nat) Sock" where
  "demo_pending = (sock_new 4 4 7 0)
     \<lparr>rx_cbs := \<lparr>buf = [\<lparr>hdrlen = 24, hdrcb = Some 3, bodylen = 0, bodycb = None, rxdata = 8\<rparr>, IORx_default 0,
         IORx_default 0, \<lparr>hdrlen = 0, hdrcb = Some 1, bodylen = 5, bodycb = Some 2, rxdata = 9\<rparr>],
        head = 3, tail = 1, used = 2\<rparr>,
      tx_cbs := \<lparr>buf = [\<lparr>txlen = 1, txcb = Some 4, txdata = 5\<rparr>, \<lparr>txlen = 2, txcb = Some 5, txdata = 6\<rparr>,
         IOTx_default 0], head = 0, tail = 2, used = 2\<rparr>\<rparr>"

theorem destroy_cancels_pending_witness:
  "\<exists>s'. sock_destroy rx_noter tx_noter (demo_pending, []) =
      Inr (s', [(1, 9, - EIO), (2, 9, - EIO), (3, 8, - EIO), (4, 5, - EIO), (5, 6, - EIO)]) \<and>
    fd s' = -1 \<and> items (rx_cbs s') = 0 \<and> items (tx_cbs s') = 0"
proof -
  have c: "contents (rx_cbs demo_pending) =
      [\<lparr>hdrlen = 0, hdrcb = Some 1, bodylen = 5, bodycb = Some 2, rxdata = 9\<rparr>,
       \<lparr>hdrlen = 24, hdrcb = Some 3, bodylen = 0, bodycb = None, rxdata = 8\<rparr>]"
    "contents (tx_cbs demo_pending) =
      [\<lparr>txlen = 1, txcb = Some 4, txdata = 5\<rparr>, \<lparr>txlen = 2, txcb = Some 5, txdata = 6\<rparr>]"
    by (simp_all add: demo_pending_def contents_def slots_def ring_ix_def upt_rec)
  have wf: "wf_buffer (rx_cbs demo_pending)" "wf_buffer (tx_cbs demo_pending)"
    by (simp_all add: demo_pending_def wf_buffer_def ring_ix_def)
  have n: "items (rx_cbs demo_pending) \<noteq> buffer_size (rx_cbs demo_pending)"
    "items (tx_cbs demo_pending) \<noteq> buffer_size (tx_cbs demo_pending)"
    by (simp_all add: demo_pending_def items_def buffer_size_def)
  show ?thesis using destroy_cancels_pending [OF wf, of rx_noter tx_noter] n
    by (auto simp: c pending_reads_def pending_points_def rx_noter_def tx_noter_def)
qed

end
