(* ===== verification/Sock_Life.thy ===== *)
theory Sock_Life
  imports Sock_Tx
begin

section \<open>The life of a socket\<close>

text \<open>
  Every call a program can make on a \<open>Sock\<close> after constructing it, as one step relation, and the
  invariant all of them keep, for arbitrary callbacks and kernel answers. The transmit
  accounting (\<open>tx_out\<close> is the sum of the deltas and at most the bytes buffered) holds as long as the
  callback queue has never been full; once it is full it stays so.
\<close>

subsection \<open>What the receive side keeps, for any handler\<close>

lemma drop_items_keeps:
  assumes "wf_buffer b" "drop_items b n = Inr b'"
  shows "wf_buffer b' \<and> buf b' = buf b \<and> used b' = used b - n \<and> n \<le> used b"
proof -
  have "n \<le> used b" using drop_items_ok_iff [OF assms(1), of n] assms(2) by simp
  with drop_items_ok [OF assms(1)] assms(2) show ?thesis by fastforce
qed

definition rx_kept :: "nat \<Rightarrow> ('c, 't, 'd) Sock \<Rightarrow> ('c, 't, 'd) Sock \<times> 'u \<Rightarrow> bool" where
  "rx_kept i s su \<longleftrightarrow> rx_frame {i} s (fst su) \<and> wf_buffer (rbuf (fst su))"

fun flow_val :: "'a flow \<Rightarrow> 'a" where
  "flow_val (Break x) = x"
| "flow_val (Next x) = x"

lemma rx_kept_refl: "wf_buffer (rbuf s) \<Longrightarrow> rx_kept i s (s, u)"
  by (simp add: rx_kept_def rx_frame_refl)

lemma rx_kept_set:
  assumes "wf_buffer (rbuf s)" "drop_items (rbuf s) n = Inr rb"
  shows "rx_kept i s ((set_rxcb s i r)\<lparr>rbuf := rb\<rparr>, u)"
  using drop_items_keeps [OF assms] by (simp add: rx_kept_def rx_frame_set)

lemma rx_hdr_kept:
  assumes "wf_buffer (rbuf s)" "rx_hdr h i (s, u) = Inr f"
  shows "rx_kept i s (flow_val f)"
  using assms(2) rx_kept_set [OF assms(1)] rx_kept_refl [OF assms(1)]
  by (auto simp: rx_hdr_def Let_def res_simps split: if_splits option.splits)

lemma rx_body_kept:
  assumes "wf_buffer (rbuf s)" "rx_body h i (s, u) = Inr f"
  shows "rx_kept i s (flow_val f)"
  using assms(2) rx_kept_set [OF assms(1)] rx_kept_refl [OF assms(1)]
  by (auto simp: rx_body_def Let_def res_simps split: if_splits option.splits)

lemma rx_kept_trans:
  "rx_kept i s su \<Longrightarrow> rx_kept i (fst su) su' \<Longrightarrow> rx_kept i s su'"
  using rx_frame_trans [of "{i}" s "fst su" "{i}"] by (auto simp: rx_kept_def)

lemma rx_items_kept:
  assumes "wf_buffer (rbuf s)" "rx_items h is (s, u) d = Inr ((s', u'), d')"
  shows "rx_frame (set is) s s' \<and> wf_buffer (rbuf s') \<and> d' \<le> d + length is"
  using assms
proof (induction "is" arbitrary: s u d)
  case Nil
  then show ?case by (simp add: rx_frame_refl rx_items.simps)
next
  case (Cons i js)
  obtain f where f: "rx_hdr h i (s, u) = Inr f"
    using Cons.prems(2) by (cases "rx_hdr h i (s, u)") (auto simp: rx_items.simps)
  note k1 = rx_hdr_kept [OF Cons.prems(1) f]
  show ?case
  proof (cases f)
    case (Break x)
    with Cons.prems(2) f k1 show ?thesis
      using rx_frame_trans [of "{i}" s s' "set js" s'] by (auto simp: rx_kept_def rx_frame_refl rx_items.simps)
  next
    case (Next x)
    obtain s1 u1 where x: "x = (s1, u1)" by (cases x)
    have wf1: "wf_buffer (rbuf s1)" using k1 Next x by (simp add: rx_kept_def)
    obtain g where g: "rx_body h i (s1, u1) = Inr g"
      using Cons.prems(2) f Next x by (cases "rx_body h i (s1, u1)") (auto simp: rx_items.simps)
    have "rx_kept i s1 (flow_val g)" by (rule rx_body_kept [OF wf1 g])
    with k1 Next x have k2: "rx_kept i s (flow_val g)" using rx_kept_trans by fastforce
    show ?thesis
    proof (cases g)
      case y: (Break y)
      with Cons.prems(2) f Next x g k2 show ?thesis
        using rx_frame_trans [of "{i}" s s' "set js" s'] by (auto simp: rx_kept_def rx_frame_refl rx_items.simps)
    next
      case y: (Next y)
      obtain s2 u2 where y2: "y = (s2, u2)" by (cases y)
      have wf2: "wf_buffer (rbuf s2)" "rx_frame {i} s s2" using k2 y y2 by (auto simp: rx_kept_def)
      have "rx_items h js (s2, u2) (Suc d) = Inr ((s', u'), d')"
        using Cons.prems(2) f Next x g y y2 by (simp add: rx_items.simps)
      from Cons.IH [OF wf2(1) this] rx_frame_trans [OF wf2(2)] show ?thesis by fastforce
    qed
  qed
qed

lemma rx_deliver_kept:
  assumes "rx_ok s" "rx_deliver h (s, u) = Inr (s', u')"
  shows "rx_ok s' \<and> rx_same s s' \<and> used (rx_cbs s') \<le> used (rx_cbs s)"
proof -
  have wf: "wf_buffer (rx_cbs s)" "wf_buffer (rbuf s)" using assms(1) by (auto simp: rx_ok_def)
  obtain "is" s1 u1 d q where r: "rx_items h is (s, u) 0 = Inr ((s1, u1), d)"
    "drop_items (rx_cbs s1) d = Inr q" "s' = s1\<lparr>rx_cbs := q\<rparr>"
    using assms(2) range_slots_eq [OF wf(1)] by (auto simp: rx_deliver_def res_simps)
  from rx_items_kept [OF wf(2) r(1)] obtain xs rb where
    fr: "s1 = s\<lparr>rx_cbs := (rx_cbs s)\<lparr>buf := xs\<rparr>, rbuf := rb\<rparr>" "length xs = length (buf (rx_cbs s))"
      "length (buf rb) = length (buf (rbuf s))" "wf_buffer rb"
    by (auto simp: rx_frame_def)
  have "wf_buffer (rx_cbs s1)" using wf(1) fr by simp
  from drop_items_keeps [OF this r(2)] fr r(3) show ?thesis
    by (auto simp: rx_ok_def rx_same_def)
qed

text \<open>Everything but the receive side.\<close>

definition tx_side :: "('c, 't, 'd) Sock \<Rightarrow> ('t, 'd) IOTx buffer \<times> byte buffer \<times> nat" where
  "tx_side s = (tx_cbs s, wbuf s, tx_out s)"

lemma sock_rx_kept:
  assumes "rx_ok s" "sock_rx h ks (s, u) = Inr (s', u', ks')"
  shows "rx_ok s' \<and> tx_side s' = tx_side s \<and> used (rx_cbs s') \<le> used (rx_cbs s) \<and>
    length (buf (rx_cbs s')) = length (buf (rx_cbs s)) \<and> length (buf (rbuf s')) = length (buf (rbuf s)) \<and>
    self s' = self s \<and> fd s' = fd s \<and> connected s' = connected s"
  using assms
proof (induction ks arbitrary: s u)
  case Nil
  then show ?case by (auto simp: rx_ok_def tx_side_def res_simps split: if_splits)
next
  case (Cons k ks)
  obtain d errno where k: "k = RdRet d errno" by (cases k)
  note run = Cons.prems(2) [unfolded k]
  show ?case
  proof (cases "items (rx_cbs s) = 0 \<or> (d = None \<and> errno = EAGAIN)")
    case True
    with run Cons.prems(1) show ?thesis
      by (auto simp: rx_ok_def tx_side_def res_simps Let_def split: if_splits)
  next
    case False
    with run obtain bs p1 p2 n1 rb s1 u1 where st: "bs \<noteq> []" "length bs \<le> space (rbuf s)"
      "queue_prep (rbuf s) (space (rbuf s)) = Inr (p1, p2, n1)"
      "queue_commit ((rbuf s)\<lparr>buf := scatter (buf (rbuf s)) p1 n1 p2 bs\<rparr>) (length bs) = Inr rb"
      "rx_deliver h (s\<lparr>rbuf := rb\<rparr>, u) = Inr (s1, u1)" "sock_rx h ks (s1, u1) = Inr (s', u', ks')"
      by (cases d) (auto simp: res_simps Let_def not_le split: if_splits)
    have "wf_buffer rb" "length (buf rb) = length (buf (rbuf s))"
      using scatter_commit [OF _ st(3) _ st(2)] st(1,4) Cons.prems(1) by (auto simp: rx_ok_def)
    moreover from this have "rx_ok (s\<lparr>rbuf := rb\<rparr>)" using Cons.prems(1) by (simp add: rx_ok_def)
    note kept = rx_deliver_kept [OF this st(5)]
    ultimately show ?thesis using Cons.IH [OF _ st(6)] kept
      by (auto simp: rx_same_def tx_side_def)
  qed
qed

subsection \<open>What the transmit side keeps\<close>

definition tx_inv :: "('c, 't, 'd) Sock \<Rightarrow> bool" where
  "tx_inv s \<longleftrightarrow> wf_buffer (wbuf s) \<and> wf_buffer (tx_cbs s) \<and>
     (used (tx_cbs s) < length (buf (tx_cbs s)) \<longrightarrow> tx_ok s)"

definition sock_inv :: "('c, 't, 'd) Sock \<Rightarrow> bool" where
  "sock_inv s \<longleftrightarrow> rx_ok s \<and> tx_inv s"

lemma tx_ok_inv: "tx_ok s \<Longrightarrow> tx_inv s"
  by (simp add: tx_ok_def tx_inv_def)

lemma tx_side_inv: "tx_side s' = tx_side s \<Longrightarrow> tx_inv s' = tx_inv s"
  by (simp add: tx_side_def tx_inv_def tx_ok_def)

lemma tx_same_rx: "tx_same s s' \<Longrightarrow> rx_ok s' = rx_ok s"
  by (simp add: tx_same_def rx_ok_def)

lemma sock_tx_full:
  assumes "wf_buffer (wbuf s)" "wf_buffer (tx_cbs s)" "used (tx_cbs s) = length (buf (tx_cbs s))"
    and "sock_tx h ws (s, u) wire = Inr (s', u', ws', wire')"
  shows "wf_buffer (wbuf s') \<and> tx_cbs s' = tx_cbs s \<and> tx_same s s' \<and> u' = u \<and>
    wire' @ contents (wbuf s') = wire @ contents (wbuf s)"
  using assms
proof (induction ws arbitrary: s wire)
  case Nil
  then show ?case by (auto simp: res_simps tx_same_def split: if_splits)
next
  case (Cons w ws)
  obtain r errno where w: "w = WrRet r errno" by (cases w)
  note run = Cons.prems(4) [unfolded w]
  show ?case
  proof (cases "items (wbuf s) = 0 \<or> r = None")
    case True
    with run Cons.prems show ?thesis by (auto simp: res_simps Let_def tx_same_def split: if_splits)
  next
    case False
    have "tx_callbacks h n (s\<lparr>wbuf := wb\<rparr>, u) = Inr (s\<lparr>wbuf := wb\<rparr>, u)" for n wb
      using callbacks_full [of "s\<lparr>wbuf := wb\<rparr>"] Cons.prems(2,3) by simp
    with run False obtain k p1 p2 n1 wb where st: "k \<le> used (wbuf s)"
      "peek (wbuf s) (used (wbuf s)) = Inr (p1, p2, n1)" "drop_items (wbuf s) k = Inr wb"
      "sock_tx h ws (s\<lparr>wbuf := wb\<rparr>, u) (wire @ take k (gather (buf (wbuf s)) p1 n1 p2 (used (wbuf s)))) =
        Inr (s', u', ws', wire')"
      by (cases r) (auto simp: items_def res_simps Let_def not_less split: if_splits)
    have "contents wb = drop k (contents (wbuf s))"
      using drop_items_ok [OF Cons.prems(1) st(1)] st(3) by auto
    moreover have "gather (buf (wbuf s)) p1 n1 p2 (used (wbuf s)) = contents (wbuf s)"
      using gather_contents [OF Cons.prems(1) st(2)] by simp
    ultimately show ?thesis
      using drop_items_keeps [OF Cons.prems(1) st(3)] Cons.IH [OF _ _ _ st(4)] Cons.prems(2,3)
      by (auto simp: tx_same_def)
  qed
qed

lemma sock_tx_keeps:
  assumes "sock_inv s" "sock_tx h ws (s, u) wire = Inr (s', u', ws', wire')"
  shows "sock_inv s' \<and> used (tx_cbs s') \<le> used (tx_cbs s) \<and>
    wire' @ contents (wbuf s') = wire @ contents (wbuf s)"
proof (cases "used (tx_cbs s) < length (buf (tx_cbs s))")
  case True
  with assms(1) have "tx_ok s" by (simp add: sock_inv_def tx_inv_def)
  from sock_tx_sends [OF this True assms(2)] assms(1) show ?thesis
    by (auto simp: sock_inv_def tx_ok_inv tx_same_rx)
next
  case False
  with assms(1) have "wf_buffer (wbuf s)" "wf_buffer (tx_cbs s)" "used (tx_cbs s) = length (buf (tx_cbs s))"
    by (auto simp: sock_inv_def tx_inv_def wf_buffer_def)
  from sock_tx_full [OF this assms(2)] assms(1) False show ?thesis
    by (auto simp: sock_inv_def tx_inv_def tx_same_rx)
qed

lemma appended_inv: "sock_inv s \<Longrightarrow> appended s data s' \<Longrightarrow> sock_inv s'"
  using appended_tx_ok [of s data s'] by (auto simp: sock_inv_def tx_inv_def appended_def rx_ok_def)

subsection \<open>Steps\<close>

text \<open>The calls. \<open>step_fill\<close> is the pattern of the generators: \<open>write_prepare\<close>, two copies into the
  segments, \<open>write_commit\<close>.\<close>

inductive sock_step :: "('c, 'd, 'u) rx_handler \<Rightarrow> ('t, 'd, 'u) tx_handler \<Rightarrow>
    ('c, 't, 'd) Sock \<times> 'u \<Rightarrow> ('c, 't, 'd) Sock \<times> 'u \<Rightarrow> bool" for hr ht where
  step_connect: "sock_connect k s = Inr s' \<Longrightarrow> sock_step hr ht (s, u) (s', u)"
| step_read: "sock_read hr ks (s, u) op = Inr (s', u', ks') \<Longrightarrow> sock_step hr ht (s, u) (s', u')"
| step_write: "sock_write s data = Inr s' \<Longrightarrow> sock_step hr ht (s, u) (s', u)"
| step_emplace: "write_emplace s t = Inr s' \<Longrightarrow> sock_step hr ht (s, u) (s', u)"
| step_fill: "write_prepare s (length data) = Inr (p1, p2, n1) \<Longrightarrow>
    write_commit (set_wmem s (scatter (buf (wbuf s)) p1 n1 p2 data)) (length data) = Inr s' \<Longrightarrow>
    sock_step hr ht (s, u) (s', u)"
| step_cb_point: "write_cb_point s cb d = Inr s' \<Longrightarrow> sock_step hr ht (s, u) (s', u)"
| step_try_tx: "try_tx ht ws (s, u) wire = Inr (s', u', ws', wire') \<Longrightarrow> sock_step hr ht (s, u) (s', u')"
| step_run_io: "sock_run_io hr ht ks ws so_error events (s, u) wire = Inr (s', u', ks', ws', wire') \<Longrightarrow>
    sock_step hr ht (s, u) (s', u')"

inductive sock_reach :: "('c, 'd, 'u) rx_handler \<Rightarrow> ('t, 'd, 'u) tx_handler \<Rightarrow>
    ('c, 't, 'd) Sock \<times> 'u \<Rightarrow> ('c, 't, 'd) Sock \<times> 'u \<Rightarrow> bool" for hr ht su0 where
  reach_start: "sock_reach hr ht su0 su0"
| reach_step: "sock_reach hr ht su0 su \<Longrightarrow> sock_step hr ht su su' \<Longrightarrow> sock_reach hr ht su0 su'"

lemma sock_new_inv: "0 < nreqs \<Longrightarrow> 0 < nchars \<Longrightarrow> sock_inv (sock_new nreqs nchars this null)"
  by (simp add: sock_inv_def tx_inv_def rx_ok_def tx_ok_def sock_new_def wf_buffer_new items_def)

lemma connect_inv: "sock_inv s \<Longrightarrow> sock_connect k s = Inr s' \<Longrightarrow> sock_inv s'"
  by (auto simp: sock_connect_def res_simps sock_inv_def tx_inv_def rx_ok_def tx_ok_def Let_def split: if_splits)

lemma read_inv:
  assumes "sock_inv s" "sock_read hr ks (s, u) op = Inr (s', u', ks')"
  shows "sock_inv s'"
proof -
  have wf: "wf_buffer (rx_cbs s)" using assms(1) by (simp add: sock_inv_def rx_ok_def)
  have room: "used (rx_cbs s) < length (buf (rx_cbs s))"
  proof (rule ccontr)
    assume "\<not> used (rx_cbs s) < length (buf (rx_cbs s))"
    then have "used (rx_cbs s) = length (buf (rx_cbs s))" using wf by (simp add: wf_buffer_def)
    with assms(2) queue_full [OF wf, of 1] show False by (simp add: sock_read_def)
  qed
  obtain t where t: "queue (rx_cbs s) 1 = Inr (tail (rx_cbs s), 1, (rx_cbs s)\<lparr>tail := t, used := used (rx_cbs s) + 1\<rparr>)"
    "wf_buffer ((rx_cbs s)\<lparr>tail := t, used := used (rx_cbs s) + 1\<rparr>)"
    using queue_one [OF wf room] by blast
  let ?s = "s\<lparr>rx_cbs := (rx_cbs s)\<lparr>buf := (buf (rx_cbs s))[tail (rx_cbs s) := op],
    tail := t, used := used (rx_cbs s) + 1\<rparr>\<rparr>"
  have ok: "rx_ok ?s" "tx_side ?s = tx_side s"
    using assms(1) t(2) by (simp_all add: sock_inv_def rx_ok_def tx_side_def)
  consider "rx_rdy s" "sock_rx hr ks (?s, u) = Inr (s', u', ks')" | "s' = ?s"
    using assms(2) t(1) by (auto simp: sock_read_def Let_def split: if_splits)
  then show ?thesis
  proof cases
    case 1
    with sock_rx_kept [OF ok(1) 1(2)] ok(2) tx_side_inv [of s' s] assms(1) show ?thesis
      by (simp add: sock_inv_def)
  next
    case 2
    with ok tx_side_inv [of s' s] assms(1) show ?thesis by (simp add: sock_inv_def)
  qed
qed

lemma sock_inv_wbuf: "sock_inv s \<Longrightarrow> wf_buffer (wbuf s)"
  by (simp add: sock_inv_def tx_inv_def)

lemma write_inv: "sock_inv s \<Longrightarrow> sock_write s data = Inr s' \<Longrightarrow> sock_inv s'"
  by (rule appended_inv [OF _ sock_write_appends [OF sock_inv_wbuf]])

lemma emplace_inv: "sock_inv s \<Longrightarrow> write_emplace s t = Inr s' \<Longrightarrow> sock_inv s'"
  by (rule appended_inv [OF _ write_emplace_appends [OF sock_inv_wbuf]])

lemma fill_inv:
  assumes "sock_inv s" "write_prepare s (length data) = Inr (p1, p2, n1)"
    and "write_commit (set_wmem s (scatter (buf (wbuf s)) p1 n1 p2 data)) (length data) = Inr s'"
  shows "sock_inv s'"
proof -
  have wf: "wf_buffer (wbuf s)" using assms(1) by (simp add: sock_inv_def tx_inv_def)
  have "data \<noteq> []" using assms(2) by (auto simp: write_prepare_def queue_prep_def)
  from commit_scattered [OF wf assms(2) this] assms(3) have "appended s data s'" by simp
  with assms(1) show ?thesis by (rule appended_inv)
qed

lemma cb_point_inv:
  assumes "sock_inv s" "write_cb_point s cb d = Inr s'"
  shows "sock_inv s'"
proof -
  have wf: "wf_buffer (tx_cbs s)" using assms(1) by (simp add: sock_inv_def tx_inv_def)
  have room: "used (tx_cbs s) < length (buf (tx_cbs s))"
  proof (rule ccontr)
    assume "\<not> used (tx_cbs s) < length (buf (tx_cbs s))"
    then have "used (tx_cbs s) = length (buf (tx_cbs s))" "0 < used (tx_cbs s)"
      using wf by (auto simp: wf_buffer_def)
    with write_cb_point_full [OF wf] assms(2) show False by simp
  qed
  with assms(1) have "tx_ok s" by (simp add: sock_inv_def tx_inv_def)
  from write_cb_point_ok [OF this room, of cb d] assms show ?thesis
    by (auto simp: sock_inv_def tx_ok_inv tx_same_rx)
qed

lemma inv_flags:
  "sock_inv s \<Longrightarrow> sock_inv (s\<lparr>rx_rdy := True\<rparr>)" "sock_inv s \<Longrightarrow> sock_inv (s\<lparr>tx_rdy := True\<rparr>)"
  "sock_inv s \<Longrightarrow> sock_inv (s\<lparr>connected := True\<rparr>)"
  by (auto simp: sock_inv_def tx_inv_def rx_ok_def tx_ok_def)

lemma rx_keeps_inv: "sock_inv s \<Longrightarrow> sock_rx h ks (s, u) = Inr (s', u', ks') \<Longrightarrow> sock_inv s'"
  using sock_rx_kept [of s h ks u s' u' ks'] tx_side_inv [of s' s] by (auto simp: sock_inv_def)

lemma run_io_inv:
  assumes "sock_inv s" "sock_run_io hr ht ks ws so_error events (s, u) wire = Inr (s', u', ks', ws', wire')"
  shows "sock_inv s'"
proof -
  from assms(2) obtain s1 u1 ks1 where r: "(if and events EPOLLIN \<noteq> 0
      then sock_rx hr ks (s\<lparr>rx_rdy := True\<rparr>, u) else Inr (s, u, ks)) = Inr (s1, u1, ks1)"
    "(if and events EPOLLOUT \<noteq> 0 then
       rbind (if \<not> connected s1
              then rbind (socket_check_connected so_error) (\<lambda>_. Inr (s1\<lparr>connected := True\<rparr>))
              else Inr s1) (\<lambda>s.
       rbind (sock_tx ht ws (s\<lparr>tx_rdy := True\<rparr>, u1) wire) (\<lambda>(s, u, ws, wire).
       Inr (s, u, ks1, ws, wire)))
     else Inr (s1, u1, ks1, ws, wire)) = Inr (s', u', ks', ws', wire')"
    by (auto simp: sock_run_io_def rbind_eq_Inr)
  have inv1: "sock_inv s1"
    using r(1) rx_keeps_inv [OF inv_flags(1) [OF assms(1)]] assms(1) by (auto split: if_splits)
  show ?thesis
  proof (cases "and events EPOLLOUT \<noteq> 0")
    case False
    with r(2) inv1 show ?thesis by simp
  next
    case True
    with r(2) obtain s2 where s2: "s2 = s1\<lparr>connected := True\<rparr> \<or> s2 = s1"
      "sock_tx ht ws (s2\<lparr>tx_rdy := True\<rparr>, u1) wire = Inr (s', u', ws', wire')"
      by (auto simp: rbind_eq_Inr split: if_splits)
    have "sock_inv s2" using s2(1) inv1 inv_flags(3) by blast
    from sock_tx_keeps [OF inv_flags(2) [OF this] s2(2)] show ?thesis by simp
  qed
qed

lemma run_io_wire:
  assumes "sock_inv s" "sock_run_io hr ht ks ws so_error events (s, u) wire = Inr (s', u', ks', ws', wire')"
  shows "wire' @ contents (wbuf s') = wire @ contents (wbuf s)"
proof -
  from assms(2) obtain s1 u1 ks1 where r: "(if and events EPOLLIN \<noteq> 0
      then sock_rx hr ks (s\<lparr>rx_rdy := True\<rparr>, u) else Inr (s, u, ks)) = Inr (s1, u1, ks1)"
    "(if and events EPOLLOUT \<noteq> 0 then
       rbind (if \<not> connected s1
              then rbind (socket_check_connected so_error) (\<lambda>_. Inr (s1\<lparr>connected := True\<rparr>))
              else Inr s1) (\<lambda>s.
       rbind (sock_tx ht ws (s\<lparr>tx_rdy := True\<rparr>, u1) wire) (\<lambda>(s, u, ws, wire).
       Inr (s, u, ks1, ws, wire)))
     else Inr (s1, u1, ks1, ws, wire)) = Inr (s', u', ks', ws', wire')"
    by (auto simp: sock_run_io_def rbind_eq_Inr)
  have 1: "sock_inv s1 \<and> wbuf s1 = wbuf s"
  proof (cases "and events EPOLLIN \<noteq> 0")
    case True
    with r(1) have rx: "sock_rx hr ks (s\<lparr>rx_rdy := True\<rparr>, u) = Inr (s1, u1, ks1)" by simp
    have i: "sock_inv (s\<lparr>rx_rdy := True\<rparr>)" by (rule inv_flags(1) [OF assms(1)])
    then have "rx_ok (s\<lparr>rx_rdy := True\<rparr>)" by (simp add: sock_inv_def)
    from sock_rx_kept [OF this rx] rx_keeps_inv [OF i rx] show ?thesis by (simp add: tx_side_def)
  next
    case False
    with r(1) assms(1) show ?thesis by simp
  qed
  show ?thesis
  proof (cases "and events EPOLLOUT \<noteq> 0")
    case False
    with r(2) 1 show ?thesis by simp
  next
    case True
    with r(2) obtain s2 where s2: "s2 = s1\<lparr>connected := True\<rparr> \<or> s2 = s1"
      "sock_tx ht ws (s2\<lparr>tx_rdy := True\<rparr>, u1) wire = Inr (s', u', ws', wire')"
      by (auto simp: rbind_eq_Inr split: if_splits)
    have "sock_inv s2" "wbuf s2 = wbuf s" using s2(1) 1 inv_flags(3) by auto
    with sock_tx_keeps [OF inv_flags(2) s2(2)] show ?thesis by simp
  qed
qed

lemma step_inv: "sock_step hr ht su su' \<Longrightarrow> sock_inv (fst su) \<Longrightarrow> sock_inv (fst su')"
proof (induction rule: sock_step.induct)
  case (step_try_tx ws s u wire s' u' ws' wire')
  then show ?case using sock_tx_keeps [of s ht ws u wire s' u' ws' wire'] by (auto simp: try_tx_def split: if_splits)
qed (auto intro: connect_inv read_inv write_inv emplace_inv fill_inv cb_point_inv run_io_inv)

lemma reach_inv: "sock_reach hr ht su0 su \<Longrightarrow> sock_inv (fst su0) \<Longrightarrow> sock_inv (fst su)"
  by (induction rule: sock_reach.induct) (auto dest: step_inv)

subsection \<open>Properties\<close>

text \<open>C11: Whatever calls are made on a new socket, with whatever callbacks and answers of the kernel, its four
  ring buffers stay well formed, and as long as the queue of callback points is not full,
  \<open>tx_out_\<close> is the sum of the stored deltas and at most the number of bytes buffered, so that no
  subtraction from it wraps.\<close>

theorem reachable_socket:
  assumes "sock_reach hr ht (sock_new nreqs nchars this null, u0) (s, u)" "0 < nreqs" "0 < nchars"
  shows "wf_buffer (rx_cbs s) \<and> wf_buffer (rbuf s) \<and> wf_buffer (tx_cbs s) \<and> wf_buffer (wbuf s) \<and>
    (items (tx_cbs s) < buffer_size (tx_cbs s) \<longrightarrow>
      tx_out s = sum_list (map txlen (contents (tx_cbs s))) \<and> tx_out s \<le> items (wbuf s))"
proof -
  have "sock_inv (fst (s, u))"
    by (rule reach_inv [OF assms(1)]) (simp add: sock_new_inv assms(2,3))
  then show ?thesis
    by (auto simp: sock_inv_def rx_ok_def tx_inv_def tx_ok_def items_def buffer_size_def)
qed

text \<open>The witness writes three bytes and inserts a callback point.\<close>

definition demo_new :: "(unit, unit, nat) Sock" where
  "demo_new = sock_new 2 4 7 0"

definition quiet :: "(unit, nat, nat list) rx_handler" where
  "quiet cb this d s1 s2 st u = Inr (0, u)"

lemma demo_reach:
  "\<exists>s. sock_reach quiet noter (demo_new, []) (s, []) \<and>
    contents (wbuf s) = [1, 2, 3] \<and> dues s = [(3, Some (), 9)] \<and> length (buf (tx_cbs s)) = 2"
proof -
  let ?s0 = demo_new
  have s0: "tx_ok ?s0" "wf_buffer (wbuf ?s0)" "contents (wbuf ?s0) = []" "dues ?s0 = []"
    by (simp_all add: demo_new_def sock_new_def wf_buffer_new tx_ok_def dues_def)
  have "length [1, 2, 3] \<le> space (wbuf ?s0)"
    by (simp add: demo_new_def sock_new_def space_def buffer_size_def)
  then obtain s1 where s1: "sock_write ?s0 [1, 2, 3] = Inr s1" "appended ?s0 [1, 2, 3] s1"
    using sock_write_ok [OF s0(2), of "[1, 2, 3]"] by blast
  note a = appended_tx_ok [OF s0(1) s1(2)]
  have c1: "contents (wbuf s1) = [1, 2, 3]" "tx_cbs s1 = tx_cbs ?s0"
    using s1(2) s0(3) by (auto simp: appended_def)
  then have "used (tx_cbs s1) < length (buf (tx_cbs s1))" by (simp add: demo_new_def sock_new_def)
  then obtain s2 where s2: "write_cb_point s1 (Some ()) 9 = Inr s2" "wbuf s2 = wbuf s1" "tx_same s1 s2"
    "dues s2 = dues s1 @ [(items (wbuf s1), Some (), 9)]"
    using write_cb_point_ok [of s1 "Some ()" 9] a by blast
  have "sock_reach quiet noter (?s0, []) (s2, [])"
    by (rule reach_step [OF reach_step [OF reach_start step_write [OF s1(1)]] step_cb_point [OF s2(1)]])
  moreover have "items (wbuf s1) = 3"
    using arg_cong [OF c1(1), of length] by (simp add: items_def)
  moreover have "length (buf (tx_cbs s2)) = 2"
    using s2(3) c1(2) by (simp add: tx_same_def demo_new_def sock_new_def)
  ultimately show ?thesis using s2 a s0(4) c1 by auto
qed

theorem reachable_socket_witness:
  "\<exists>s. sock_reach quiet noter (demo_new, []) (s, []) \<and>
    contents (wbuf s) = [1, 2, 3] \<and> wf_buffer (wbuf s) \<and> wf_buffer (tx_cbs s)"
proof -
  obtain s where s: "sock_reach quiet noter (demo_new, []) (s, [])"
    "contents (wbuf s) = [1, 2, 3]" using demo_reach by blast
  have "wf_buffer (wbuf s) \<and> wf_buffer (tx_cbs s)" using reachable_socket [OF s(1) [unfolded demo_new_def]] by simp
  with s show ?thesis by blast
qed

end
