(* ===== verification/Accumulator.thy ===== *)
theory Accumulator
  imports Complex_Main Mut_Base "HOL-Library.Multiset"
begin

section \<open>Samples and results (client/accum.hh, client/accum.cc, client/results.hh)\<close>

text \<open>
  \<open>Accum\<close>: a vector of samples and the flag that says it is sorted; the queries that need order
  sort in place. \<open>Results\<close>: three accumulators, byte counters and the times of the measurement.
  Floating-point numbers are reals; every arithmetic operation of the code is followed by the
  rounding \<open>rnd\<close>, an argument. \<open>float_rounding\<close> is what IEEE 754 promises of it: it is monotone and leaves
  alone the numbers a double represents exactly, of which the small dyadic ones are named. Times
  are nanoseconds of the steady clock; the clock's answer is an argument.
\<close>

definition float_rounding :: "(real \<Rightarrow> real) \<Rightarrow> bool" where
  "float_rounding rnd \<longleftrightarrow> mono rnd \<and>
     (\<forall>n k. n \<le> 2 ^ 53 \<and> k \<le> 1000 \<longrightarrow> rnd (real n / 2 ^ k) = real n / 2 ^ k)"

lemma float_rounding_nat: "float_rounding rnd \<Longrightarrow> n \<le> 2 ^ 53 \<Longrightarrow> rnd (real n) = real n"
  unfolding float_rounding_def by (metis div_by_1 less_eq_nat.simps(1) power_0)

lemma float_rounding_pos:
  assumes "float_rounding rnd" "1 / 2 ^ 1000 \<le> x"
  shows "0 < rnd x"
proof -
  have "rnd (real 1 / 2 ^ 1000) = real 1 / 2 ^ 1000" "rnd (1 / 2 ^ 1000) \<le> rnd x"
    using assms unfolding float_rounding_def by (blast intro: one_le_numeral one_le_power, blast dest: monoD)
  then show ?thesis by (simp add: less_le_trans [rotated])
qed

subsection \<open>Accum\<close>

record Accum =
  samples :: "nat list"
  is_sorted :: bool

definition accum_new :: "nat \<Rightarrow> Accum" where
  "accum_new reserve = \<lparr>samples = take 0 [reserve], is_sorted = False\<rparr>"

definition accum_clear :: "Accum \<Rightarrow> Accum" where
  "accum_clear a = a\<lparr>samples := [], is_sorted := False\<rparr>"

definition add_sample :: "nat \<Rightarrow> Accum \<Rightarrow> Accum" where
  "add_sample val a = a\<lparr>samples := samples a @ [val], is_sorted := False\<rparr>"

definition accum_size :: "Accum \<Rightarrow> nat" where
  "accum_size a = length (samples a)"

text \<open>The lines it prints.\<close>

definition print_samples :: "Accum \<Rightarrow> nat list" where
  "print_samples a = samples a"

lemma print_samples_eq [simp]: "print_samples a = samples a"
  by (simp add: print_samples_def)

text \<open>The common first step of the ordered queries.\<close>

definition sort_samples :: "Accum \<Rightarrow> Accum" where
  "sort_samples a = (if \<not> is_sorted a then a\<lparr>samples := sort (samples a), is_sorted := True\<rparr> else a)"

text \<open>Indexing a \<open>vector\<close> with \<open>[]\<close> is undefined outside it; so is converting a negative
  double to an unsigned index.\<close>

definition sample_at :: "Accum \<Rightarrow> int \<Rightarrow> nat res" where
  "sample_at a i =
     (if 0 \<le> i \<and> nat i < accum_size a then Inr (samples a ! nat i)
      else Inl (Undefined_behaviour ''vector index out of range''))"

definition percentile :: "(real \<Rightarrow> real) \<Rightarrow> real \<Rightarrow> Accum \<Rightarrow> (nat \<times> Accum) res" where
  "percentile rnd percent a0 =
     (let a = sort_samples a0 in
      rbind (sample_at a (\<lceil>rnd (real (accum_size a) * percent)\<rceil> - 1)) (\<lambda>v. Inr (v, a)))"

definition accum_min :: "Accum \<Rightarrow> (nat \<times> Accum) res" where
  "accum_min a0 = (let a = sort_samples a0 in rbind (sample_at a 0) (\<lambda>v. Inr (v, a)))"

definition accum_max :: "Accum \<Rightarrow> (nat \<times> Accum) res" where
  "accum_max a0 =
     (let a = sort_samples a0 in rbind (sample_at a (int (accum_size a) - 1)) (\<lambda>v. Inr (v, a)))"

fun mean_from :: "(real \<Rightarrow> real) \<Rightarrow> real \<Rightarrow> real \<Rightarrow> nat list \<Rightarrow> real" where
  "mean_from rnd sz avg [] = avg"
| "mean_from rnd sz avg (i # is) = mean_from rnd sz (rnd (avg + rnd (rnd (real i) / sz))) is"

definition mean :: "(real \<Rightarrow> real) \<Rightarrow> Accum \<Rightarrow> real" where
  "mean rnd a = mean_from rnd (rnd (real (accum_size a))) 0 (samples a)"

fun sqdiffs_from :: "(real \<Rightarrow> real) \<Rightarrow> real \<Rightarrow> real \<Rightarrow> nat list \<Rightarrow> real" where
  "sqdiffs_from rnd avg acc [] = acc"
| "sqdiffs_from rnd avg acc (i # is) =
     (let diff = rnd (rnd (real i) - avg)
      in sqdiffs_from rnd avg (rnd (acc + rnd (diff * diff))) is)"

definition stddev :: "(real \<Rightarrow> real) \<Rightarrow> Accum \<Rightarrow> real" where
  "stddev rnd a =
     rnd (sqrt (rnd (sqdiffs_from rnd (mean rnd a) 0 (samples a) / rnd (real (accum_size a)))))"

subsection \<open>Results\<close>

definition NSEC :: real where "NSEC = 1000000000"

record Results =
  measure_start :: int
  measure_end :: int
  queue_acc :: Accum
  service_acc :: Accum
  wait_acc :: Accum
  tx_bytes :: "64 word"
  rx_bytes :: "64 word"
  reqps :: real

definition results_new :: "nat \<Rightarrow> Results" where
  "results_new reserve =
     \<lparr>measure_start = 0, measure_end = 0, queue_acc = accum_new reserve, service_acc = accum_new reserve,
      wait_acc = accum_new reserve, tx_bytes = 0, rx_bytes = 0, reqps = 0\<rparr>"

definition start_measurements :: "int \<Rightarrow> Results \<Rightarrow> Results" where
  "start_measurements now r = r\<lparr>measure_start := now\<rparr>"

definition running_time :: "Results \<Rightarrow> nat res" where
  "running_time r =
     (let len = measure_end r - measure_start r in
      if len \<le> 0 then Inl (Runtime_error ''experiment finished before it started'')
      else Inr (nat len))"

definition end_measurements :: "(real \<Rightarrow> real) \<Rightarrow> int \<Rightarrow> Results \<Rightarrow> Results res" where
  "end_measurements rnd now r0 =
     (let r = r0\<lparr>measure_end := now\<rparr> in
      rbind (running_time r) (\<lambda>t.
      Inr (r\<lparr>reqps := rnd (rnd (real (accum_size (service_acc r))) / rnd (rnd (real t) / NSEC))\<rparr>)))"

definition sent_bytes :: "64 word \<Rightarrow> Results \<Rightarrow> Results" where
  "sent_bytes n r = r\<lparr>tx_bytes := tx_bytes r + n\<rparr>"

definition results_add_sample :: "nat \<Rightarrow> nat \<Rightarrow> nat \<Rightarrow> 64 word \<Rightarrow> Results \<Rightarrow> Results" where
  "results_add_sample q s w n r =
     r\<lparr>queue_acc := add_sample q (queue_acc r), service_acc := add_sample s (service_acc r),
       wait_acc := add_sample w (wait_acc r), rx_bytes := rx_bytes r + n\<rparr>"

subsection \<open>The sorted flag\<close>

definition accum_inv :: "Accum \<Rightarrow> bool" where
  "accum_inv a \<longleftrightarrow> (is_sorted a \<longrightarrow> sorted (samples a))"

datatype accum_op = Clear | Add_sample nat | Get_min | Get_max | Percentile real

fun accum_do :: "(real \<Rightarrow> real) \<Rightarrow> accum_op \<Rightarrow> Accum \<Rightarrow> Accum res" where
  "accum_do rnd Clear a = Inr (accum_clear a)"
| "accum_do rnd (Add_sample v) a = Inr (add_sample v a)"
| "accum_do rnd Get_min a = rbind (accum_min a) (\<lambda>(v, a). Inr a)"
| "accum_do rnd Get_max a = rbind (accum_max a) (\<lambda>(v, a). Inr a)"
| "accum_do rnd (Percentile p) a = rbind (percentile rnd p a) (\<lambda>(v, a). Inr a)"

fun accum_run :: "(real \<Rightarrow> real) \<Rightarrow> accum_op list \<Rightarrow> Accum \<Rightarrow> Accum res" where
  "accum_run rnd [] a = Inr a"
| "accum_run rnd (x # xs) a = rbind (accum_do rnd x a) (accum_run rnd xs)"

text \<open>The samples added since the last \<open>clear\<close>, by the operations alone.\<close>

fun added :: "accum_op list \<Rightarrow> nat multiset \<Rightarrow> nat multiset" where
  "added [] m = m"
| "added (Clear # xs) m = added xs {#}"
| "added (Add_sample v # xs) m = added xs (add_mset v m)"
| "added (x # xs) m = added xs m"

lemma accum_inv_new: "accum_inv (accum_new n)"
  by (simp add: accum_inv_def accum_new_def)

lemma sort_samples_eq: "accum_inv a \<Longrightarrow> sort_samples a = \<lparr>samples = sort (samples a), is_sorted = True\<rparr>"
  by (cases a) (auto simp: sort_samples_def accum_inv_def sorted_sort_id)

lemma query_keeps:
  assumes "accum_inv a"
  shows "accum_min a = Inr (v, b) \<Longrightarrow> b = sort_samples a"
    "accum_max a = Inr (v, b) \<Longrightarrow> b = sort_samples a"
    "percentile rnd p a = Inr (v, b) \<Longrightarrow> b = sort_samples a"
  by (auto simp: accum_min_def accum_max_def percentile_def Let_def res_simps)

lemma sorted_keeps:
  assumes "accum_inv a"
  shows "accum_inv (sort_samples a)" "mset (samples (sort_samples a)) = mset (samples a)"
  by (simp_all add: sort_samples_eq [OF assms]) (simp add: accum_inv_def)

lemma accum_do_spec:
  assumes "accum_inv a" "accum_do rnd x a = Inr b"
  shows "accum_inv b \<and> mset (samples b) = added [x] (mset (samples a))"
  using assms query_keeps [OF assms(1)] sorted_keeps [OF assms(1)]
  by (cases x) (auto simp: accum_clear_def add_sample_def accum_inv_def res_simps)

lemma added_append: "added (xs @ ys) m = added ys (added xs m)"
  by (induction xs m rule: added.induct) auto

lemma accum_run_spec:
  assumes "accum_inv a" "accum_run rnd xs a = Inr b"
  shows "accum_inv b \<and> mset (samples b) = added xs (mset (samples a))"
  using assms
proof (induction xs arbitrary: a)
  case (Cons x xs)
  then obtain c where c: "accum_do rnd x a = Inr c" "accum_run rnd xs c = Inr b"
    by (auto simp: res_simps)
  from accum_do_spec [OF Cons.prems(1) c(1)] Cons.IH [OF _ c(2)] show ?case
    using added_append [of "[x]" xs] by simp
qed simp

subsection \<open>Ordered queries\<close>

lemma sorted_ends:
  assumes "sorted xs" "xs \<noteq> []"
  shows "hd xs = Min (set xs)" "last xs = Max (set xs)"
proof -
  have "hd xs \<le> x" "x \<le> last xs" if "x \<in> set xs" for x
    using that assms sorted_nth_mono [OF assms(1)]
    by (auto simp: in_set_conv_nth hd_conv_nth last_conv_nth)
  then show "hd xs = Min (set xs)" "last xs = Max (set xs)"
    using assms(2) by (auto intro!: Min_eqI [symmetric] Max_eqI [symmetric])
qed

lemma accum_min_ok:
  assumes "accum_inv a" "samples a \<noteq> []"
  shows "accum_min a = Inr (Min (set (samples a)), sort_samples a)"
proof -
  have ne: "sort (samples a) \<noteq> []" using assms(2) by (metis set_empty set_sort)
  have "hd (sort (samples a)) = Min (set (samples a))" using sorted_ends(1) [OF sorted_sort ne] by simp
  then show ?thesis using assms(2) ne
    by (simp add: accum_min_def sort_samples_eq [OF assms(1)] sample_at_def accum_size_def flip: hd_conv_nth)
qed

lemma accum_max_ok:
  assumes "accum_inv a" "samples a \<noteq> []"
  shows "accum_max a = Inr (Max (set (samples a)), sort_samples a)"
proof -
  let ?s = "sort (samples a)"
  have ne: "?s \<noteq> []" using assms(2) by (metis set_empty set_sort)
  then have "Max (set ?s) = last ?s" using sorted_ends(2) [OF sorted_sort ne] by simp
  moreover have "nat (int (length (samples a)) - 1) = length (samples a) - 1" by simp
  ultimately show ?thesis using assms(2) ne
    by (simp add: accum_max_def sort_samples_eq [OF assms(1)] sample_at_def accum_size_def last_conv_nth)
qed

text \<open>The value at index \<open>i\<close> of the sorted samples: at most \<open>i\<close> samples are smaller and more than
  \<open>i\<close> are not larger.\<close>

lemma sorted_rank:
  assumes "sorted xs" "i < length xs"
  shows "length (filter (\<lambda>x. x < xs ! i) xs) \<le> i \<and> i < length (filter (\<lambda>x. x \<le> xs ! i) xs)"
proof -
  have "filter (\<lambda>x. x < xs ! i) xs = filter (\<lambda>x. x < xs ! i) (take i xs)"
  proof -
    have "filter (\<lambda>x. x < xs ! i) (drop i xs) = []"
      using assms by (auto simp: filter_empty_conv set_conv_nth sorted_iff_nth_mono not_less)
    then show ?thesis by (metis append.right_neutral append_take_drop_id filter_append)
  qed
  then have "length (filter (\<lambda>x. x < xs ! i) xs) \<le> i"
    using length_filter_le [of "\<lambda>x. x < xs ! i" "take i xs"] by simp
  moreover have "filter (\<lambda>x. x \<le> xs ! i) (take (Suc i) xs) = take (Suc i) xs"
    using assms by (auto simp: filter_id_conv set_conv_nth sorted_iff_nth_mono less_Suc_eq_le)
  then have "Suc i \<le> length (filter (\<lambda>x. x \<le> xs ! i) xs)"
    using assms(2) append_take_drop_id [of "Suc i" xs] filter_append [of "\<lambda>x. x \<le> xs ! i" "take (Suc i) xs" "drop (Suc i) xs"]
    by (metis Suc_leI le_add1 length_append length_take min.absorb2)
  ultimately show ?thesis by simp
qed

lemma filter_sort_length: "length (filter P (sort xs)) = length (filter P xs)"
  by (metis mset_filter mset_sort size_mset)

lemma percentile_index:
  assumes "float_rounding rnd" "0 < n" "n \<le> 2 ^ 53" "1 / 2 ^ 1000 \<le> p" "p \<le> 1"
  shows "0 \<le> \<lceil>rnd (real n * p)\<rceil> - 1 \<and> nat (\<lceil>rnd (real n * p)\<rceil> - 1) < n"
proof -
  have "1 / 2 ^ 1000 \<le> real n * p"
    using mult_mono [of 1 "real n" "1 / 2 ^ 1000" p] assms(2,4) by simp
  then have "0 < rnd (real n * p)" by (rule float_rounding_pos [OF assms(1)])
  moreover have "real n * p \<le> real n" using assms(5) by (simp add: mult_left_le)
  then have "rnd (real n * p) \<le> rnd (real n)" using assms(1) by (simp add: float_rounding_def monoD)
  then have "rnd (real n * p) \<le> real n" using float_rounding_nat [OF assms(1,3)] by simp
  ultimately have "1 \<le> \<lceil>rnd (real n * p)\<rceil>" "\<lceil>rnd (real n * p)\<rceil> \<le> int n"
    by (simp_all add: ceiling_le_iff le_ceiling_iff)
  then show ?thesis by linarith
qed

lemma percentile_ok:
  assumes "accum_inv a" "0 \<le> \<lceil>rnd (real (accum_size a) * p)\<rceil> - 1"
    "nat (\<lceil>rnd (real (accum_size a) * p)\<rceil> - 1) < accum_size a"
  shows "percentile rnd p a = Inr (sort (samples a) ! nat (\<lceil>rnd (real (accum_size a) * p)\<rceil> - 1), sort_samples a)"
  using assms by (simp add: percentile_def sort_samples_eq [OF assms(1)] sample_at_def accum_size_def)

subsection \<open>Averages in exact arithmetic\<close>

lemma mean_from_exact: "mean_from (\<lambda>x. x) sz avg xs = avg + sum_list (map real xs) / sz"
  by (induction xs arbitrary: avg) (simp_all add: add_divide_distrib)

lemma mean_exact: "mean (\<lambda>x. x) a = sum_list (map real (samples a)) / real (length (samples a))"
  by (simp add: mean_def mean_from_exact accum_size_def)

lemma sqdiffs_exact: "sqdiffs_from (\<lambda>x. x) avg s xs = s + (\<Sum>x\<leftarrow>xs. (real x - avg)\<^sup>2)"
  by (induction xs arbitrary: s) (simp_all add: Let_def power2_eq_square)


lemma mean_bounds:
  assumes "xs \<noteq> []"
  shows "real (Min (set xs)) * real (length xs) \<le> sum_list (map real xs) \<and>
    sum_list (map real xs) \<le> real (Max (set xs)) * real (length xs)"
proof -
  have "real m * real (length xs) \<le> sum_list (map real xs)" if "\<forall>x\<in>set xs. m \<le> x" for m
    using that by (induction xs) (auto simp: algebra_simps intro: add_mono)
  moreover have "sum_list (map real xs) \<le> real m * real (length xs)" if "\<forall>x\<in>set xs. x \<le> m" for m
    using that by (induction xs) (auto simp: algebra_simps intro: add_mono)
  ultimately show ?thesis using assms by simp
qed

lemma mean_from_nonneg:
  assumes "mono rnd" "rnd 0 = 0" "0 \<le> sz" "0 \<le> avg"
  shows "0 \<le> mean_from rnd sz avg xs"
  using assms(4)
proof (induction xs arbitrary: avg)
  case (Cons x xs)
  have pos: "0 \<le> y \<Longrightarrow> 0 \<le> rnd y" for y using monoD [OF assms(1), of 0 y] assms(2) by simp
  show ?case using Cons.prems by (simp add: Cons.IH pos assms(3))
qed simp

subsection \<open>Properties\<close>

text \<open>C28: The order statistics do not depend on when the vector was last sorted: after any sequence
  of operations (clearing, adding and querying in any order) the vector holds exactly the samples added since
  the last \<open>clear\<close>, and a set \<open>sorted_\<close> flag is true to it.\<close>

theorem accum_holds_samples:
  assumes "accum_run rnd ops (accum_new n) = Inr a"
  shows "mset (samples a) = added ops {#} \<and> (is_sorted a \<longrightarrow> sorted (samples a))"
  using accum_run_spec [OF accum_inv_new assms] by (simp add: accum_inv_def accum_new_def)

theorem accum_holds_samples_witness:
  "accum_run (\<lambda>x. x) [Add_sample 7, Add_sample 3, Get_max, Add_sample 5, Get_min] (accum_new 9) =
     Inr \<lparr>samples = [3, 5, 7], is_sorted = True\<rparr> \<and>
   mset (samples \<lparr>samples = [3, 5, 7], is_sorted = True\<rparr>) = {#7, 3, 5#}"
proof -
  have "accum_run (\<lambda>x. x) [Add_sample 7, Add_sample 3, Get_max, Add_sample 5, Get_min] (accum_new 9) =
     Inr \<lparr>samples = [3, 5, 7], is_sorted = True\<rparr>"
    by (simp add: accum_new_def add_sample_def accum_max_def accum_min_def sort_samples_def
        sample_at_def accum_size_def)
  with accum_holds_samples [OF this] show ?thesis by simp
qed

text \<open>C24: \<open>percentile\<close> is a nearest-rank order statistic. With the rank \<open>r\<close> the code
  computes from \<open>size * percent\<close>, fewer than \<open>r\<close> samples are smaller than the result and at least
  \<open>r\<close> are not larger; for any nonempty set of up to \<open>2 ^ 53\<close> samples and any percentage above
  \<open>2 ^ -1000\<close> up to 1, the index is in range under every rounding IEEE 754 allows.\<close>

theorem percentile_nearest_rank:
  assumes "accum_inv a" "samples a \<noteq> []" "length (samples a) \<le> 2 ^ 53" "float_rounding rnd"
    and "1 / 2 ^ 1000 \<le> p" "p \<le> 1"
  shows "\<exists>v. percentile rnd p a = Inr (v, sort_samples a) \<and> v \<in> set (samples a) \<and>
    (let r = \<lceil>rnd (real (length (samples a)) * p)\<rceil> in
      int (length (filter (\<lambda>x. x < v) (samples a))) < r \<and>
      r \<le> int (length (filter (\<lambda>x. x \<le> v) (samples a))))"
proof -
  let ?r = "\<lceil>rnd (real (length (samples a)) * p)\<rceil>" and ?s = "sort (samples a)"
  have i: "0 \<le> ?r - 1" "nat (?r - 1) < length (samples a)"
    using percentile_index [OF assms(4) _ assms(3,5,6)] assms(2) by auto
  then have i': "nat (?r - 1) < length ?s" by simp
  have "percentile rnd p a = Inr (?s ! nat (?r - 1), sort_samples a)"
    using percentile_ok [OF assms(1)] i by (simp add: accum_size_def)
  moreover have "?s ! nat (?r - 1) \<in> set (samples a)" using nth_mem [OF i'] by simp
  moreover have "int (length (filter (\<lambda>x. x < ?s ! nat (?r - 1)) (samples a))) < ?r"
    "?r \<le> int (length (filter (\<lambda>x. x \<le> ?s ! nat (?r - 1)) (samples a)))"
    using sorted_rank [OF sorted_sort i'] i(1) by (simp_all only: filter_sort_length) linarith+
  ultimately show ?thesis unfolding Let_def by blast
qed

theorem percentile_nearest_rank_witness:
  "\<exists>v. percentile (\<lambda>x. x) (1 / 2) \<lparr>samples = [40, 10, 30, 20], is_sorted = False\<rparr> =
      Inr (v, \<lparr>samples = [10, 20, 30, 40], is_sorted = True\<rparr>) \<and> v \<in> {40, 10, 30, 20} \<and>
    length (filter (\<lambda>x. x < v) [40, 10, 30, 20]) < 2 \<and> 2 \<le> length (filter (\<lambda>x. x \<le> v) [40, 10, 30, 20])"
proof -
  let ?a = "\<lparr>samples = [40, 10, 30, 20], is_sorted = False\<rparr>"
  have "float_rounding (\<lambda>x. x)" by (simp add: float_rounding_def mono_def)
  moreover have "(1 :: real) / 2 ^ 1000 \<le> 1 / 2"
    using power_increasing [of 1 1000 "2 :: real"] by (simp add: frac_le)
  moreover have "accum_inv ?a" by (simp add: accum_inv_def)
  moreover have "sort_samples ?a = \<lparr>samples = [10, 20, 30, 40], is_sorted = True\<rparr>"
    by (simp add: sort_samples_def)
  ultimately show ?thesis
    using percentile_nearest_rank [of ?a "\<lambda>x. x" "1 / 2"] by (simp add: Let_def)
qed

text \<open>\<open>min\<close> and \<open>max\<close> return the smallest and the largest sample whatever the
  flag says, and on an empty accumulator they read outside the vector.\<close>

theorem accum_extremes:
  assumes "accum_inv a"
  shows "if samples a = [] then \<not> is_ok (accum_min a) \<and> \<not> is_ok (accum_max a)
    else accum_min a = Inr (Min (set (samples a)), sort_samples a) \<and>
      accum_max a = Inr (Max (set (samples a)), sort_samples a)"
  using accum_min_ok [OF assms] accum_max_ok [OF assms]
  by (auto simp: accum_min_def accum_max_def sort_samples_eq [OF assms] sample_at_def accum_size_def)

theorem accum_extremes_witness:
  "accum_min \<lparr>samples = [4, 1, 3], is_sorted = False\<rparr> = Inr (1, \<lparr>samples = [1, 3, 4], is_sorted = True\<rparr>) \<and>
   accum_max \<lparr>samples = [4, 1, 3], is_sorted = False\<rparr> = Inr (4, \<lparr>samples = [1, 3, 4], is_sorted = True\<rparr>)"
  using accum_extremes [of "\<lparr>samples = [4, 1, 3], is_sorted = False\<rparr>"]
  by (simp add: accum_inv_def sort_samples_def)

text \<open>In exact arithmetic the mean, although accumulated from quotients, is the sum of the samples divided by their
  number and lies between the smallest and the largest sample, and the standard deviation is the
  population one.\<close>

theorem mean_and_stddev:
  assumes "samples a \<noteq> []"
  shows "mean (\<lambda>x. x) a = real (sum_list (samples a)) / real (accum_size a) \<and>
    real (Min (set (samples a))) \<le> mean (\<lambda>x. x) a \<and> mean (\<lambda>x. x) a \<le> real (Max (set (samples a))) \<and>
    stddev (\<lambda>x. x) a =
      sqrt ((\<Sum>x\<leftarrow>samples a. (real x - mean (\<lambda>x. x) a)\<^sup>2) / real (accum_size a))"
proof -
  have s: "sum_list (map real xs) = real (sum_list xs)" for xs by (induction xs) auto
  have "0 < real (length (samples a))" using assms by simp
  with mean_bounds [OF assms] show ?thesis
    by (simp add: mean_exact s accum_size_def stddev_def sqdiffs_exact pos_le_divide_eq pos_divide_le_eq)
qed

theorem mean_and_stddev_witness:
  "mean (\<lambda>x. x) \<lparr>samples = [2, 4, 9], is_sorted = False\<rparr> = 5"
  using mean_and_stddev [of "\<lparr>samples = [2, 4, 9], is_sorted = False\<rparr>"] by (simp add: accum_size_def)

text \<open>Ending a measurement not after its start throws; otherwise the throughput is the number of
  service samples over the seconds between the two times, and the samples stay as they were.\<close>

theorem throughput:
  "end_measurements (\<lambda>x. x) now r =
     (if now \<le> measure_start r then Inl (Runtime_error ''experiment finished before it started'')
      else Inr (r\<lparr>measure_end := now,
        reqps := real (accum_size (service_acc r)) * 1000000000 / real_of_int (now - measure_start r)\<rparr>))"
  by (simp add: end_measurements_def running_time_def Let_def NSEC_def)

end
