(* ===== verification/Gen_Base.thy ===== *)
theory Gen_Base
  imports Sock_Life
begin

section \<open>What the load generators share (client/generator.hh)\<close>

text \<open>
  The reference count of a generator, the clock, the record of an outstanding request with its
  latency computation, and the order of responses. The request callback (a \<open>RequestCB\<close> of the client) is a value
  of a type \<open>'k\<close>, \<open>None\<close> when empty; the environment says what calling it does to the rest of the
  program, the world \<open>'w\<close>. The steady clock is a function of the number of times it was read, in
  nanoseconds. A pointer to a request is the slot it occupies in the request buffer.
\<close>

subsection \<open>Reference counting\<close>

record gen_ref =
  ref_cnt :: int
  freed :: bool

definition gen_new :: gen_ref where
  "gen_new = \<lparr>ref_cnt = 1, freed = False\<rparr>"

definition gen_get :: "gen_ref \<Rightarrow> gen_ref res" where
  "gen_get g = (if freed g then Inl (Undefined_behaviour ''use after free'')
     else Inr (g\<lparr>ref_cnt := ref_cnt g + 1\<rparr>))"

definition gen_put :: "gen_ref \<Rightarrow> gen_ref res" where
  "gen_put g0 =
     (if freed g0 then Inl (Undefined_behaviour ''use after free'')
      else let g = g0\<lparr>ref_cnt := ref_cnt g0 - 1\<rparr> in
        if ref_cnt g = 0 then Inr (g\<lparr>freed := True\<rparr>)
        else if ref_cnt g < 0 then Inl (Runtime_error ''Generator::put refcnt < 0'')
        else Inr g)"

text \<open>\<open>send_request\<close> and \<open>run_io\<close> bracket their work with \<open>get\<close> and \<open>put\<close>. \<open>body\<close> is the work: what it does
  to the count it does through \<open>gen_get\<close> and \<open>gen_put\<close>.\<close>

definition guarded :: "(gen_ref \<Rightarrow> ('a \<times> gen_ref) res) \<Rightarrow> gen_ref \<Rightarrow> ('a \<times> gen_ref) res" where
  "guarded body g =
     rbind (gen_get g) (\<lambda>g.
     rbind (body g) (\<lambda>(x, g).
     rbind (gen_put g) (\<lambda>g. Inr (x, g))))"

datatype ref_op = Ref_get | Ref_put

fun ref_ops :: "ref_op list \<Rightarrow> gen_ref \<Rightarrow> gen_ref res" where
  "ref_ops [] g = Inr g"
| "ref_ops (Ref_get # xs) g = rbind (gen_get g) (ref_ops xs)"
| "ref_ops (Ref_put # xs) g = rbind (gen_put g) (ref_ops xs)"

fun ref_delta :: "ref_op list \<Rightarrow> int" where
  "ref_delta [] = 0"
| "ref_delta (Ref_get # xs) = ref_delta xs + 1"
| "ref_delta (Ref_put # xs) = ref_delta xs - 1"

text \<open>The references given back never exceed those held.\<close>

fun covered :: "int \<Rightarrow> ref_op list \<Rightarrow> bool" where
  "covered n [] \<longleftrightarrow> True"
| "covered n (Ref_get # xs) \<longleftrightarrow> covered (n + 1) xs"
| "covered n (Ref_put # xs) \<longleftrightarrow> 0 < n \<and> covered (n - 1) xs"

lemma ref_ops_live:
  assumes "\<not> freed g" "0 < k" "0 \<le> n" "covered n xs" "ref_cnt g = n + k"
  shows "ref_ops xs g = Inr (g\<lparr>ref_cnt := ref_cnt g + ref_delta xs\<rparr>) \<and> 0 \<le> n + ref_delta xs"
  using assms
proof (induction xs arbitrary: g n)
  case (Cons x xs)
  show ?case
  proof (cases x)
    case Ref_get
    let ?g = "g\<lparr>ref_cnt := ref_cnt g + 1\<rparr>"
    have "\<not> freed ?g" "0 \<le> n + 1" "covered (n + 1) xs" "ref_cnt ?g = (n + 1) + k"
      using Cons.prems Ref_get by simp_all
    from Cons.IH [OF this(1) assms(2) this(2,3,4)] show ?thesis
      using Ref_get Cons.prems(1) by (simp add: gen_get_def algebra_simps)
  next
    case Ref_put
    let ?g = "g\<lparr>ref_cnt := ref_cnt g - 1\<rparr>"
    have c: "0 < n" "covered (n - 1) xs" using Cons.prems Ref_put by simp_all
    have "gen_put g = Inr ?g"
      using Cons.prems(1,5) c(1) assms(2) by (simp add: gen_put_def)
    moreover have "\<not> freed ?g" "0 \<le> n - 1" "ref_cnt ?g = (n - 1) + k" using Cons.prems c(1) by simp_all
    from Cons.IH [OF this(1) assms(2) this(2) c(2) this(3)] have
      "ref_ops xs ?g = Inr (g\<lparr>ref_cnt := ref_cnt g + ref_delta (x # xs)\<rparr>) \<and> 0 \<le> n + ref_delta (x # xs)"
      using Ref_put by (simp add: algebra_simps)
    ultimately show ?thesis using Ref_put by simp
  qed
qed simp

lemma covered_take: "covered n xs \<Longrightarrow> covered n (take k xs)"
  by (induction n xs arbitrary: k rule: covered.induct) (auto simp: take_Cons split: nat.splits)

subsection \<open>Requests and latencies\<close>

record 'k Req =
  measure_req :: bool
  req_cb :: "'k option"
  start_ts :: int
  sent_ts :: int

text \<open>What both \<open>recv_response\<close> functions compute from a request and the time now, in the order
  of their checks: the time in the client and the service time, in microseconds.\<close>

definition latencies :: "string \<Rightarrow> ('k, 'z) Req_scheme \<Rightarrow> int \<Rightarrow> (nat \<times> nat) res" where
  "latencies who req now =
     (let delta = sent_ts req - start_ts req in
      if delta \<le> 0 then Inl (Runtime_error (who @ ''::recv_response: sent before it was generated''))
      else let queue_us = nat (delta div 1000); delta = now - start_ts req in
        if delta \<le> 0 then Inl (Runtime_error (who @ ''::recv_response: arrived before it was sent''))
        else Inr (queue_us, nat (delta div 1000)))"

lemma latencies_ok_iff:
  "is_ok (latencies who req now) \<longleftrightarrow> start_ts req < sent_ts req \<and> start_ts req < now"
  by (simp add: latencies_def Let_def)

lemma latencies_ordered:
  assumes "latencies who req now = Inr (q, sv)" "sent_ts req \<le> now"
  shows "q \<le> sv"
  using assms by (auto simp: latencies_def Let_def split: if_splits intro!: nat_mono zdiv_mono1)

record ('k, 'w) gen_env =
  clk :: "nat \<Rightarrow> int"
  request_cb :: "'k \<Rightarrow> nat \<Rightarrow> nat \<Rightarrow> nat \<Rightarrow> nat \<Rightarrow> nat \<Rightarrow> bool \<Rightarrow> 'w \<Rightarrow> 'w res"

text \<open>Calling a request's callback: the generator, the queue, service and wait time, the bytes received,
  whether to measure.\<close>

definition call_request_cb :: "('k, 'w, 'z) gen_env_scheme \<Rightarrow> 'k option \<Rightarrow> nat \<Rightarrow> nat \<Rightarrow> nat \<Rightarrow> nat \<Rightarrow> nat \<Rightarrow> bool \<Rightarrow>
    'w \<Rightarrow> 'w res" where
  "call_request_cb env cb this q sv w n m wd =
     (case cb of None \<Rightarrow> Inl Bad_function_call | Some k \<Rightarrow> request_cb env k this q sv w n m wd)"

lemma call_request_cb_err:
  "call_request_cb env cb this q sv w n m wd = Inl e \<Longrightarrow>
    e = Bad_function_call \<or> (\<exists>k. request_cb env k this q sv w n m wd = Inl e)"
  by (auto simp: call_request_cb_def split: option.splits)

text \<open>The state of a generator its callbacks work on: its requests, the address of its own
  \<open>sock_\<close>, its own address, the clock readings so far, and the world.\<close>

record ('r, 'w) gen =
  requests :: "'r buffer"
  sock_ref :: nat
  this_ref :: nat
  ticks :: nat
  world :: 'w

definition read_clock :: "('k, 'w, 'z) gen_env_scheme \<Rightarrow> ('r, 'w, 'y) gen_scheme \<Rightarrow> int \<times> ('r, 'w, 'y) gen_scheme" where
  "read_clock env u = (clk env (ticks u), u\<lparr>ticks := Suc (ticks u)\<rparr>)"

text \<open>Changing a request through a pointer to it.\<close>

definition set_req :: "('r, 'w, 'y) gen_scheme \<Rightarrow> nat \<Rightarrow> ('r \<Rightarrow> 'r) \<Rightarrow> ('r, 'w, 'y) gen_scheme" where
  "set_req u p f = u\<lparr>requests := (requests u)\<lparr>buf := (buf (requests u))[p := f (buf (requests u) ! p)]\<rparr>\<rparr>"

definition seg_len :: "byte list \<Rightarrow> byte list option \<Rightarrow> nat" where
  "seg_len s1 s2 = length s1 + (case s2 of None \<Rightarrow> 0 | Some x \<Rightarrow> length x)"

lemma seg_len_simps [simp]: "seg_len s1 None = length s1" "seg_len s1 (Some s2) = length (s1 @ s2)"
  by (simp_all add: seg_len_def)

lemma read_clock_simps [simp]:
  "requests (snd (read_clock env u)) = requests u" "sock_ref (snd (read_clock env u)) = sock_ref u"
  "this_ref (snd (read_clock env u)) = this_ref u" "world (snd (read_clock env u)) = world u"
  by (simp_all add: read_clock_def)

lemma slots_store [simp]: "slots (b\<lparr>buf := (buf b)[i := x]\<rparr>) = slots b"
  by (simp add: slots_def)

lemma set_req_simps [simp]:
  "slots (requests (set_req u p f)) = slots (requests u)" "sock_ref (set_req u p f) = sock_ref u"
  "wf_buffer (requests (set_req u p f)) = wf_buffer (requests u)"
  "length (buf (requests (set_req u p f))) = length (buf (requests u))"
  "used (requests (set_req u p f)) = used (requests u)"
  "this_ref (set_req u p f) = this_ref u" "world (set_req u p f) = world u"
  by (simp_all add: set_req_def wf_buffer_def slots_def)

text \<open>What the transmit callbacks keep, the transmit loop keeps.\<close>

definition tx_keeps :: "('t, 'd, 'u) tx_handler \<Rightarrow> ('u \<Rightarrow> 'u \<Rightarrow> bool) \<Rightarrow> bool" where
  "tx_keeps h P \<longleftrightarrow> (\<forall>u. P u u) \<and> (\<forall>u v w. P u v \<longrightarrow> P v w \<longrightarrow> P u w) \<and>
     (\<forall>cb this d st u u'. h cb this d st u = Inr u' \<longrightarrow> P u u')"

lemma tx_fire_keeps:
  "tx_keeps h P \<Longrightarrow> tx_fire h is n (s, u) d = Inr ((s', u'), d') \<Longrightarrow> P u u'"
proof (induction "is" arbitrary: n s u d)
  case (Cons i js)
  have refl: "P u u" and trans: "\<And>x y z. P x y \<Longrightarrow> P y z \<Longrightarrow> P x z"
    and call: "\<And>cb this d st u u'. h cb this d st u = Inr u' \<Longrightarrow> P u u'"
    using Cons.prems(1) unfolding tx_keeps_def by blast+
  show ?case
  proof (cases "txlen (txcb_at s i) > n")
    case True
    with Cons.prems(2) refl show ?thesis by (simp add: Let_def)
  next
    case False
    with Cons.prems(2) obtain cb u1 s1 where "h cb (self s) (txdata (txcb_at s i)) 0 u = Inr u1"
      "tx_fire h js (n - txlen (txcb_at s i)) (s1, u1) (Suc d) = Inr ((s', u'), d')"
      by (auto simp: Let_def res_simps split: option.splits)
    with call Cons.IH [OF Cons.prems(1)] trans show ?thesis by blast
  qed
qed (simp add: tx_keeps_def)

lemma sock_tx_user:
  "tx_keeps h P \<Longrightarrow> sock_tx h ws (s, u) wire = Inr (s', u', ws', wire') \<Longrightarrow> P u u'"
proof (induction ws arbitrary: s u wire)
  case Nil
  then show ?case by (auto simp: res_simps tx_keeps_def split: if_splits)
next
  case (Cons w ws)
  obtain r e where w: "w = WrRet r e" by (cases w)
  have refl: "P u u" and trans: "\<And>x y z. P x y \<Longrightarrow> P y z \<Longrightarrow> P x z"
    using Cons.prems(1) unfolding tx_keeps_def by blast+
  show ?case
  proof (cases "items (wbuf s) = 0 \<or> r = None")
    case True
    with Cons.prems(2) w refl show ?thesis by (auto simp: res_simps Let_def split: if_splits)
  next
    case False
    with Cons.prems(2) w obtain k wb s1 u1 wire1 where st:
      "tx_callbacks h k (s\<lparr>wbuf := wb\<rparr>, u) = Inr (s1, u1)" "sock_tx h ws (s1, u1) wire1 = Inr (s', u', ws', wire')"
      by (cases r) (auto simp: res_simps Let_def split: if_splits)
    from st(1) have "P u u1"
      by (auto simp: tx_callbacks_def res_simps dest: tx_fire_keeps [OF Cons.prems(1)] split: option.splits)
    with Cons.IH [OF Cons.prems(1) st(2)] trans show ?thesis by blast
  qed
qed

text \<open>Likewise for the receive callbacks and the receive loop.\<close>

definition rx_keeps :: "('c, 'd, 'u) rx_handler \<Rightarrow> ('u \<Rightarrow> 'u \<Rightarrow> bool) \<Rightarrow> bool" where
  "rx_keeps h P \<longleftrightarrow> (\<forall>u. P u u) \<and> (\<forall>u v w. P u v \<longrightarrow> P v w \<longrightarrow> P u w) \<and>
     (\<forall>cb this d s1 s2 u n u'. h cb this d s1 s2 0 u = Inr (n, u') \<longrightarrow> P u u')"

lemma rx_keepsD:
  assumes "rx_keeps h P"
  shows "P u u" "P u v \<Longrightarrow> P v w \<Longrightarrow> P u w" "h cb this d s1 s2 0 u = Inr (n, v) \<Longrightarrow> P u v"
  using assms unfolding rx_keeps_def by blast+

lemma rx_hdr_user: "rx_keeps h P \<Longrightarrow> rx_hdr h i (s, u) = Inr f \<Longrightarrow> P u (snd (flow_val f))"
  by (auto simp: rx_hdr_def segments_def Let_def res_simps rx_keepsD split: if_splits option.splits prod.splits)

lemma rx_body_user: "rx_keeps h P \<Longrightarrow> rx_body h i (s, u) = Inr f \<Longrightarrow> P u (snd (flow_val f))"
  by (auto simp: rx_body_def segments_def Let_def res_simps rx_keepsD split: if_splits option.splits prod.splits)

lemma rx_items_user:
  "rx_keeps h P \<Longrightarrow> rx_items h is (s, u) d = Inr ((s', u'), d') \<Longrightarrow> P u u'"
proof (induction "is" arbitrary: s u d)
  case (Cons i js)
  from Cons.prems(2) obtain f where f: "rx_hdr h i (s, u) = Inr f" by (auto simp: rx_items.simps res_simps)
  note 1 = rx_hdr_user [OF Cons.prems(1) f]
  show ?case
  proof (cases f)
    case (Break x)
    with Cons.prems(2) f 1 show ?thesis by (simp add: rx_items.simps)
  next
    case (Next x)
    obtain s1 u1 where x: "x = (s1, u1)" by (cases x)
    from Cons.prems(2) f Next obtain g where g: "rx_body h i (s1, u1) = Inr g" by (auto simp: rx_items.simps res_simps x)
    note 2 = rx_body_user [OF Cons.prems(1) g]
    show ?thesis
    proof (cases g)
      case (Break y)
      with Cons.prems(2) f Next x g 1 2 rx_keepsD(2) [OF Cons.prems(1)] show ?thesis by (auto simp: rx_items.simps)
    next
      case Next2: (Next y)
      obtain s2 u2 where y: "y = (s2, u2)" by (cases y)
      with Cons.prems(2) f Next x g Next2 have "rx_items h js (s2, u2) (Suc d) = Inr ((s', u'), d')" by (simp add: rx_items.simps)
      from Cons.IH [OF Cons.prems(1) this] 1 2 Next Next2 x y show ?thesis
        using rx_keepsD(2) [OF Cons.prems(1)] by auto
    qed
  qed
qed (auto simp: rx_items.simps rx_keepsD)

lemma sock_rx_user:
  "rx_keeps h P \<Longrightarrow> sock_rx h ks (s, u) = Inr (s', u', ks') \<Longrightarrow> P u u'"
proof (induction ks arbitrary: s u)
  case Nil
  then show ?case by (auto simp: res_simps rx_keepsD split: if_splits)
next
  case (Cons k ks)
  obtain d e where k: "k = RdRet d e" by (cases k)
  show ?case
  proof (cases "items (rx_cbs s) = 0 \<or> (d = None \<and> e = EAGAIN)")
    case True
    with Cons.prems k show ?thesis by (auto simp: res_simps Let_def rx_keepsD split: if_splits)
  next
    case False
    with Cons.prems(2) k obtain rb s1 u1 where st: "rx_deliver h (s\<lparr>rbuf := rb\<rparr>, u) = Inr (s1, u1)"
      "sock_rx h ks (s1, u1) = Inr (s', u', ks')"
      by (auto simp: res_simps Let_def split: if_splits option.splits)
    from st(1) have "P u u1"
      by (auto simp: rx_deliver_def res_simps dest: rx_items_user [OF Cons.prems(1)] split: option.splits)
    with Cons.IH [OF Cons.prems(1) st(2)] rx_keepsD(2) [OF Cons.prems(1)] show ?thesis by blast
  qed
qed

lemma sock_read_user:
  assumes "rx_keeps h P" "sock_read h ks (s, u) r = Inr (s', u', ks')"
  shows "P u u'"
  using assms(2) sock_rx_user [OF assms(1)] rx_keepsD(1) [OF assms(1)]
  by (auto simp: sock_read_def Let_def res_simps split: if_splits)

lemma sock_tx_rx_side:
  assumes "sock_inv s" "sock_tx h ws (s, u) wire = Inr (s', u', ws', wire')"
  shows "sock_inv s' \<and> rx_cbs s' = rx_cbs s \<and> rbuf s' = rbuf s \<and> self s' = self s \<and> rx_rdy s' = rx_rdy s"
proof (cases "used (tx_cbs s) < length (buf (tx_cbs s))")
  case True
  with assms(1) have "tx_ok s" by (simp add: sock_inv_def tx_inv_def)
  from sock_tx_sends [OF this True assms(2)] sock_tx_keeps [OF assms] show ?thesis
    by (auto simp: tx_same_def)
next
  case False
  with assms(1) have "wf_buffer (wbuf s)" "wf_buffer (tx_cbs s)" "used (tx_cbs s) = length (buf (tx_cbs s))"
    by (auto simp: sock_inv_def tx_inv_def wf_buffer_def)
  from sock_tx_full [OF this assms(2)] sock_tx_keeps [OF assms] show ?thesis
    by (auto simp: tx_same_def)
qed

lemma run_io_user:
  assumes "rx_keeps hr P" "tx_keeps ht P"
    and "sock_run_io hr ht ks ws so_error events (s, u) wire = Inr (s', u', ks', ws', wire')"
  shows "P u u'"
proof -
  from assms(3) obtain s1 u1 ks1 s2 where r: "(if and events EPOLLIN \<noteq> 0
      then sock_rx hr ks (s\<lparr>rx_rdy := True\<rparr>, u) else Inr (s, u, ks)) = Inr (s1, u1, ks1)"
    "u' = u1 \<or> sock_tx ht ws (s2\<lparr>tx_rdy := True\<rparr>, u1) wire = Inr (s', u', ws', wire')"
    by (auto simp: sock_run_io_def rbind_eq_Inr split: if_splits)
  from r(1) have "P u u1"
    using sock_rx_user [OF assms(1)] rx_keepsD(1) [OF assms(1)] by (auto split: if_splits)
  with r(2) sock_tx_user [OF assms(2)] rx_keepsD(2) [OF assms(1)] show ?thesis by blast
qed

text \<open>A new item's slot comes behind the slots in use.\<close>

lemma slots_emplace:
  assumes "wf_buffer b" "queue_emplace b x = Inr (p, b')"
  shows "wf_buffer b' \<and> slots b' = slots b @ [p] \<and> buf b' ! p = x \<and> length (buf b') = length (buf b) \<and>
    used b < length (buf b) \<and> p < length (buf b)"
proof -
  have room: "used b < length (buf b)"
  proof (rule ccontr)
    assume "\<not> used b < length (buf b)"
    then have "used b = length (buf b)" using assms(1) by (simp add: wf_buffer_def)
    from queue_emplace_full [OF assms(1) this] assms(2) show False by simp
  qed
  with queue_emplace_ok [OF assms(1) room, of x] assms(2)
  have b': "p = tail b" "wf_buffer b'" "length (buf b') = length (buf b)" "used b' = used b + 1"
    "buf b' = (buf b)[tail b := x]" "head b' = head b" by auto
  have "slots b' = slots b @ [p]" using assms(1) b' by (simp add: slots_def wf_buffer_def)
  with b' room wf_buffer_tail [OF assms(1)] show ?thesis by simp
qed

text \<open>Laying fields over the start of a reserved segment and committing the whole of it: the rest is
  what the memory held.\<close>

lemma commit_fields:
  assumes "sock_inv s" "write_prepare s n = Inr (p1, p2, n)" "length flds \<le> n"
    and "write_commit (set_wmem s (blit (buf (wbuf s)) p1 flds)) n = Inr s'"
  shows "\<exists>data. length data = n \<and> take (length flds) data = flds \<and> appended s data s'"
proof -
  let ?xs = "buf (wbuf s)"
  let ?data = "flds @ slice ?xs (p1 + length flds) (n - length flds)"
  have wf: "wf_buffer (wbuf s)" using assms(1) by (simp add: sock_inv_def tx_inv_def)
  have seg: "0 < n" "p1 + n \<le> length ?xs"
    using queue_prep_segments [OF wf assms(2) [unfolded write_prepare_def]] by auto
  then have len: "length ?data = n" using assms(3) by simp
  have bl: "blit ?xs p1 ?data = blit ?xs p1 flds"
  proof (rule nth_equalityI)
    show "length (blit ?xs p1 ?data) = length (blit ?xs p1 flds)" using seg len assms(3) by simp
    fix i assume "i < length (blit ?xs p1 ?data)"
    then have i: "i < length ?xs" using seg len by simp
    then show "blit ?xs p1 ?data ! i = blit ?xs p1 flds ! i"
      using seg len assms(3) by (subst (1 2) nth_blit) (auto simp: nth_append)
  qed
  have "scatter ?xs p1 n p2 ?data = blit ?xs p1 flds"
    using len bl by (simp add: scatter_def Let_def split: option.splits)
  moreover have "0 < length ?data" unfolding len by (rule seg(1))
  then have "?data \<noteq> []" by (intro notI) simp
  moreover have "write_prepare s (length ?data) = Inr (p1, p2, n)"
    unfolding len by (rule assms(2))
  ultimately have "appended s ?data s'"
    using commit_scattered [OF wf] len assms(4) by fastforce
  with len show ?thesis by (intro exI [of _ ?data]) simp
qed

text \<open>Sending on a socket that is not ready: everything is queued, nothing else happens, unless the packet
  straddles the end of the buffer.\<close>

lemma write_fields_ok:
  assumes "sock_inv s" "0 < n" "length flds \<le> n" "n \<le> space (wbuf s)" "\<not> straddles (wbuf s) n"
  shows "\<exists>p1 p2 s'. write_prepare s n = Inr (p1, p2, n) \<and>
    write_commit (set_wmem s (blit (buf (wbuf s)) p1 flds)) n = Inr s'"
proof -
  have wf: "wf_buffer (wbuf s)" using assms(1) by (simp add: sock_inv_def tx_inv_def)
  obtain p1 p2 n1 where p: "write_prepare s n = Inr (p1, p2, n1)"
    using queue_prep_ok_iff [OF wf, of n] assms(2,4) by (auto simp: is_ok_iff write_prepare_def)
  note seg = queue_prep_segments [OF wf p [unfolded write_prepare_def]]
  have n1: "n1 = n" using straddles_segments [OF wf p [unfolded write_prepare_def]] seg assms(5) by auto
  have "p1 + length flds \<le> length (buf (wbuf s))" using seg n1 assms(3) by simp
  then have "wf_buffer (wbuf (set_wmem s (blit (buf (wbuf s)) p1 flds)))"
    using wf by (simp add: set_wmem_def)
  moreover have "n \<le> space (wbuf (set_wmem s (blit (buf (wbuf s)) p1 flds)))"
    using assms(4) \<open>p1 + length flds \<le> length (buf (wbuf s))\<close> by (simp add: set_wmem_def space_def buffer_size_def)
  ultimately obtain w where "queue_commit (wbuf (set_wmem s (blit (buf (wbuf s)) p1 flds))) n = Inr w"
    using queue_commit_ok_iff assms(2) by (auto simp: is_ok_iff)
  with p n1 show ?thesis by (simp add: write_commit_def)
qed

lemma connect_frame: "sock_connect k s = Inr s' \<Longrightarrow> rx_cbs s' = rx_cbs s \<and> self s' = self s"
  by (auto simp: sock_connect_def res_simps Let_def split: if_splits)

lemma sock_read_wbuf:
  assumes "sock_inv s" "sock_read h ks (s, u) r = Inr (s', u', ks')"
  shows "wbuf s' = wbuf s"
proof -
  have wf: "wf_buffer (rx_cbs s)" "rx_ok s" using assms(1) by (simp_all add: sock_inv_def rx_ok_def)
  from assms(2) obtain p n q where q: "queue (rx_cbs s) 1 = Inr (p, n, q)"
    "(if rx_rdy s then sock_rx h ks (s\<lparr>rx_cbs := q\<lparr>buf := (buf q)[p := r]\<rparr>\<rparr>, u)
      else Inr (s\<lparr>rx_cbs := q\<lparr>buf := (buf q)[p := r]\<rparr>\<rparr>, u, ks)) = Inr (s', u', ks')"
    by (auto simp: sock_read_def rbind_eq_Inr Let_def)
  have "used (rx_cbs s) < length (buf (rx_cbs s))"
  proof (rule ccontr)
    assume "\<not> used (rx_cbs s) < length (buf (rx_cbs s))"
    then have "used (rx_cbs s) = length (buf (rx_cbs s))" using wf by (simp add: wf_buffer_def)
    with queue_full [OF wf(1), of 1] q(1) show False by simp
  qed
  from queue_one [OF wf(1) this] q(1) have "wf_buffer q" by auto
  then have "rx_ok (s\<lparr>rx_cbs := q\<lparr>buf := (buf q)[p := r]\<rparr>\<rparr>)" using wf(2) by (simp add: rx_ok_def)
  from sock_rx_kept [OF this, of h ks u s' u' ks'] q(2) show ?thesis
    by (auto simp: tx_side_def split: if_splits)
qed

lemma cb_point_frame:
  "write_cb_point s cb d = Inr s' \<Longrightarrow> rx_cbs s' = rx_cbs s \<and> rbuf s' = rbuf s \<and> self s' = self s \<and> wbuf s' = wbuf s"
  by (auto simp: write_cb_point_def Let_def res_simps)

lemma appended_frame: "appended s data s' \<Longrightarrow> rx_cbs s' = rx_cbs s \<and> rbuf s' = rbuf s \<and> self s' = self s"
  by (auto simp: appended_def)

lemma try_tx_frame:
  assumes "tx_keeps h P" "sock_inv s" "try_tx h ws (s, u) wire = Inr (s', u', ws', wire')"
  shows "sock_inv s' \<and> rx_cbs s' = rx_cbs s \<and> self s' = self s \<and> P u u' \<and>
    wire' @ contents (wbuf s') = wire @ contents (wbuf s)"
  using assms sock_tx_rx_side [OF assms(2), of h ws u wire s' u' ws' wire'] sock_tx_user [OF assms(1)]
    sock_tx_keeps [OF assms(2), of h ws u wire s' u' ws' wire']
  by (auto simp: try_tx_def tx_keeps_def split: if_splits)

subsection \<open>Handlers that may run into undefined behaviour\<close>

text \<open>\<open>approx m m'\<close>: \<open>m\<close> is \<open>m'\<close> unless it is undefined. The operations of the receive
  side respect it in their handler.\<close>

definition approx :: "'a res \<Rightarrow> 'a res \<Rightarrow> bool" where
  "approx m m' \<longleftrightarrow> (\<exists>msg. m = Inl (Undefined_behaviour msg)) \<or> m = m'"

lemma approx_refl [simp]: "approx m m"
  by (simp add: approx_def)

lemma approx_rbind:
  "approx m m' \<Longrightarrow> (\<And>x. m' = Inr x \<Longrightarrow> approx (f x) (f' x)) \<Longrightarrow> approx (rbind m f) (rbind m' f')"
  by (cases m') (auto simp: approx_def)

definition handler_approx :: "('c, 'd, 'u) rx_handler \<Rightarrow> ('c, 'd, 'u) rx_handler \<Rightarrow> bool" where
  "handler_approx h h' \<longleftrightarrow> (\<forall>cb this d s1 s2 st u. approx (h cb this d s1 s2 st u) (h' cb this d s1 s2 st u))"

lemma handler_approxD: "handler_approx h h' \<Longrightarrow> approx (h cb this d s1 s2 st u) (h' cb this d s1 s2 st u)"
  by (simp add: handler_approx_def)

lemma rx_hdr_approx:
  assumes "handler_approx h h'"
  shows "approx (rx_hdr h i (s, u)) (rx_hdr h' i (s, u))"
proof -
  note call = handler_approxD [OF assms]
  show ?thesis
    unfolding rx_hdr_def Let_def
    by (auto intro!: approx_rbind call split: option.splits prod.splits)
qed

lemma rx_body_approx:
  assumes "handler_approx h h'"
  shows "approx (rx_body h i (s, u)) (rx_body h' i (s, u))"
proof -
  note call = handler_approxD [OF assms]
  show ?thesis
    unfolding rx_body_def Let_def
    by (auto intro!: approx_rbind call split: option.splits prod.splits)
qed

lemma rx_items_approx: "handler_approx h h' \<Longrightarrow> approx (rx_items h is su d) (rx_items h' is su d)"
proof (induction "is" arbitrary: su d)
  case (Cons i js)
  obtain s u where "su = (s, u)" by (cases su)
  with Cons show ?case
    unfolding rx_items.simps
    by (auto intro!: approx_rbind rx_hdr_approx rx_body_approx split: flow.splits)
qed simp

lemma rx_deliver_approx: "handler_approx h h' \<Longrightarrow> approx (rx_deliver h su) (rx_deliver h' su)"
  unfolding rx_deliver_def by (auto intro!: approx_rbind rx_items_approx split: option.splits)

lemma sock_rx_approx: "handler_approx h h' \<Longrightarrow> approx (sock_rx h ks su) (sock_rx h' ks su)"
proof (induction ks arbitrary: su)
  case Nil
  then show ?case by (cases su) simp
next
  case (Cons k ks)
  obtain s u d e where "su = (s, u)" "k = RdRet d e" by (cases su, cases k)
  with Cons show ?case
    by (auto intro!: approx_rbind rx_deliver_approx simp: Let_def split: option.splits)
qed

subsection \<open>Responses arrive in the order of the requests\<close>

text \<open>Both generators queue a request and a pending read together and expect the responses in the order of the
  requests. \<open>awaiting\<close> are the requests whose response header has not arrived; only the read at the
  front can be past its header.\<close>

definition awaiting :: "('c, nat) IORx list \<Rightarrow> nat list" where
  "awaiting qs = map rxdata (filter (\<lambda>r. 0 < hdrlen r) qs)"

definition in_order :: "nat \<Rightarrow> ('c, nat) IORx list \<Rightarrow> nat list \<Rightarrow> bool" where
  "in_order sz qs ps \<longleftrightarrow> (\<forall>r \<in> set qs. hdrcb r \<noteq> None \<and> bodycb r = None \<and> (hdrlen r = 0 \<or> hdrlen r = sz)) \<and>
     (\<forall>r \<in> set (tl qs). hdrlen r = sz) \<and> awaiting qs = ps"

lemma in_order_Nil [simp]: "in_order sz [] ps \<longleftrightarrow> ps = []"
  by (auto simp: in_order_def awaiting_def)

definition fresh :: "nat \<Rightarrow> ('c, nat) IORx list \<Rightarrow> bool" where
  "fresh sz qs \<longleftrightarrow> (\<forall>r \<in> set qs. hdrcb r \<noteq> None \<and> bodycb r = None \<and> hdrlen r = sz)"

lemma in_order_Cons:
  "in_order sz (r # qs) ps \<longleftrightarrow> hdrcb r \<noteq> None \<and> bodycb r = None \<and> (hdrlen r = 0 \<or> hdrlen r = sz) \<and>
     fresh sz qs \<and> ps = (if hdrlen r = 0 then [] else [rxdata r]) @ awaiting qs"
  by (auto simp: in_order_def awaiting_def fresh_def)

lemma in_order_fresh: "fresh sz qs \<Longrightarrow> in_order sz qs (awaiting qs)"
  by (cases qs) (auto simp: in_order_def fresh_def)

lemma in_order_add:
  assumes "in_order sz qs ps" "0 < sz" "hdrlen r = sz" "hdrcb r \<noteq> None" "bodycb r = None" "rxdata r = p"
  shows "in_order sz (qs @ [r]) (ps @ [p])"
proof (cases qs)
  case Nil
  with assms show ?thesis by (simp add: in_order_Cons fresh_def) (simp add: awaiting_def)
next
  case (Cons q qs')
  have "fresh sz (qs' @ [r])" if "fresh sz qs'" using that assms(3-5) by (auto simp: fresh_def)
  moreover have "awaiting (qs' @ [r]) = awaiting qs' @ [p]" using assms by (simp add: awaiting_def)
  ultimately show ?thesis using assms(1) Cons by (simp add: in_order_Cons)
qed

lemma sock_rx_full:
  assumes "rx_ok s" "used (rx_cbs s) = length (buf (rx_cbs s))"
  shows "case sock_rx h ks (s, u) of
      Inl e \<Rightarrow> (\<exists>m. e = Invalid_argument m) \<or> (\<exists>n m. e = System_error n m) \<or>
        e = Runtime_error ''Sock::rx: read returned more bytes than asked''
    | Inr (s', u', ks') \<Rightarrow> rx_cbs s' = rx_cbs s \<and> u' = u"
  using assms
proof (induction ks arbitrary: s)
  case Nil
  then show ?case
    by (auto simp: queue_prep_def Let_def split: sum.splits)
next
  case (Cons k ks)
  obtain d e where k: "k = RdRet d e" by (cases k)
  have wf: "wf_buffer (rx_cbs s)" "wf_buffer (rbuf s)" using Cons.prems(1) by (auto simp: rx_ok_def)
  show ?case
  proof (cases "queue_prep (rbuf s) (space (rbuf s))")
    case (Inl x)
    then show ?thesis by (auto simp: k queue_prep_def Let_def split: if_splits)
  next
    case (Inr seg)
    obtain p1 p2 n1 where seg: "seg = (p1, p2, n1)" by (cases seg)
    show ?thesis
    proof (cases "\<exists>bs. d = Some bs \<and> bs \<noteq> [] \<and> length bs \<le> space (rbuf s)")
      case False
      then show ?thesis by (auto simp: k Inr seg Let_def split: option.splits)
    next
      case True
      then obtain bs where bs: "d = Some bs" "bs \<noteq> []" "length bs \<le> space (rbuf s)" by blast
      obtain rb where rb: "queue_commit ((rbuf s)\<lparr>buf := scatter (buf (rbuf s)) p1 n1 p2 bs\<rparr>) (length bs) = Inr rb"
        "wf_buffer rb"
        using scatter_commit [OF wf(2) Inr [unfolded seg] _ bs(3)] bs(2) by auto
      have "rx_deliver h (s\<lparr>rbuf := rb\<rparr>, u) = Inr (s\<lparr>rbuf := rb\<rparr>, u)"
        using deliver_full [of "s\<lparr>rbuf := rb\<rparr>"] wf(1) Cons.prems(2) by simp
      moreover have "rx_ok (s\<lparr>rbuf := rb\<rparr>)" using wf(1) rb(2) by (simp add: rx_ok_def)
      ultimately show ?thesis
        using Cons.IH [of "s\<lparr>rbuf := rb\<rparr>"] Cons.prems(2) bs rb(1)
        by (auto simp: k Inr seg Let_def not_le split: sum.splits)
    qed
  qed
qed

locale fifo_generator = stream_handler h
  for h :: "('c, nat, 'u) rx_handler" +
  fixes this sz :: nat
    and pend :: "'u \<Rightarrow> nat list"
    and good :: "'u \<Rightarrow> bool"
    and bad :: "exn \<Rightarrow> bool"
  assumes sz_pos: "0 < sz"
    and answer: "good u \<Longrightarrow> pend u = p # ps \<Longrightarrow> length bs = sz \<Longrightarrow>
      h cb this p bs None 0 u = Inr (len, u') \<Longrightarrow> good u' \<and> pend u' = ps"
    and answer_err: "good u \<Longrightarrow> pend u = p # ps \<Longrightarrow> length bs = sz \<Longrightarrow>
      h cb this p bs None 0 u = Inl e \<Longrightarrow> \<not> bad e"
    and bad_own: "bad e \<Longrightarrow> \<exists>m. e = Runtime_error m \<and> m \<noteq> ''Sock::rx: read returned more bytes than asked''"
begin

lemma hdr_in_order:
  assumes "good u" "in_order sz (r # qs) (pend u)"
  shows "case parse_hdr h this r bs u of
      Inl e \<Rightarrow> \<not> bad e
    | Inr (Break (r', bs', u')) \<Rightarrow> good u' \<and> in_order sz (r' # qs) (pend u')
    | Inr (Next (r', bs', u')) \<Rightarrow> good u' \<and> in_order sz qs (pend u') \<and> hdrlen r' = 0 \<and>
        hdrcb r' \<noteq> None \<and> bodycb r' = None \<and> (\<exists>k. pend u' = drop k (pend u))"
proof (cases "hdrlen r = 0")
  case True
  with assms show ?thesis
    by (auto simp: in_order_Cons in_order_fresh intro!: exI [of _ "0 :: nat"])
next
  case False
  obtain cb where cb: "hdrcb r = Some cb" and sz: "hdrlen r = sz"
    using assms(2) False by (auto simp: in_order_Cons)
  then have p: "pend u = rxdata r # awaiting qs"
    using assms(2) sz_pos by (simp add: in_order_Cons)
  show ?thesis
  proof (cases "length bs < sz")
    case True
    with assms cb sz False show ?thesis by (simp add: parse_hdr_def)
  next
    case ge: False
    then have len: "length (take sz bs) = sz" by simp
    show ?thesis
    proof (cases "h cb this (rxdata r) (take sz bs) None 0 u")
      case (Inl e)
      with answer_err [OF assms(1) p len Inl] ge cb sz False show ?thesis
        by (simp add: parse_hdr_def)
    next
      case (Inr x)
      obtain n u' where x: "x = (n, u')" by (cases x)
      from answer [OF assms(1) p len Inr [unfolded x]] have "good u'" "pend u' = awaiting qs" by auto
      moreover have "in_order sz qs (awaiting qs)" "bodycb r = None"
        using assms(2) by (simp_all add: in_order_Cons in_order_fresh)
      ultimately show ?thesis using Inr x ge cb sz False p
        by (auto simp: parse_hdr_def intro!: exI [of _ "1 :: nat"])
    qed
  qed
qed

lemma parse_in_order:
  assumes "good u" "in_order sz qs (pend u)"
  shows "case parse h this qs bs u of
      Inl e \<Rightarrow> \<not> bad e
    | Inr (qs', bs', u') \<Rightarrow> good u' \<and> in_order sz qs' (pend u') \<and> (\<exists>k. pend u' = drop k (pend u))"
  using assms
proof (induction qs arbitrary: bs u)
  case Nil
  then show ?case by (auto intro: exI [of _ "0 :: nat"])
next
  case (Cons r qs)
  note H = hdr_in_order [OF Cons.prems, of bs]
  show ?case
  proof (cases "parse_hdr h this r bs u" rule: flow_res_cases)
    case (err e)
    with H show ?thesis by (simp add: parse.simps)
  next
    case (break r' bs' u')
    then have "u' = u" by (auto simp: parse_hdr_def res_simps split: if_splits option.splits)
    with break H show ?thesis by (auto simp: parse.simps intro!: exI [of _ "0 :: nat"])
  next
    case (nxt r' bs' u')
    with H obtain j where j: "good u'" "in_order sz qs (pend u')" "hdrlen r' = 0" "hdrcb r' \<noteq> None"
      "bodycb r' = None" "pend u' = drop j (pend u)" by auto
    show ?thesis
    proof (cases "0 < bodylen r' \<and> length bs' < bodylen r'")
      case True
      have "in_order sz (r'\<lparr>bodylen := n\<rparr> # qs) (pend u')" for n
      proof -
        have "awaiting qs = pend u'" using j(2) by (simp add: in_order_def)
        with Cons.prems(2) j(3-5) show ?thesis by (simp add: in_order_Cons)
      qed
      with True nxt j show ?thesis by (auto simp: parse.simps parse_body_def)
    next
      case False
      then have "parse_body h this r' bs' u' = Inr (Next (r'\<lparr>bodylen := 0\<rparr>, drop (bodylen r') bs', u'))"
        using j(5) by (auto simp: parse_body_def)
      with nxt j Cons.IH [OF j(1,2), of "drop (bodylen r') bs'"] show ?thesis
        by (auto simp: parse.simps split: sum.splits)
    qed
  qed
qed

lemma sock_in_order:
  assumes "rx_ok s" "self s = this" "good u" "in_order sz (contents (rx_cbs s)) (pend u)"
  shows "case sock_rx h ks (s, u) of
      Inl e \<Rightarrow> \<not> bad e
    | Inr (s', u', ks') \<Rightarrow> good u' \<and> in_order sz (contents (rx_cbs s')) (pend u') \<and>
        (\<exists>k. pend u' = drop k (pend u))"
proof (cases "used (rx_cbs s) = length (buf (rx_cbs s))")
  case True
  from sock_rx_full [OF assms(1) True, where h = h and ks = ks and u = u] assms(3,4) bad_own show ?thesis
    by (auto split: sum.splits intro!: exI [of _ "0 :: nat"])
next
  case False
  then have room: "used (rx_cbs s) < length (buf (rx_cbs s))"
    using assms(1) by (simp add: rx_ok_def wf_buffer_def)
  show ?thesis
  proof (cases "sock_rx h ks (s, u)")
    case (Inl e)
    have "\<not> bad e" if "parse h (self s) (contents (rx_cbs s)) bs u = Inl e" for bs
      using parse_in_order [OF assms(3,4), of bs] that assms(2) by simp
    with sock_rx_errors [OF assms(1) Inl] have "\<not> bad e"
      by cases (auto simp: stream_state_def dest: bad_own split: if_splits)
    with Inl show ?thesis by simp
  next
    case (Inr x)
    obtain s' u' ks' where x: "x = (s', u', ks')" by (cases x)
    from sock_rx_delivers [OF assms(1) room Inr [unfolded x]] obtain pre where
      alt: "let data = rd_stream pre in
      (data = [] \<and> contents (rx_cbs s') = contents (rx_cbs s) \<and>
        contents (rbuf s') = contents (rbuf s) \<and> u' = u) \<or>
      (data \<noteq> [] \<and> parse h (self s) (contents (rx_cbs s)) (contents (rbuf s) @ data) u =
        Inr (contents (rx_cbs s'), contents (rbuf s'), u'))" by blast
    with parse_in_order [OF assms(3,4), of "contents (rbuf s) @ rd_stream pre"] Inr x assms(2-4)
    show ?thesis by (auto simp: Let_def intro: exI [of _ "0 :: nat"])
  qed
qed

lemma read_in_order:
  assumes "sock_inv s" "self s = this" "good u" "in_order sz (contents (rx_cbs s)) ps" "pend u = ps @ [p]"
    and "hdrlen r = sz" "hdrcb r \<noteq> None" "bodycb r = None" "rxdata r = p"
  shows "case sock_read h ks (s, u) r of
      Inl e \<Rightarrow> \<not> bad e
    | Inr (s', u', ks') \<Rightarrow> sock_inv s' \<and> self s' = this \<and> tx_side s' = tx_side s \<and> good u' \<and>
        in_order sz (contents (rx_cbs s')) (pend u') \<and> (\<exists>k. pend u' = drop k (pend u))"
proof -
  have wf: "wf_buffer (rx_cbs s)" using assms(1) by (simp add: sock_inv_def rx_ok_def)
  show ?thesis
  proof (cases "used (rx_cbs s) < length (buf (rx_cbs s))")
    case False
    then have "used (rx_cbs s) = length (buf (rx_cbs s))" using wf by (simp add: wf_buffer_def)
    then have "sock_read h ks (s, u) r = Inl (System_error ENOSPC ''buffer::queue_prep: buffer full'')"
      using queue_full [OF wf, of 1] by (simp add: sock_read_def)
    then show ?thesis using bad_own by fastforce
  next
    case True
    obtain t where t: "queue (rx_cbs s) 1 = Inr (tail (rx_cbs s), 1, (rx_cbs s)\<lparr>tail := t, used := used (rx_cbs s) + 1\<rparr>)"
      "wf_buffer ((rx_cbs s)\<lparr>tail := t, used := used (rx_cbs s) + 1\<rparr>)"
      using queue_one [OF wf True] by blast
    define s1 where "s1 = s\<lparr>rx_cbs := (rx_cbs s)\<lparr>buf := (buf (rx_cbs s))[tail (rx_cbs s) := r],
      tail := t, used := used (rx_cbs s) + 1\<rparr>\<rparr>"
    have s1: "rx_ok s1" "self s1 = this" "tx_side s1 = tx_side s"
      using assms(1,2) t(2) by (simp_all add: s1_def sock_inv_def rx_ok_def tx_side_def)
    have "contents (rx_cbs s1) = contents (rx_cbs s) @ [r]"
      using contents_store_one [OF wf True] by (simp add: s1_def)
    then have ord: "in_order sz (contents (rx_cbs s1)) (pend u)"
      using in_order_add [OF assms(4) sz_pos assms(6-9)] assms(5) by simp
    have inv1: "sock_inv s1" using s1(1,3) assms(1) tx_side_inv [of s1 s] by (simp add: sock_inv_def)
    have rd: "sock_read h ks (s, u) r = (if rx_rdy s1 then sock_rx h ks (s1, u) else Inr (s1, u, ks))"
      using t(1) by (simp add: sock_read_def s1_def Let_def)
    show ?thesis
    proof (cases "rx_rdy s1")
      case False
      with rd s1 ord inv1 assms(3) show ?thesis by (auto intro: exI [of _ "0 :: nat"])
    next
      case rdy: True
      from sock_in_order [OF s1(1,2) assms(3) ord, of ks] sock_rx_kept [OF s1(1), of h ks u]
        rx_keeps_inv [OF inv1, of h ks u]
      show ?thesis using rd rdy s1(2,3) by (cases "sock_rx h ks (s1, u)") auto
    qed
  qed
qed

lemma run_io_in_order:
  assumes "tx_keeps ht (\<lambda>u v. pend v = pend u \<and> (good u \<longrightarrow> good v))"
    and "sock_inv s" "self s = this" "good u" "in_order sz (contents (rx_cbs s)) (pend u)"
    and "sock_run_io h ht ks ws so_error events (s, u) wire = Inr (s', u', ks', ws', wire')"
  shows "sock_inv s' \<and> self s' = this \<and> good u' \<and> in_order sz (contents (rx_cbs s')) (pend u') \<and>
    (\<exists>k. pend u' = drop k (pend u))"
proof -
  from assms(6) obtain s1 u1 ks1 where r: "(if and events EPOLLIN \<noteq> 0
      then sock_rx h ks (s\<lparr>rx_rdy := True\<rparr>, u) else Inr (s, u, ks)) = Inr (s1, u1, ks1)"
    "(if and events EPOLLOUT \<noteq> 0 then
       rbind (if \<not> connected s1
              then rbind (socket_check_connected so_error) (\<lambda>_. Inr (s1\<lparr>connected := True\<rparr>))
              else Inr s1) (\<lambda>s.
       rbind (sock_tx ht ws (s\<lparr>tx_rdy := True\<rparr>, u1) wire) (\<lambda>(s, u, ws, wire).
       Inr (s, u, ks1, ws, wire)))
     else Inr (s1, u1, ks1, ws, wire)) = Inr (s', u', ks', ws', wire')"
    by (auto simp: sock_run_io_def rbind_eq_Inr)
  let ?sr = "s\<lparr>rx_rdy := True\<rparr>"
  have sr: "rx_ok ?sr" "self ?sr = this" "in_order sz (contents (rx_cbs ?sr)) (pend u)" "sock_inv ?sr"
    using assms(2,3,5) inv_flags(1) [OF assms(2)] by (simp_all add: sock_inv_def)
  have 1: "sock_inv s1 \<and> self s1 = this \<and> good u1 \<and> in_order sz (contents (rx_cbs s1)) (pend u1) \<and>
    (\<exists>k. pend u1 = drop k (pend u))"
  proof (cases "and events EPOLLIN \<noteq> 0")
    case True
    with r(1) have rx: "sock_rx h ks (?sr, u) = Inr (s1, u1, ks1)" by simp
    from sock_in_order [OF sr(1,2) assms(4) sr(3), of ks] rx_keeps_inv [OF sr(4) rx]
      sock_rx_kept [OF sr(1) rx] rx sr(2) show ?thesis by auto
  next
    case False
    with r(1) assms(2-5) show ?thesis by (auto intro: exI [of _ "0 :: nat"])
  qed
  show ?thesis
  proof (cases "and events EPOLLOUT \<noteq> 0")
    case False
    with r(2) 1 show ?thesis by simp
  next
    case True
    with r(2) obtain s2 where s2: "s2 = s1\<lparr>connected := True\<rparr> \<or> s2 = s1"
      "sock_tx ht ws (s2\<lparr>tx_rdy := True\<rparr>, u1) wire = Inr (s', u', ws', wire')"
      by (auto simp: rbind_eq_Inr split: if_splits)
    have "sock_inv s2" "self s2 = this" "rx_cbs s2 = rx_cbs s1" using s2(1) 1 inv_flags(3) by auto
    moreover have "sock_inv (s2\<lparr>tx_rdy := True\<rparr>)" using calculation(1) by (rule inv_flags(2))
    ultimately show ?thesis
      using sock_tx_rx_side [OF _ s2(2)] sock_tx_user [OF assms(1) s2(2)] 1 by auto
  qed
qed

end

lemma sock_read_approx:
  "handler_approx h h' \<Longrightarrow> approx (sock_read h ks (s, u) r) (sock_read h' ks (s, u) r)"
  by (auto simp: sock_read_def Let_def intro!: approx_rbind sock_rx_approx split: prod.splits)

lemma run_io_approx:
  "handler_approx h h' \<Longrightarrow> approx (sock_run_io h ht ks ws so ev (s, u) wire) (sock_run_io h' ht ks ws so ev (s, u) wire)"
  unfolding sock_run_io_def by (auto intro!: approx_rbind sock_rx_approx split: prod.splits)

lemma approx_Inr: "approx m m' \<Longrightarrow> m = Inr x \<Longrightarrow> m' = Inr x"
  by (auto simp: approx_def)

subsection \<open>Cancelling\<close>

text \<open>Both generators answer a cancelled read by dropping their oldest request.\<close>

definition drops_on_cancel :: "(unit, nat, ('r, 'w, 'y) gen_scheme) rx_handler \<Rightarrow> bool" where
  "drops_on_cancel h \<longleftrightarrow> (\<forall>cb d u. h cb (sock_ref u) d [] None (- EIO) u =
     rbind (drop_items (requests u) 1) (\<lambda>q. Inr (0, u\<lparr>requests := q\<rparr>)))"

lemma cancel_drops:
  assumes "drops_on_cancel h" "wf_buffer (requests u)" "\<forall>r \<in> set qs. hdrcb r \<noteq> None \<and> bodycb r = None"
  shows "if length qs \<le> used (requests u)
    then \<exists>q. cancel_rx h (sock_ref u) qs u = Inr (u\<lparr>requests := q\<rparr>) \<and> used q = used (requests u) - length qs
    else cancel_rx h (sock_ref u) qs u = Inl (System_error ENOSPC ''buffer::drop: buffer empty'')"
  using assms(2,3)
proof (induction qs arbitrary: u)
  case Nil
  show ?case by (auto intro: exI [of _ "requests u"])
next
  case (Cons r qs)
  obtain cb where r: "hdrcb r = Some cb" "bodycb r = None" using Cons.prems(2) by auto
  have call: "h cb (sock_ref u) (rxdata r) [] None (- EIO) u =
     rbind (drop_items (requests u) 1) (\<lambda>q. Inr (0, u\<lparr>requests := q\<rparr>))"
    using assms(1) by (simp add: drops_on_cancel_def)
  show ?case
  proof (cases "used (requests u) = 0")
    case True
    then have "drop_items (requests u) 1 = Inl (System_error ENOSPC ''buffer::drop: buffer empty'')"
      by (simp add: drop_items_def)
    with True r call show ?thesis by simp
  next
    case False
    then obtain q where q: "drop_items (requests u) 1 = Inr q" "wf_buffer q" "used q = used (requests u) - 1"
      using drop_items_ok [OF Cons.prems(1), of 1] by auto
    have "cancel_rx h (sock_ref u) (r # qs) u = cancel_rx h (sock_ref (u\<lparr>requests := q\<rparr>)) qs (u\<lparr>requests := q\<rparr>)"
      using r call q(1) by simp
    with Cons.IH [of "u\<lparr>requests := q\<rparr>"] q(2,3) Cons.prems(2) False show ?thesis
      by (cases "length qs \<le> used q") (auto simp: Suc_le_eq)
  qed
qed

lemma in_order_length:
  "in_order sz qs ps \<Longrightarrow> 0 < sz \<Longrightarrow>
    length qs = length ps + (if qs \<noteq> [] \<and> hdrlen (hd qs) = 0 then 1 else 0)"
  by (cases qs) (auto simp: in_order_Cons awaiting_def fresh_def)

lemma cancel_in_order:
  assumes "drops_on_cancel h" "wf_buffer (requests u)" "in_order sz qs (slots (requests u))" "0 < sz"
  shows "if qs \<noteq> [] \<and> hdrlen (hd qs) = 0
    then cancel_rx h (sock_ref u) qs u = Inl (System_error ENOSPC ''buffer::drop: buffer empty'')
    else \<exists>q. cancel_rx h (sock_ref u) qs u = Inr (u\<lparr>requests := q\<rparr>) \<and> used q = 0"
proof -
  have "\<forall>r \<in> set qs. hdrcb r \<noteq> None \<and> bodycb r = None" using assms(3) by (auto simp: in_order_def)
  from cancel_drops [OF assms(1,2) this] in_order_length [OF assms(3,4)] show ?thesis by auto
qed

subsection \<open>Properties\<close>

text \<open>Inside \<open>send_request\<close> and \<open>run_io\<close> a generator is never deleted under the feet of its own callbacks,
  as long as they give back no more references than are held; it is deleted by the closing \<open>put\<close> exactly when
  none is left.\<close>

theorem guarded_lifetime:
  assumes "\<not> freed g" "0 \<le> ref_cnt g" "covered (ref_cnt g) xs"
  shows "(\<forall>k. \<exists>g1. rbind (gen_get g) (ref_ops (take k xs)) = Inr g1 \<and> \<not> freed g1) \<and>
    guarded (\<lambda>g. rbind (ref_ops xs g) (\<lambda>g. Inr ((), g))) g =
      Inr ((), \<lparr>ref_cnt = ref_cnt g + ref_delta xs, freed = (ref_cnt g + ref_delta xs = 0)\<rparr>)"
proof -
  let ?g = "g\<lparr>ref_cnt := ref_cnt g + 1\<rparr>"
  have get: "gen_get g = Inr ?g" using assms(1) by (simp add: gen_get_def)
  have ops: "ref_ops ys ?g = Inr (?g\<lparr>ref_cnt := ref_cnt ?g + ref_delta ys\<rparr>) \<and> 0 \<le> ref_cnt g + ref_delta ys"
    if "covered (ref_cnt g) ys" for ys
    using ref_ops_live [of ?g 1 "ref_cnt g" ys] assms(1,2) that by simp
  have "\<exists>g1. rbind (gen_get g) (ref_ops (take k xs)) = Inr g1 \<and> \<not> freed g1" for k
    using ops [OF covered_take [OF assms(3)], of k] assms(1) by (simp add: get)
  moreover have "guarded (\<lambda>g. rbind (ref_ops xs g) (\<lambda>g. Inr ((), g))) g =
      Inr ((), \<lparr>ref_cnt = ref_cnt g + ref_delta xs, freed = (ref_cnt g + ref_delta xs = 0)\<rparr>)"
    using ops [OF assms(3)] assms(1) by (simp add: guarded_def get) (cases g, simp add: gen_put_def Let_def)
  ultimately show ?thesis by blast
qed

theorem guarded_lifetime_witness:
  "guarded (\<lambda>g. rbind (ref_ops [Ref_put] g) (\<lambda>g. Inr ((), g))) \<lparr>ref_cnt = 1, freed = False\<rparr> =
    Inr ((), \<lparr>ref_cnt = 0, freed = True\<rparr>)"
  using guarded_lifetime [of "\<lparr>ref_cnt = 1, freed = False\<rparr>" "[Ref_put]"] by simp

end
