(* ===== verification/Decimal.thy ===== *)
theory Decimal
  imports Mut_Base "HOL-Library.Char_ord"
begin

section \<open>Decimal numerals of the C library\<close>

text \<open>
  What the program uses of \<open>snprintf\<close>, \<open>atoi\<close>, \<open>atoll\<close> and \<open>sscanf\<close>: printing an unsigned integer with
  zero padding to a width (\<^verbatim>\<open>%0<w>lu\<close>), truncated to the buffer, and reading one.
\<close>

definition is_digit :: "char \<Rightarrow> bool" where
  "is_digit c \<longleftrightarrow> CHR ''0'' \<le> c \<and> c \<le> CHR ''9''"

definition digit :: "nat \<Rightarrow> char" where
  "digit d = char_of (48 + d)"

definition digit_val :: "char \<Rightarrow> nat" where
  "digit_val c = of_char c - 48"

fun dec_from :: "nat \<Rightarrow> string \<Rightarrow> nat" where
  "dec_from a [] = a"
| "dec_from a (c # cs) = dec_from (10 * a + digit_val c) cs"

definition dec :: "string \<Rightarrow> nat" where
  "dec = dec_from 0"

fun show_nat :: "nat \<Rightarrow> string" where
  "show_nat n = (if n < 10 then [digit n] else show_nat (n div 10) @ [digit (n mod 10)])"

declare show_nat.simps [simp del]

definition pad_nat :: "nat \<Rightarrow> nat \<Rightarrow> string" where
  "pad_nat w n = replicate (w - length (show_nat n)) (CHR ''0'') @ show_nat n"

text \<open>\<open>snprintf (buf, size, ...)\<close> stores at most \<open>size - 1\<close> characters and the terminating zero.\<close>

definition snprintf :: "nat \<Rightarrow> string \<Rightarrow> string" where
  "snprintf n s = take (n - 1) s"

lemma digit_val_digit [simp]: "d < 10 \<Longrightarrow> digit_val (digit d) = d"
  by (simp add: digit_def digit_val_def)

lemma is_digit_digit [simp]: "d < 10 \<Longrightarrow> is_digit (digit d)"
  by (simp add: is_digit_def digit_def less_eq_char_def)

lemma digit_val_0 [simp]: "digit_val (CHR ''0'') = 0"
  by (simp add: digit_val_def)

lemma dec_from_append: "dec_from a (xs @ ys) = dec_from (dec_from a xs) ys"
  by (induction xs arbitrary: a) auto

lemma dec_show [simp]: "dec (show_nat n) = n"
proof (induction n rule: show_nat.induct)
  case (1 n)
  then show ?case
    by (cases "n < 10") (simp_all add: show_nat.simps [of n] dec_def dec_from_append)
qed

lemma show_digits: "c \<in> set (show_nat n) \<Longrightarrow> is_digit c"
proof (induction n rule: show_nat.induct)
  case (1 n)
  then show ?case by (cases "n < 10") (auto simp: show_nat.simps [of n])
qed

lemma show_not_Nil [simp]: "show_nat n \<noteq> []"
  by (simp add: show_nat.simps)

lemma length_show: "n < 10 ^ Suc k \<Longrightarrow> length (show_nat n) \<le> Suc k"
proof (induction k arbitrary: n)
  case 0
  then show ?case by (simp add: show_nat.simps)
next
  case (Suc k)
  show ?case
  proof (cases "n < 10")
    case False
    have "n div 10 < 10 ^ Suc k" using Suc.prems by (simp add: less_mult_imp_div_less mult.commute)
    with Suc.IH False show ?thesis by (simp add: show_nat.simps [of n])
  qed (simp add: show_nat.simps)
qed

lemma length_show_le: "n < 10 ^ k \<Longrightarrow> 0 < k \<Longrightarrow> length (show_nat n) \<le> k"
  using length_show [of n "k - 1"] by simp

lemma length_show_gt: "10 ^ k \<le> n \<Longrightarrow> k < length (show_nat n)"
proof (induction k arbitrary: n)
  case (Suc k)
  then have "\<not> n < 10" by (metis One_nat_def le_trans less_le_not_le one_le_numeral power_increasing power_one_right Suc_leI zero_less_Suc)
  moreover have "10 ^ k \<le> n div 10" using Suc.prems by (simp add: less_eq_div_iff_mult_less_eq mult.commute)
  ultimately show ?case using Suc.IH by (simp add: show_nat.simps [of n])
qed (simp add: show_nat.simps)

lemma dec_zeros: "dec_from 0 (replicate k (CHR ''0'') @ s) = dec_from 0 s"
  by (induction k) auto

lemma dec_pad [simp]: "dec (pad_nat w n) = n"
  using dec_show [of n] by (simp add: pad_nat_def dec_def dec_zeros)

lemma length_pad [simp]: "length (pad_nat w n) = max w (length (show_nat n))"
  by (simp add: pad_nat_def)

text \<open>A number that fits the width is printed whole, so padded numerals of such numbers differ.\<close>

lemma key_whole: "n < 10 ^ w \<Longrightarrow> 0 < w \<Longrightarrow> snprintf (w + 1) (pad_nat w n) = pad_nat w n"
  using length_show_le [of n w] by (simp add: snprintf_def)

lemma keys_distinct:
  assumes "m < 10 ^ w" "n < 10 ^ w" "0 < w"
    and "snprintf (w + 1) (pad_nat w m) = snprintf (w + 1) (pad_nat w n)"
  shows "m = n"
  using assms dec_pad by (metis key_whole)

subsection \<open>Reading\<close>

definition is_space :: "char \<Rightarrow> bool" where
  "is_space c \<longleftrightarrow> c = CHR '' '' \<or> (CHR 0x09 \<le> c \<and> c \<le> CHR 0x0D)"

text \<open>\<open>atoi\<close> and \<open>atoll\<close>: white space, a sign, digits; 0 when there is no digit. A value the result
  type cannot hold is undefined.\<close>

definition ato :: "nat \<Rightarrow> string \<Rightarrow> int res" where
  "ato w s0 =
     (let s = dropWhile is_space s0;
          neg = (s \<noteq> [] \<and> hd s = CHR ''-'');
          s = (if s \<noteq> [] \<and> (hd s = CHR ''-'' \<or> hd s = CHR ''+'') then tl s else s);
          v = int (dec (takeWhile is_digit s));
          v = (if neg then - v else v)
      in if - (2 ^ (w - 1)) \<le> v \<and> v < 2 ^ (w - 1) then Inr v
         else Inl (Undefined_behaviour ''atoi out of range''))"

definition atoi :: "string \<Rightarrow> int res" where "atoi = ato 32"
definition atoll :: "string \<Rightarrow> int res" where "atoll = ato 64"

text \<open>\<open>%<w>hu\<close> of \<open>sscanf\<close>: \<open>None\<close> when no conversion is made.\<close>

definition scan_hu :: "nat \<Rightarrow> string \<Rightarrow> 16 word option res" where
  "scan_hu w s0 =
     (let s = take w (dropWhile is_space s0);
          neg = (s \<noteq> [] \<and> hd s = CHR ''-'');
          s = (if s \<noteq> [] \<and> (hd s = CHR ''-'' \<or> hd s = CHR ''+'') then tl s else s);
          ds = takeWhile is_digit s
      in if ds = [] then Inr None
         else if dec ds < 2 ^ 16 \<and> (neg \<longrightarrow> dec ds = 0) then Inr (Some (word_of_nat (dec ds)))
         else Inl (Undefined_behaviour ''sscanf: value out of range''))"

text \<open>\<open>%<w>[^:]:%20hu\<close> into an array of \<open>cap\<close> characters and a short: the number of conversions
  with what they stored. The set conversion stores up to \<open>w\<close> characters and a terminating zero.\<close>

definition scan_addr :: "nat \<Rightarrow> nat \<Rightarrow> string \<Rightarrow> (string \<times> 16 word) option res" where
  "scan_addr w cap s =
     (let host = take w (takeWhile (\<lambda>c. c \<noteq> CHR '':'') s) in
      if host = [] then Inr None
      else if cap < length host + 1 then Inl (Undefined_behaviour ''sscanf: buffer overflow'')
      else case drop (length host) s of
        [] \<Rightarrow> Inr None
      | c # rest \<Rightarrow>
          if c \<noteq> CHR '':'' then Inr None
          else rbind (scan_hu 20 rest) (\<lambda>p. Inr (map_option (Pair host) p)))"

lemma not_space_digit: "is_digit c \<Longrightarrow> \<not> is_space c" "is_digit c \<Longrightarrow> c \<noteq> CHR ''-'' \<and> c \<noteq> CHR ''+''"
  by (auto simp: is_digit_def is_space_def less_eq_char_def)

lemma digits_numeral: "takeWhile is_digit (show_nat n) = show_nat n" "dropWhile is_space (show_nat n) = show_nat n"
  "hd (show_nat n) \<noteq> CHR ''-''" "hd (show_nat n) \<noteq> CHR ''+''"
proof -
  have d: "\<forall>c \<in> set (show_nat n). is_digit c" using show_digits by blast
  then show "takeWhile is_digit (show_nat n) = show_nat n" by (simp add: takeWhile_eq_all_conv)
  have h: "is_digit (hd (show_nat n))" using d by simp
  then have "\<not> is_space (hd (show_nat n))" by (rule not_space_digit)
  then show "dropWhile is_space (show_nat n) = show_nat n" by (cases "show_nat n") simp_all
  show "hd (show_nat n) \<noteq> CHR ''-''" "hd (show_nat n) \<noteq> CHR ''+''" using not_space_digit(2) [OF h] by auto
qed

lemma scan_hu_show:
  assumes "n < 2 ^ 16"
  shows "scan_hu 20 (show_nat n) = Inr (Some (word_of_nat n))"
proof -
  have "length (show_nat n) \<le> 5" using length_show_le [of n 5] assms by simp
  then have "take 20 (show_nat n) = show_nat n" by simp
  with assms show ?thesis by (simp add: scan_hu_def digits_numeral Let_def)
qed

lemma ato_show: "n < 2 ^ (w - 1) \<Longrightarrow> ato w (show_nat n) = Inr (int n)"
  by (simp add: ato_def digits_numeral Let_def) (smt (verit) of_nat_0_le_iff of_nat_less_numeral_power_cancel_iff zero_less_power)

lemma scan_addr_ok:
  assumes "host \<noteq> []" "CHR '':'' \<notin> set host" "length host \<le> w" "length host < cap" "port < 2 ^ 16"
  shows "scan_addr w cap (host @ '':'' @ show_nat port) = Inr (Some (host, word_of_nat port))"
proof -
  have "takeWhile (\<lambda>c. c \<noteq> CHR '':'') (host @ '':'' @ show_nat port) = host"
    using assms(2) by (subst takeWhile_append2) auto
  with assms scan_hu_show [OF assms(5)] show ?thesis by (simp add: scan_addr_def)
qed

lemma scan_addr_overflow:
  assumes "w \<le> length host" "CHR '':'' \<notin> set host" "cap \<le> w" "0 < w"
  shows "scan_addr w cap (host @ rest) = Inl (Undefined_behaviour ''sscanf: buffer overflow'')"
proof -
  have "takeWhile (\<lambda>c. c \<noteq> CHR '':'') (host @ rest) = host @ takeWhile (\<lambda>c. c \<noteq> CHR '':'') rest"
    using assms(2) by (intro takeWhile_append2) auto
  with assms show ?thesis by (auto simp: scan_addr_def Let_def)
qed

lemma scan_addr_safe:
  assumes "w < cap" "scan_addr w cap s = Inl (Undefined_behaviour m)"
  shows "m \<noteq> ''sscanf: buffer overflow''"
  using assms by (auto simp: scan_addr_def scan_hu_def Let_def res_simps split: if_splits list.splits)

end
