(* ===== verification/Options.thy ===== *)
theory Options
  imports Complex_Main Decimal
begin

section \<open>Options (client/opts.hh, client/opts_synthetic.cc, client/opts_memcache.cc)\<close>

text \<open>
  The \<open>Config\<close> record with its defaults, and the two command-line parsers. What \<open>getopt\<close> answers is an
  argument: the options it returned in order, each with its \<open>optarg\<close>, and the arguments from
  \<open>optind\<close> on; an option character it does not know comes as \<open>'?'\<close>. Reading a floating-point number
  (\<open>%20lf\<close>, \<open>atof\<close>) is an argument \<open>scan_double\<close> too, and \<open>rnd\<close> rounds to a double. Printing the
  usage ends the program with \<open>Exit\<close>.
\<close>

datatype protocols = SYNTHETIC | MEMCACHE
datatype conn_modes = PER_REQUEST | ROUND_ROBIN | RANDOM
datatype service_distributions = FIXED | EXPONENTIAL | LOG_NORMAL

record Config =
  protocol :: protocols
  addr :: string
  port :: "16 word"
  lbl :: string
  service_us :: real
  req_s :: real
  warmup_seconds :: "64 word"
  cooldown_seconds :: "64 word"
  nsamples :: "64 word"
  machine_readable :: bool
  use_epoll_spin :: bool
  use_busy_timer :: bool
  save_iatimes :: "string option"
  conn_mode :: conn_modes
  conn_cnt :: "64 word"
  service_dist :: service_distributions
  missed_window_us :: "64 word"
  send_only :: bool
  records :: "64 word"
  keysize :: "64 word"
  valsize :: "64 word"
  setget :: real
  gen_argc :: nat
  gen_argv :: "nat option"

definition config_default :: Config where
  "config_default =
     \<lparr>protocol = SYNTHETIC, addr = [], port = 0, lbl = ''default'', service_us = 0, req_s = 0,
      warmup_seconds = 5, cooldown_seconds = 5, nsamples = 0, machine_readable = False,
      use_epoll_spin = False, use_busy_timer = False, save_iatimes = None, conn_mode = ROUND_ROBIN,
      conn_cnt = 10, service_dist = EXPONENTIAL, missed_window_us = 100, send_only = False,
      records = 10000, keysize = 30, valsize = 4 * 1024, setget = 0, gen_argc = 0, gen_argv = None\<rparr>"

definition EXIT_SUCCESS :: int where "EXIT_SUCCESS = 0"
definition EXIT_FAILURE :: int where "EXIT_FAILURE = 1"

text \<open>The usage messages, line by line; \<open>prog\<close> is the name the program was called by. With a status of failure they are
  preceded by a complaint.\<close>

definition usage_exit :: "string list \<Rightarrow> int \<Rightarrow> 'a res" where
  "usage_exit ls st = Inl (Exit st (Text ((if st \<noteq> EXIT_SUCCESS then [''invalid arguments!'', ''''] else []) @ ls)))"

definition common_usage :: "string list" where
  "common_usage = [''Common options:'',
      ''  -h    : help'',
      ''  -r    : print raw samples'',
      ''  -e    : use Shinjuku's epoll_spin() system call'',
      ''  -b    : use busy spin for timers'',
      ''  -i STR: file to save inter-arrival times to'',
      ''  -w INT: warm-up seconds (default: 5s)'',
      ''  -c INT: cool-down seconds (default: 5s)'',
      ''  -s INT: measurement seconds (default: 10s)'',
      ''  -W INT: missed send threshold microseconds (default: 100us)'',
      ''  -l STR: label for machine-readable output (-r)'',
      ''  -m OPT: connection mode (default: round_robin)'',
      ''  -d OPT: service time distribution (default: exponential)'',
      ''  -n INT: number of connections to open (round robin/random mode)'',
      '''']"

definition mode_usage :: "string list" where
  "mode_usage = [''  connection modes: per_request, round_robin, random'',
      ''  service distribution: fixed, exp, lognorm'']"

definition synthetic_usage :: "string \<Rightarrow> string list" where
  "synthetic_usage prog =
     [''Usage: '' @ prog @ '' [options] <ip:port> <exp. service us> <req/sec>'', ''''] @ common_usage @
     [''Synthetic options:'',
      ''  -z    : send requests only, don't expect response'',
      ''''] @ mode_usage"

definition memcache_usage :: "string \<Rightarrow> string list" where
  "memcache_usage prog =
     [''Usage: '' @ prog @ '' [options] <ip:port> <req/sec>'', ''''] @ common_usage @
     [''Memcache options:'',
      ''  -z   INT: number of keys to use (default: 10K)'',
      ''  -k   INT: size of the keys (default: 30)'',
      ''  -v   INT: size of the values (default: 4KB)'',
      ''  -u FLOAT: ratio of set:get commands (default: 0.0)'',
      ''''] @ mode_usage"

definition DEFAULT_SAMPLE_S :: "64 word" where "DEFAULT_SAMPLE_S = 10"

definition ADDR_SIZE :: nat where "ADDR_SIZE = 256"

text \<open>Converting a double to \<open>uint64_t\<close> truncates, and is undefined out of range.\<close>

definition to_uint64 :: "real \<Rightarrow> 64 word res" where
  "to_uint64 x =
     (let t = (if 0 \<le> x then \<lfloor>x\<rfloor> else \<lceil>x\<rceil>) in
      if 0 \<le> t \<and> t < 2 ^ 64 then Inr (word_of_int t)
      else Inl (Undefined_behaviour ''double out of range''))"

text \<open>The options of the synthetic client.\<close>

definition synthetic_option :: "string \<Rightarrow> char \<times> string \<Rightarrow> Config \<Rightarrow> Config res" where
  "synthetic_option prog = (\<lambda>(c, optarg) cfg.
     if c = CHR ''h'' then usage_exit (synthetic_usage prog) EXIT_SUCCESS
     else if c = CHR ''r'' then Inr (cfg\<lparr>machine_readable := True\<rparr>)
     else if c = CHR ''e'' then Inr (cfg\<lparr>use_epoll_spin := True\<rparr>)
     else if c = CHR ''b'' then Inr (cfg\<lparr>use_busy_timer := True\<rparr>)
     else if c = CHR ''z'' then Inr (cfg\<lparr>send_only := True\<rparr>)
     else if c = CHR ''i'' then Inr (cfg\<lparr>save_iatimes := Some optarg\<rparr>)
     else if c = CHR ''w'' then rbind (atoi optarg) (\<lambda>v. Inr (cfg\<lparr>warmup_seconds := word_of_int v\<rparr>))
     else if c = CHR ''s'' then rbind (atoi optarg) (\<lambda>v. Inr (cfg\<lparr>nsamples := word_of_int v\<rparr>))
     else if c = CHR ''c'' then rbind (atoi optarg) (\<lambda>v. Inr (cfg\<lparr>cooldown_seconds := word_of_int v\<rparr>))
     else if c = CHR ''W'' then rbind (atoll optarg) (\<lambda>v. Inr (cfg\<lparr>missed_window_us := word_of_int v\<rparr>))
     else if c = CHR ''l'' then Inr (cfg\<lparr>lbl := optarg\<rparr>)
     else if c = CHR ''m'' then
       (if optarg = ''per_request'' then Inr (cfg\<lparr>conn_mode := PER_REQUEST\<rparr>)
        else if optarg = ''round_robin'' then Inr (cfg\<lparr>conn_mode := ROUND_ROBIN\<rparr>)
        else if optarg = ''random'' then Inr (cfg\<lparr>conn_mode := RANDOM\<rparr>)
        else usage_exit (synthetic_usage prog) EXIT_FAILURE)
     else if c = CHR ''d'' then
       (if optarg = ''fixed'' then Inr (cfg\<lparr>service_dist := FIXED\<rparr>)
        else if optarg = ''exp'' then Inr (cfg\<lparr>service_dist := EXPONENTIAL\<rparr>)
        else if optarg = ''lognorm'' then Inr (cfg\<lparr>service_dist := LOG_NORMAL\<rparr>)
        else usage_exit (synthetic_usage prog) EXIT_FAILURE)
     else if c = CHR ''n'' then rbind (atoi optarg) (\<lambda>v. Inr (cfg\<lparr>conn_cnt := word_of_int v\<rparr>))
     else usage_exit (synthetic_usage prog) EXIT_FAILURE)"

definition memcache_option :: "string \<Rightarrow> (string \<Rightarrow> real) \<Rightarrow> char \<times> string \<Rightarrow> Config \<Rightarrow> Config res" where
  "memcache_option prog atof = (\<lambda>(c, optarg) cfg.
     if c = CHR ''h'' then usage_exit (memcache_usage prog) EXIT_SUCCESS
     else if c = CHR ''r'' then Inr (cfg\<lparr>machine_readable := True\<rparr>)
     else if c = CHR ''e'' then Inr (cfg\<lparr>use_epoll_spin := True\<rparr>)
     else if c = CHR ''b'' then Inr (cfg\<lparr>use_busy_timer := True\<rparr>)
     else if c = CHR ''i'' then Inr (cfg\<lparr>save_iatimes := Some optarg\<rparr>)
     else if c = CHR ''w'' then rbind (atoi optarg) (\<lambda>v. Inr (cfg\<lparr>warmup_seconds := word_of_int v\<rparr>))
     else if c = CHR ''s'' then rbind (atoi optarg) (\<lambda>v. Inr (cfg\<lparr>nsamples := word_of_int v\<rparr>))
     else if c = CHR ''c'' then rbind (atoi optarg) (\<lambda>v. Inr (cfg\<lparr>cooldown_seconds := word_of_int v\<rparr>))
     else if c = CHR ''W'' then rbind (atoll optarg) (\<lambda>v. Inr (cfg\<lparr>missed_window_us := word_of_int v\<rparr>))
     else if c = CHR ''l'' then Inr (cfg\<lparr>lbl := optarg\<rparr>)
     else if c = CHR ''m'' then
       (if optarg = ''per_request'' then Inr (cfg\<lparr>conn_mode := PER_REQUEST\<rparr>)
        else if optarg = ''round_robin'' then Inr (cfg\<lparr>conn_mode := ROUND_ROBIN\<rparr>)
        else if optarg = ''random'' then Inr (cfg\<lparr>conn_mode := RANDOM\<rparr>)
        else usage_exit (memcache_usage prog) EXIT_FAILURE)
     else if c = CHR ''d'' then
       (if optarg = ''fixed'' then Inr (cfg\<lparr>service_dist := FIXED\<rparr>)
        else if optarg = ''exp'' then Inr (cfg\<lparr>service_dist := EXPONENTIAL\<rparr>)
        else if optarg = ''lognorm'' then Inr (cfg\<lparr>service_dist := LOG_NORMAL\<rparr>)
        else usage_exit (memcache_usage prog) EXIT_FAILURE)
     else if c = CHR ''n'' then rbind (atoi optarg) (\<lambda>v. Inr (cfg\<lparr>conn_cnt := word_of_int v\<rparr>))
     else if c = CHR ''z'' then rbind (atoll optarg) (\<lambda>v. Inr (cfg\<lparr>records := word_of_int v\<rparr>))
     else if c = CHR ''k'' then rbind (atoll optarg) (\<lambda>v. Inr (cfg\<lparr>keysize := word_of_int v\<rparr>))
     else if c = CHR ''v'' then rbind (atoll optarg) (\<lambda>v. Inr (cfg\<lparr>valsize := word_of_int v\<rparr>))
     else if c = CHR ''u'' then Inr (cfg\<lparr>setget := atof optarg\<rparr>)
     else usage_exit (memcache_usage prog) EXIT_FAILURE)"

fun run_options :: "(char \<times> string \<Rightarrow> 'a \<Rightarrow> 'a res) \<Rightarrow> (char \<times> string) list \<Rightarrow> 'a \<Rightarrow> 'a res" where
  "run_options opt [] cfg = Inr cfg"
| "run_options opt (x # xs) cfg = rbind (opt x cfg) (run_options opt xs)"

text \<open>A failed conversion prints the usage.\<close>

definition or_usage :: "string list \<Rightarrow> 'a option \<Rightarrow> 'a res" where
  "or_usage ls x = (case x of None \<Rightarrow> usage_exit ls EXIT_FAILURE | Some a \<Rightarrow> Inr a)"

text \<open>\<open>cfg.samples *= cfg.req_s\<close>, after the default.\<close>

definition sample_count :: "(real \<Rightarrow> real) \<Rightarrow> Config \<Rightarrow> Config res" where
  "sample_count rnd cfg0 =
     (let cfg = (if nsamples cfg0 = 0 then cfg0\<lparr>nsamples := DEFAULT_SAMPLE_S\<rparr> else cfg0) in
      rbind (to_uint64 (rnd (rnd (real (unat (nsamples cfg))) * req_s cfg))) (\<lambda>n.
      Inr (cfg\<lparr>nsamples := n\<rparr>)))"

definition parse_synthetic :: "string \<Rightarrow> (real \<Rightarrow> real) \<Rightarrow> (string \<Rightarrow> real option) \<Rightarrow> (char \<times> string) list \<Rightarrow>
    string list \<Rightarrow> Config res" where
  "parse_synthetic prog rnd scan_double opts args =
     rbind (run_options (synthetic_option prog) opts (config_default\<lparr>protocol := SYNTHETIC\<rparr>)) (\<lambda>cfg.
     if length args < 3 then usage_exit (synthetic_usage prog) EXIT_FAILURE
     else
       rbind (rbind (scan_addr 256 ADDR_SIZE (args ! 0)) (or_usage (synthetic_usage prog))) (\<lambda>(a, p).
       rbind (or_usage (synthetic_usage prog) (scan_double (args ! 1))) (\<lambda>us.
       rbind (or_usage (synthetic_usage prog) (scan_double (args ! 2))) (\<lambda>rs.
       rbind (sample_count rnd (cfg\<lparr>addr := a, port := p, service_us := us, req_s := rs\<rparr>)) (\<lambda>cfg.
       let n = length args - 3 in Inr (cfg\<lparr>gen_argc := n, gen_argv := Some n\<rparr>))))))"

definition parse_memcache :: "string \<Rightarrow> (real \<Rightarrow> real) \<Rightarrow> (string \<Rightarrow> real option) \<Rightarrow> (string \<Rightarrow> real) \<Rightarrow>
    (char \<times> string) list \<Rightarrow> string list \<Rightarrow> Config res" where
  "parse_memcache prog rnd scan_double atof opts args =
     rbind (run_options (memcache_option prog atof) opts
              (config_default\<lparr>protocol := MEMCACHE, service_us := 0\<rparr>)) (\<lambda>cfg.
     if length args < 2 then usage_exit (memcache_usage prog) EXIT_FAILURE
     else
       rbind (rbind (scan_addr 256 ADDR_SIZE (args ! 0)) (or_usage (memcache_usage prog))) (\<lambda>(a, p).
       rbind (or_usage (memcache_usage prog) (scan_double (args ! 1))) (\<lambda>rs.
       rbind (sample_count rnd (cfg\<lparr>addr := a, port := p, req_s := rs\<rparr>)) (\<lambda>cfg.
       let n = length args - 2 in Inr (cfg\<lparr>gen_argc := n, gen_argv := Some n\<rparr>)))))"


subsection \<open>What the parsers accept\<close>

text \<open>An address the parser accepts.\<close>

definition valid_addr :: "string \<Rightarrow> bool" where
  "valid_addr a \<longleftrightarrow> a \<noteq> [] \<and> CHR '':'' \<notin> set a \<and> length a < ADDR_SIZE"

lemma scan_addr_valid:
  assumes "scan_addr w ADDR_SIZE s = Inr (Some (a, p))"
  shows "valid_addr a"
proof -
  have "CHR '':'' \<notin> set (take w (takeWhile (\<lambda>c. c \<noteq> CHR '':'') s))"
    by (auto dest!: in_set_takeD dest: set_takeWhileD)
  with assms show ?thesis
    by (auto simp: scan_addr_def valid_addr_def Let_def res_simps split: if_splits list.splits)
qed

lemma or_usage_Inr [simp]: "or_usage ls x = Inr a \<longleftrightarrow> x = Some a"
  by (auto simp: or_usage_def usage_exit_def split: option.splits)

lemma sample_count_ok:
  assumes "sample_count rnd cfg = Inr cfg'"
  shows "\<exists>n. cfg' = cfg\<lparr>nsamples := n\<rparr> \<and>
    to_uint64 (rnd (rnd (real (unat (if nsamples cfg = 0 then 10 else nsamples cfg))) * req_s cfg)) = Inr n"
  using assms by (auto simp: sample_count_def Let_def res_simps DEFAULT_SAMPLE_S_def split: if_splits)

text \<open>What the options set: an option that is given sets its field as its last argument says, one that is not leaves the
  default. \<open>R\<close> says what the argument means.\<close>

definition set_by :: "(char \<times> string) list \<Rightarrow> char \<Rightarrow> (string \<Rightarrow> 'v \<Rightarrow> bool) \<Rightarrow> 'v \<Rightarrow> 'v \<Rightarrow> bool" where
  "set_by opts k R dflt v = (case map_of (rev opts) k of None \<Rightarrow> v = dflt | Some a \<Rightarrow> R a v)"

definition int_arg :: "(string \<Rightarrow> int res) \<Rightarrow> string \<Rightarrow> 64 word \<Rightarrow> bool" where
  "int_arg conv a v = (case conv a of Inl e \<Rightarrow> False | Inr n \<Rightarrow> v = word_of_int n)"

definition mode_arg :: "string \<Rightarrow> conn_modes \<Rightarrow> bool" where
  "mode_arg a v \<longleftrightarrow> (a, v) \<in> {(''per_request'', PER_REQUEST), (''round_robin'', ROUND_ROBIN), (''random'', RANDOM)}"

definition dist_arg :: "string \<Rightarrow> service_distributions \<Rightarrow> bool" where
  "dist_arg a v \<longleftrightarrow> (a, v) \<in> {(''fixed'', FIXED), (''exp'', EXPONENTIAL), (''lognorm'', LOG_NORMAL)}"

definition common_settings :: "(char \<times> string) list \<Rightarrow> Config \<Rightarrow> bool" where
  "common_settings opts cfg \<longleftrightarrow>
     set_by opts (CHR ''r'') (\<lambda>_ v. v) False (machine_readable cfg) \<and>
     set_by opts (CHR ''e'') (\<lambda>_ v. v) False (use_epoll_spin cfg) \<and>
     set_by opts (CHR ''b'') (\<lambda>_ v. v) False (use_busy_timer cfg) \<and>
     set_by opts (CHR ''i'') (\<lambda>a v. v = Some a) None (save_iatimes cfg) \<and>
     set_by opts (CHR ''w'') (int_arg atoi) 5 (warmup_seconds cfg) \<and>
     set_by opts (CHR ''c'') (int_arg atoi) 5 (cooldown_seconds cfg) \<and>
     set_by opts (CHR ''W'') (int_arg atoll) 100 (missed_window_us cfg) \<and>
     set_by opts (CHR ''l'') (\<lambda>a v. v = a) ''default'' (lbl cfg) \<and>
     set_by opts (CHR ''m'') mode_arg ROUND_ROBIN (conn_mode cfg) \<and>
     set_by opts (CHR ''d'') dist_arg EXPONENTIAL (service_dist cfg) \<and>
     set_by opts (CHR ''n'') (int_arg atoi) 10 (conn_cnt cfg)"

text \<open>An option sets one field, and no other option touches it.\<close>

definition owns :: "(char \<times> string \<Rightarrow> 'a \<Rightarrow> 'a res) \<Rightarrow> char \<Rightarrow> (string \<Rightarrow> 'v \<Rightarrow> bool) \<Rightarrow> ('a \<Rightarrow> 'v) \<Rightarrow> bool" where
  "owns opt k R f \<longleftrightarrow> (\<forall>ch a cfg cfg'. opt (ch, a) cfg = Inr cfg' \<longrightarrow>
     (if ch = k then R a (f cfg') else f cfg' = f cfg))"

lemma run_options_set:
  assumes "owns opt k R f"
  shows "run_options opt xs cfg = Inr cfg' \<Longrightarrow> set_by xs k R (f cfg) (f cfg')"
proof (induction xs arbitrary: cfg)
  case (Cons x xs)
  obtain ch a where x: "x = (ch, a)" by (cases x)
  from Cons.prems obtain c where c: "opt (ch, a) cfg = Inr c" "run_options opt xs c = Inr cfg'"
    by (auto simp: x res_simps)
  then have "if ch = k then R a (f c) else f c = f cfg" using assms by (simp add: owns_def)
  with Cons.IH [OF c(2)] show ?case
    by (auto simp: x set_by_def map_add_def split: option.splits if_splits)
qed (simp add: set_by_def)

text \<open>A field that no option sets.\<close>

lemma run_options_keeps:
  assumes "\<And>x cfg cfg'. opt x cfg = Inr cfg' \<Longrightarrow> f cfg' = f cfg"
  shows "run_options opt xs cfg = Inr cfg' \<Longrightarrow> f cfg' = f cfg"
  by (induction xs arbitrary: cfg) (auto simp: res_simps dest: assms)

text \<open>What an option does that is accepted.\<close>

lemma synthetic_option_does:
  assumes "synthetic_option prog (ch, a) cfg = Inr cfg'"
  shows "ch = CHR ''r'' \<and> cfg' = cfg\<lparr>machine_readable := True\<rparr> \<or>
    ch = CHR ''e'' \<and> cfg' = cfg\<lparr>use_epoll_spin := True\<rparr> \<or>
    ch = CHR ''b'' \<and> cfg' = cfg\<lparr>use_busy_timer := True\<rparr> \<or>
    ch = CHR ''i'' \<and> cfg' = cfg\<lparr>save_iatimes := Some a\<rparr> \<or>
    ch = CHR ''w'' \<and> (\<exists>n. atoi a = Inr n \<and> cfg' = cfg\<lparr>warmup_seconds := word_of_int n\<rparr>) \<or>
    ch = CHR ''s'' \<and> (\<exists>n. atoi a = Inr n \<and> cfg' = cfg\<lparr>nsamples := word_of_int n\<rparr>) \<or>
    ch = CHR ''c'' \<and> (\<exists>n. atoi a = Inr n \<and> cfg' = cfg\<lparr>cooldown_seconds := word_of_int n\<rparr>) \<or>
    ch = CHR ''W'' \<and> (\<exists>n. atoll a = Inr n \<and> cfg' = cfg\<lparr>missed_window_us := word_of_int n\<rparr>) \<or>
    ch = CHR ''l'' \<and> cfg' = cfg\<lparr>lbl := a\<rparr> \<or>
    ch = CHR ''m'' \<and> (\<exists>v. mode_arg a v \<and> cfg' = cfg\<lparr>conn_mode := v\<rparr>) \<or>
    ch = CHR ''d'' \<and> (\<exists>v. dist_arg a v \<and> cfg' = cfg\<lparr>service_dist := v\<rparr>) \<or>
    ch = CHR ''n'' \<and> (\<exists>n. atoi a = Inr n \<and> cfg' = cfg\<lparr>conn_cnt := word_of_int n\<rparr>) \<or>
    ch = CHR ''z'' \<and> cfg' = cfg\<lparr>send_only := True\<rparr>"
  using assms
  by (auto simp: synthetic_option_def usage_exit_def res_simps mode_arg_def dist_arg_def split: if_split_asm)

lemma memcache_option_does:
  assumes "memcache_option prog af (ch, a) cfg = Inr cfg'"
  shows "ch = CHR ''r'' \<and> cfg' = cfg\<lparr>machine_readable := True\<rparr> \<or>
    ch = CHR ''e'' \<and> cfg' = cfg\<lparr>use_epoll_spin := True\<rparr> \<or>
    ch = CHR ''b'' \<and> cfg' = cfg\<lparr>use_busy_timer := True\<rparr> \<or>
    ch = CHR ''i'' \<and> cfg' = cfg\<lparr>save_iatimes := Some a\<rparr> \<or>
    ch = CHR ''w'' \<and> (\<exists>n. atoi a = Inr n \<and> cfg' = cfg\<lparr>warmup_seconds := word_of_int n\<rparr>) \<or>
    ch = CHR ''s'' \<and> (\<exists>n. atoi a = Inr n \<and> cfg' = cfg\<lparr>nsamples := word_of_int n\<rparr>) \<or>
    ch = CHR ''c'' \<and> (\<exists>n. atoi a = Inr n \<and> cfg' = cfg\<lparr>cooldown_seconds := word_of_int n\<rparr>) \<or>
    ch = CHR ''W'' \<and> (\<exists>n. atoll a = Inr n \<and> cfg' = cfg\<lparr>missed_window_us := word_of_int n\<rparr>) \<or>
    ch = CHR ''l'' \<and> cfg' = cfg\<lparr>lbl := a\<rparr> \<or>
    ch = CHR ''m'' \<and> (\<exists>v. mode_arg a v \<and> cfg' = cfg\<lparr>conn_mode := v\<rparr>) \<or>
    ch = CHR ''d'' \<and> (\<exists>v. dist_arg a v \<and> cfg' = cfg\<lparr>service_dist := v\<rparr>) \<or>
    ch = CHR ''n'' \<and> (\<exists>n. atoi a = Inr n \<and> cfg' = cfg\<lparr>conn_cnt := word_of_int n\<rparr>) \<or>
    ch = CHR ''z'' \<and> (\<exists>n. atoll a = Inr n \<and> cfg' = cfg\<lparr>records := word_of_int n\<rparr>) \<or>
    ch = CHR ''k'' \<and> (\<exists>n. atoll a = Inr n \<and> cfg' = cfg\<lparr>keysize := word_of_int n\<rparr>) \<or>
    ch = CHR ''v'' \<and> (\<exists>n. atoll a = Inr n \<and> cfg' = cfg\<lparr>valsize := word_of_int n\<rparr>) \<or>
    ch = CHR ''u'' \<and> cfg' = cfg\<lparr>setget := af a\<rparr>"
  using assms
  by (auto simp: memcache_option_def usage_exit_def res_simps mode_arg_def dist_arg_def split: if_split_asm)

lemma synthetic_common:
  "owns (synthetic_option prog) (CHR ''r'') (\<lambda>_ v. v) machine_readable"
  "owns (synthetic_option prog) (CHR ''e'') (\<lambda>_ v. v) use_epoll_spin"
  "owns (synthetic_option prog) (CHR ''b'') (\<lambda>_ v. v) use_busy_timer"
  "owns (synthetic_option prog) (CHR ''i'') (\<lambda>a v. v = Some a) save_iatimes"
  "owns (synthetic_option prog) (CHR ''w'') (int_arg atoi) warmup_seconds"
  "owns (synthetic_option prog) (CHR ''c'') (int_arg atoi) cooldown_seconds"
  "owns (synthetic_option prog) (CHR ''W'') (int_arg atoll) missed_window_us"
  "owns (synthetic_option prog) (CHR ''l'') (\<lambda>a v. v = a) lbl"
  "owns (synthetic_option prog) (CHR ''m'') mode_arg conn_mode"
  "owns (synthetic_option prog) (CHR ''d'') dist_arg service_dist"
  "owns (synthetic_option prog) (CHR ''n'') (int_arg atoi) conn_cnt"
  by (auto simp: owns_def int_arg_def dest!: synthetic_option_does)

lemma synthetic_own:
  "owns (synthetic_option prog) (CHR ''s'') (int_arg atoi) nsamples"
  "owns (synthetic_option prog) (CHR ''z'') (\<lambda>_ v. v) send_only"
  by (auto simp: owns_def int_arg_def dest!: synthetic_option_does)

lemma memcache_common:
  "owns (memcache_option prog af) (CHR ''r'') (\<lambda>_ v. v) machine_readable"
  "owns (memcache_option prog af) (CHR ''e'') (\<lambda>_ v. v) use_epoll_spin"
  "owns (memcache_option prog af) (CHR ''b'') (\<lambda>_ v. v) use_busy_timer"
  "owns (memcache_option prog af) (CHR ''i'') (\<lambda>a v. v = Some a) save_iatimes"
  "owns (memcache_option prog af) (CHR ''w'') (int_arg atoi) warmup_seconds"
  "owns (memcache_option prog af) (CHR ''c'') (int_arg atoi) cooldown_seconds"
  "owns (memcache_option prog af) (CHR ''W'') (int_arg atoll) missed_window_us"
  "owns (memcache_option prog af) (CHR ''l'') (\<lambda>a v. v = a) lbl"
  "owns (memcache_option prog af) (CHR ''m'') mode_arg conn_mode"
  "owns (memcache_option prog af) (CHR ''d'') dist_arg service_dist"
  "owns (memcache_option prog af) (CHR ''n'') (int_arg atoi) conn_cnt"
  by (auto simp: owns_def int_arg_def dest!: memcache_option_does)

lemma memcache_own:
  "owns (memcache_option prog af) (CHR ''s'') (int_arg atoi) nsamples"
  "owns (memcache_option prog af) (CHR ''z'') (int_arg atoll) records"
  "owns (memcache_option prog af) (CHR ''k'') (int_arg atoll) keysize"
  "owns (memcache_option prog af) (CHR ''v'') (int_arg atoll) valsize"
  "owns (memcache_option prog af) (CHR ''u'') (\<lambda>a v. v = af a) setget"
  by (auto simp: owns_def int_arg_def dest!: memcache_option_does)

lemma synthetic_keeps:
  "synthetic_option prog x cfg = Inr cfg' \<Longrightarrow> (protocol cfg', records cfg', keysize cfg', valsize cfg', setget cfg') =
     (protocol cfg, records cfg, keysize cfg, valsize cfg, setget cfg)"
  by (cases x) (auto dest!: synthetic_option_does)

lemma memcache_keeps:
  "memcache_option prog af x cfg = Inr cfg' \<Longrightarrow> (protocol cfg', service_us cfg', send_only cfg') =
     (protocol cfg, service_us cfg, send_only cfg)"
  by (cases x) (auto dest!: memcache_option_does)

definition synthetic_settings :: "(char \<times> string) list \<Rightarrow> Config \<Rightarrow> bool" where
  "synthetic_settings opts cfg \<longleftrightarrow> protocol cfg = SYNTHETIC \<and> common_settings opts cfg \<and>
     set_by opts (CHR ''z'') (\<lambda>_ v. v) False (send_only cfg) \<and>
     records cfg = 10000 \<and> keysize cfg = 30 \<and> valsize cfg = 4096 \<and> setget cfg = 0"

definition memcache_settings :: "(string \<Rightarrow> real) \<Rightarrow> (char \<times> string) list \<Rightarrow> Config \<Rightarrow> bool" where
  "memcache_settings af opts cfg \<longleftrightarrow> protocol cfg = MEMCACHE \<and> common_settings opts cfg \<and>
     set_by opts (CHR ''z'') (int_arg atoll) 10000 (records cfg) \<and>
     set_by opts (CHR ''k'') (int_arg atoll) 30 (keysize cfg) \<and>
     set_by opts (CHR ''v'') (int_arg atoll) 4096 (valsize cfg) \<and>
     set_by opts (CHR ''u'') (\<lambda>a v. v = af a) 0 (setget cfg) \<and>
     service_us cfg = 0 \<and> \<not> send_only cfg"

lemma synthetic_sets:
  assumes "run_options (synthetic_option prog) opts (config_default\<lparr>protocol := SYNTHETIC\<rparr>) = Inr c"
  shows "synthetic_settings opts c \<and> set_by opts (CHR ''s'') (int_arg atoi) 0 (nsamples c)"
  using synthetic_common [THEN run_options_set, OF assms] synthetic_own [THEN run_options_set, OF assms]
    run_options_keeps [where f = "\<lambda>cfg. (protocol cfg, records cfg, keysize cfg, valsize cfg, setget cfg)",
      OF synthetic_keeps assms]
  by (simp add: synthetic_settings_def common_settings_def config_default_def)

lemma memcache_sets:
  assumes "run_options (memcache_option prog af) opts (config_default\<lparr>protocol := MEMCACHE, service_us := 0\<rparr>) = Inr c"
  shows "memcache_settings af opts c \<and> set_by opts (CHR ''s'') (int_arg atoi) 0 (nsamples c)"
  using memcache_common [THEN run_options_set, OF assms] memcache_own [THEN run_options_set, OF assms]
    run_options_keeps [where f = "\<lambda>cfg. (protocol cfg, service_us cfg, send_only cfg)",
      OF memcache_keeps assms]
  by (simp add: memcache_settings_def common_settings_def config_default_def)

definition measures :: "(real \<Rightarrow> real) \<Rightarrow> (char \<times> string) list \<Rightarrow> real \<Rightarrow> 64 word \<Rightarrow> bool" where
  "measures rnd opts rate n \<longleftrightarrow> (\<exists>secs. set_by opts (CHR ''s'') (int_arg atoi) 0 secs \<and>
     to_uint64 (rnd (rnd (real (unat (if secs = 0 then 10 else secs))) * rate)) = Inr n)"

lemma parse_synthetic_ok:
  assumes "parse_synthetic prog rnd sd opts args = Inr cfg"
  shows "synthetic_settings opts cfg \<and> valid_addr (addr cfg) \<and> 3 \<le> length args \<and>
    scan_addr 256 ADDR_SIZE (args ! 0) = Inr (Some (addr cfg, port cfg)) \<and>
    sd (args ! 1) = Some (service_us cfg) \<and> sd (args ! 2) = Some (req_s cfg) \<and>
    measures rnd opts (req_s cfg) (nsamples cfg)"
proof -
  obtain c a p us rs c' where c: "run_options (synthetic_option prog) opts (config_default\<lparr>protocol := SYNTHETIC\<rparr>) = Inr c"
    "3 \<le> length args" "scan_addr 256 ADDR_SIZE (args ! 0) = Inr (Some (a, p))" "sd (args ! 1) = Some us"
    "sd (args ! 2) = Some rs" "sample_count rnd (c\<lparr>addr := a, port := p, service_us := us, req_s := rs\<rparr>) = Inr c'"
    "cfg = c'\<lparr>gen_argc := length args - 3, gen_argv := Some (length args - 3)\<rparr>"
    using assms by (auto simp: parse_synthetic_def Let_def res_simps usage_exit_def split: if_splits)
  obtain n where n: "c' = c\<lparr>addr := a, port := p, service_us := us, req_s := rs, nsamples := n\<rparr>"
    "to_uint64 (rnd (rnd (real (unat (if nsamples c = 0 then 10 else nsamples c))) * rs)) = Inr n"
    using sample_count_ok [OF c(6)] by (auto cong: if_cong)
  have sets: "synthetic_settings opts c" "measures rnd opts rs n"
    using synthetic_sets [OF c(1)] n(2) by (auto simp only: measures_def)
  have "synthetic_settings opts cfg"
    using sets(1) c(7) n(1) by (simp add: synthetic_settings_def common_settings_def)
  with sets(2) n(1) scan_addr_valid [OF c(3)] c(2-5,7) show ?thesis by simp
qed

lemma parse_memcache_ok:
  assumes "parse_memcache prog rnd sd af opts args = Inr cfg"
  shows "memcache_settings af opts cfg \<and> valid_addr (addr cfg) \<and> 2 \<le> length args \<and>
    scan_addr 256 ADDR_SIZE (args ! 0) = Inr (Some (addr cfg, port cfg)) \<and>
    sd (args ! 1) = Some (req_s cfg) \<and> measures rnd opts (req_s cfg) (nsamples cfg)"
proof -
  obtain c a p rs c' where c: "run_options (memcache_option prog af) opts (config_default\<lparr>protocol := MEMCACHE, service_us := 0\<rparr>) = Inr c"
    "2 \<le> length args" "scan_addr 256 ADDR_SIZE (args ! 0) = Inr (Some (a, p))"
    "sd (args ! 1) = Some rs" "sample_count rnd (c\<lparr>addr := a, port := p, req_s := rs\<rparr>) = Inr c'"
    "cfg = c'\<lparr>gen_argc := length args - 2, gen_argv := Some (length args - 2)\<rparr>"
    using assms by (auto simp: parse_memcache_def Let_def res_simps usage_exit_def split: if_splits)
  obtain n where n: "c' = c\<lparr>addr := a, port := p, req_s := rs, nsamples := n\<rparr>"
    "to_uint64 (rnd (rnd (real (unat (if nsamples c = 0 then 10 else nsamples c))) * rs)) = Inr n"
    using sample_count_ok [OF c(5)] by (auto cong: if_cong)
  have sets: "memcache_settings af opts c" "measures rnd opts rs n"
    using memcache_sets [OF c(1)] n(2) by (auto simp only: measures_def)
  have "memcache_settings af opts cfg"
    using sets(1) c(6) n(1) by (simp add: memcache_settings_def common_settings_def)
  with sets(2) n(1) scan_addr_valid [OF c(3)] c(2-4,6) show ?thesis by simp
qed

subsection \<open>When the parsers print the usage\<close>

lemma ato_no_exit [simp]: "ato w s \<noteq> Inl (Exit n out)"
  by (simp add: ato_def Let_def)

lemma atoi_no_exit [simp]: "atoi s \<noteq> Inl (Exit n out)" "atoll s \<noteq> Inl (Exit n out)"
  by (simp_all add: atoi_def atoll_def)

lemma scan_addr_no_exit [simp]: "scan_addr w cap s \<noteq> Inl (Exit n out)"
  by (auto simp: scan_addr_def scan_hu_def Let_def rbind_eq_Inl split: if_splits list.splits)

lemma sample_count_no_exit [simp]: "sample_count rnd cfg \<noteq> Inl (Exit n out)"
  by (auto simp: sample_count_def to_uint64_def Let_def rbind_eq_Inl split: if_splits)

lemma usage_exit_eq [simp]:
  "usage_exit ls st \<noteq> Inr a"
  "usage_exit ls st = Inl e \<longleftrightarrow> e = Exit st (Text ((if st \<noteq> EXIT_SUCCESS then [''invalid arguments!'', ''''] else []) @ ls))"
  by (auto simp: usage_exit_def)

lemma or_usage_Inl [simp]: "or_usage ls x = Inl e \<longleftrightarrow> x = None \<and> usage_exit ls EXIT_FAILURE = (Inl e :: 'a res)"
  for x :: "'a option"
  by (auto simp: or_usage_def split: option.splits)

text \<open>The parser meets \<open>-h\<close>, after options that it accepts.\<close>

fun asks_help :: "(char \<times> string \<Rightarrow> 'a \<Rightarrow> 'a res) \<Rightarrow> (char \<times> string) list \<Rightarrow> 'a \<Rightarrow> bool" where
  "asks_help opt [] cfg \<longleftrightarrow> False"
| "asks_help opt (x # xs) cfg \<longleftrightarrow>
     fst x = CHR ''h'' \<or> (case opt x cfg of Inl e \<Rightarrow> False | Inr cfg \<Rightarrow> asks_help opt xs cfg)"

definition complaint :: "string list \<Rightarrow> string list" where
  "complaint ls = [''invalid arguments!'', ''''] @ ls"

text \<open>An option ends the program with the usage, or not at all.\<close>

definition option_usage :: "string list \<Rightarrow> (char \<times> string \<Rightarrow> 'a \<Rightarrow> 'a res) \<Rightarrow> bool" where
  "option_usage ls opt \<longleftrightarrow>
     (\<forall>x cfg. fst x = CHR ''h'' \<longrightarrow> opt x cfg = Inl (Exit 0 (Text ls))) \<and>
     (\<forall>x cfg n out. fst x \<noteq> CHR ''h'' \<longrightarrow> opt x cfg = Inl (Exit n out) \<longrightarrow> n = 1 \<and> out = Text (complaint ls))"

lemma synthetic_option_usage: "option_usage (synthetic_usage prog) (synthetic_option prog)"
  by (auto simp: option_usage_def synthetic_option_def EXIT_SUCCESS_def EXIT_FAILURE_def complaint_def rbind_eq_Inl
      split: if_splits)

lemma memcache_option_usage: "option_usage (memcache_usage prog) (memcache_option prog atof)"
  by (auto simp: option_usage_def memcache_option_def EXIT_SUCCESS_def EXIT_FAILURE_def complaint_def rbind_eq_Inl
      split: if_splits)

lemma run_options_usage:
  assumes "option_usage ls opt"
  shows "asks_help opt xs cfg \<Longrightarrow> run_options opt xs cfg = Inl (Exit 0 (Text ls))"
    "\<not> asks_help opt xs cfg \<Longrightarrow> run_options opt xs cfg = Inl (Exit n out) \<Longrightarrow> n = 1 \<and> out = Text (complaint ls)"
proof (induction xs arbitrary: cfg)
  case (Cons x xs)
  note o = assms [unfolded option_usage_def]
  { case 1
    then show ?case
      using o Cons.IH(1) by (cases x; cases "fst x = CHR ''h''") (auto split: sum.splits)
  next
    case 2
    then show ?case
      using o Cons.IH(2) by (cases x; cases "opt x cfg") auto
  }
qed simp_all

lemma synthetic_exits:
  assumes "parse_synthetic prog rnd sd opts args = Inl (Exit n out)"
  shows "if asks_help (synthetic_option prog) opts (config_default\<lparr>protocol := SYNTHETIC\<rparr>)
    then n = 0 \<and> out = Text (synthetic_usage prog) else n = 1 \<and> out = Text (complaint (synthetic_usage prog))"
  using assms run_options_usage [OF synthetic_option_usage [of prog], of opts "config_default\<lparr>protocol := SYNTHETIC\<rparr>"]
  by (auto simp: parse_synthetic_def rbind_eq_Inl EXIT_SUCCESS_def EXIT_FAILURE_def complaint_def Let_def split: if_splits)

lemma memcache_exits:
  assumes "parse_memcache prog rnd sd af opts args = Inl (Exit n out)"
  shows "if asks_help (memcache_option prog af) opts (config_default\<lparr>protocol := MEMCACHE, service_us := 0\<rparr>)
    then n = 0 \<and> out = Text (memcache_usage prog) else n = 1 \<and> out = Text (complaint (memcache_usage prog))"
  using assms run_options_usage [OF memcache_option_usage [of prog af], of opts "config_default\<lparr>protocol := MEMCACHE, service_us := 0\<rparr>"]
  by (auto simp: parse_memcache_def rbind_eq_Inl EXIT_SUCCESS_def EXIT_FAILURE_def complaint_def Let_def split: if_splits)

subsection \<open>Properties\<close>

text \<open>C37: What a configuration says that a parser accepts. Every setting is what the last argument of its own option says, or its
  default: for both clients \<open>-r\<close>, \<open>-e\<close>, \<open>-b\<close>, \<open>-i\<close>, \<open>-w\<close>, \<open>-c\<close>, \<open>-W\<close>, \<open>-l\<close>, \<open>-m\<close>, \<open>-d\<close> and \<open>-n\<close>; \<open>-z\<close> (send only) for the
  synthetic one, \<open>-z\<close>, \<open>-k\<close>, \<open>-v\<close> and \<open>-u\<close> for memcache. The protocol is the client's own; the address, nonempty and without
  colon, fits its array and was read, as were the port, the service time and the rate, from the arguments; and the
  sample count is the number of seconds of \<open>-s\<close> (10 when absent or 0) times the rate, truncated.\<close>

theorem accepted_configurations:
  "(parse_synthetic prog rnd sd opts args = Inr cfg \<longrightarrow>
     synthetic_settings opts cfg \<and> valid_addr (addr cfg) \<and> 3 \<le> length args \<and>
     scan_addr 256 ADDR_SIZE (args ! 0) = Inr (Some (addr cfg, port cfg)) \<and>
     sd (args ! 1) = Some (service_us cfg) \<and> sd (args ! 2) = Some (req_s cfg) \<and>
     measures rnd opts (req_s cfg) (nsamples cfg)) \<and>
   (parse_memcache prog rnd sd af opts args = Inr cfg \<longrightarrow>
     memcache_settings af opts cfg \<and> valid_addr (addr cfg) \<and> 2 \<le> length args \<and>
     scan_addr 256 ADDR_SIZE (args ! 0) = Inr (Some (addr cfg, port cfg)) \<and>
     sd (args ! 1) = Some (req_s cfg) \<and> measures rnd opts (req_s cfg) (nsamples cfg))"
  by (rule conjI; rule impI; erule parse_synthetic_ok parse_memcache_ok)

text \<open>The witness runs the memcache parser with a stand-in for the number reader.\<close>

definition demo_double :: "string \<Rightarrow> real option" where
  "demo_double s = (if s = ''100'' then Some 100 else None)"

definition demo_opts :: "(char \<times> string) list" where
  "demo_opts = [(CHR ''s'', ''7''), (CHR ''c'', ''2''), (CHR ''s'', ''3'')]"

lemma demo_ints: "atoi ''2'' = Inr 2" "atoi ''3'' = Inr 3" "atoi ''7'' = Inr 7"
  by (simp_all add: atoi_def ato_def is_space_def is_digit_def less_eq_char_def dec_def digit_val_def Let_def)

lemma demo_run_options:
  "run_options (memcache_option ''mutated'' (\<lambda>s. 0)) demo_opts cfg =
     Inr (cfg\<lparr>nsamples := 3, cooldown_seconds := 2\<rparr>)"
  by (simp add: demo_opts_def memcache_option_def demo_ints)

lemma demo_addr: "scan_addr 256 ADDR_SIZE ''h:80'' = Inr (Some (''h'', 80))"
  by (simp add: scan_addr_def ADDR_SIZE_def scan_hu_def dec_def digit_val_def is_space_def is_digit_def less_eq_char_def Let_def)

lemma demo_parse:
  "\<exists>cfg. parse_memcache ''mutated'' (\<lambda>x. x) demo_double (\<lambda>s. 0) demo_opts [''h:80'', ''100''] = Inr cfg"
  by (simp add: parse_memcache_def demo_run_options demo_addr or_usage_def demo_double_def sample_count_def
      to_uint64_def Let_def)

theorem accepted_configurations_witness:
  "\<exists>cfg. parse_memcache ''mutated'' (\<lambda>x. x) demo_double (\<lambda>s. 0) demo_opts [''h:80'', ''100''] = Inr cfg \<and>
    protocol cfg = MEMCACHE \<and> valid_addr (addr cfg) \<and> warmup_seconds cfg = 5 \<and> cooldown_seconds cfg = 2 \<and>
    nsamples cfg = 300"
proof -
  obtain cfg where r: "parse_memcache ''mutated'' (\<lambda>x. x) demo_double (\<lambda>s. 0) demo_opts [''h:80'', ''100''] = Inr cfg"
    using demo_parse by blast
  with accepted_configurations [of "''mutated''" "\<lambda>x. x" demo_double demo_opts "[''h:80'', ''100'']" cfg "\<lambda>s. 0"]
  have a: "memcache_settings (\<lambda>s. 0) demo_opts cfg" "valid_addr (addr cfg)" "req_s cfg = 100"
    "measures (\<lambda>x. x) demo_opts (req_s cfg) (nsamples cfg)"
    by (auto simp: demo_double_def)
  have "nsamples cfg = 300"
    using a(3,4) by (simp add: measures_def set_by_def demo_opts_def int_arg_def demo_ints to_uint64_def)
  with a r show ?thesis
    by (simp add: memcache_settings_def common_settings_def set_by_def demo_opts_def int_arg_def demo_ints)
qed

text \<open>The address argument \<open>host:port\<close> is read back as that host and port when the host has fewer than 256 characters;
  a longer one makes the scan of up to 256 characters write its terminating zero past the array of 256, in
  both clients.\<close>

theorem address_argument:
  assumes "host \<noteq> []" "CHR '':'' \<notin> set host" "p < 2 ^ 16"
  shows "scan_addr 256 ADDR_SIZE (host @ '':'' @ show_nat p) =
    (if length host < ADDR_SIZE then Inr (Some (host, word_of_nat p))
     else Inl (Undefined_behaviour ''sscanf: buffer overflow''))"
  using scan_addr_ok [OF assms(1,2) _ _ assms(3), of 256 ADDR_SIZE]
    scan_addr_overflow [OF _ assms(2), of 256 ADDR_SIZE "'':'' @ show_nat p"]
  by (auto simp: ADDR_SIZE_def)

theorem address_argument_witness:
  "scan_addr 256 ADDR_SIZE (''10.0.0.1'' @ '':'' @ show_nat 8080) = Inr (Some (''10.0.0.1'', 8080)) \<and>
   scan_addr 256 ADDR_SIZE (replicate 256 (CHR ''a'') @ '':'' @ show_nat 80) =
     Inl (Undefined_behaviour ''sscanf: buffer overflow'')"
  using address_argument [of "''10.0.0.1''" 8080] address_argument [of "replicate 256 (CHR ''a'')" 80]
  by (simp add: ADDR_SIZE_def)

text \<open>C38: A parser ends the program only by printing its usage. It does that with status 0, and nothing before it, exactly when it
  meets \<open>-h\<close> after options that it accepts; in all other cases with status 1, after a complaint.\<close>

theorem usage_exits:
  "(asks_help (synthetic_option prog) opts (config_default\<lparr>protocol := SYNTHETIC\<rparr>) \<longrightarrow>
      parse_synthetic prog rnd sd opts args = Inl (Exit 0 (Text (synthetic_usage prog)))) \<and>
   (\<not> asks_help (synthetic_option prog) opts (config_default\<lparr>protocol := SYNTHETIC\<rparr>) \<longrightarrow>
      parse_synthetic prog rnd sd opts args = Inl (Exit n out) \<longrightarrow> n = 1 \<and> out = Text (complaint (synthetic_usage prog))) \<and>
   (asks_help (memcache_option prog af) opts (config_default\<lparr>protocol := MEMCACHE, service_us := 0\<rparr>) \<longrightarrow>
      parse_memcache prog rnd sd af opts args = Inl (Exit 0 (Text (memcache_usage prog)))) \<and>
   (\<not> asks_help (memcache_option prog af) opts (config_default\<lparr>protocol := MEMCACHE, service_us := 0\<rparr>) \<longrightarrow>
      parse_memcache prog rnd sd af opts args = Inl (Exit n out) \<longrightarrow> n = 1 \<and> out = Text (complaint (memcache_usage prog)))"
  using run_options_usage [OF synthetic_option_usage [of prog], of opts "config_default\<lparr>protocol := SYNTHETIC\<rparr>"]
    run_options_usage [OF memcache_option_usage [of prog af], of opts "config_default\<lparr>protocol := MEMCACHE, service_us := 0\<rparr>"]
  by (auto simp: parse_synthetic_def parse_memcache_def rbind_eq_Inl EXIT_SUCCESS_def EXIT_FAILURE_def complaint_def Let_def
      split: if_splits)

theorem usage_exits_witness:
  "parse_synthetic ''mutated'' (\<lambda>x. x) demo_double [(CHR ''r'', []), (CHR ''h'', [])] [] =
     Inl (Exit 0 (Text (synthetic_usage ''mutated''))) \<and>
   parse_memcache ''mutated'' (\<lambda>x. x) demo_double (\<lambda>s. 0) [(CHR ''?'', []), (CHR ''h'', [])] [] =
     Inl (Exit 1 (Text (complaint (memcache_usage ''mutated''))))"
proof -
  have "\<not> asks_help (memcache_option ''mutated'' (\<lambda>s. 0)) [(CHR ''?'', []), (CHR ''h'', [])] cfg" for cfg
    by (simp add: memcache_option_def usage_exit_def)
  moreover have "\<exists>n out. parse_memcache ''mutated'' (\<lambda>x. x) demo_double (\<lambda>s. 0) [(CHR ''?'', []), (CHR ''h'', [])] [] =
      Inl (Exit n out)"
    by (simp add: parse_memcache_def memcache_option_def usage_exit_def)
  moreover have "asks_help (synthetic_option ''mutated'') [(CHR ''r'', []), (CHR ''h'', [])] cfg" for cfg
    by (simp add: synthetic_option_def)
  ultimately show ?thesis
    using usage_exits [of "''mutated''" "[(CHR ''r'', []), (CHR ''h'', [])]" "\<lambda>x. x" demo_double "[]"]
      usage_exits [of "''mutated''" "[(CHR ''?'', []), (CHR ''h'', [])]" "\<lambda>x. x" demo_double "[]" _ _ "\<lambda>s. 0"]
    by blast
qed

end
