(* ===== verification/Memc_Protocol.thy ===== *)
theory Memc_Protocol
  imports Mut_Base
begin

section \<open>The memcache binary protocol (client/memcache.hh, client/endian.hh)\<close>

text \<open>
  The packet header as the packed struct of the source, its fields at their widths, in host or in network
  order as the code has them at each point, and its 24 bytes in memory on a little-endian host. An
  \<open>enum class\<close> is a datatype with its codes; a header field of enum type holds the code, since a
  received header can hold any. The functions of \<^verbatim>\<open>endian.hh\<close> and \<^verbatim>\<open>arpa/inet.h\<close>
  are byte swaps.
\<close>

subsection \<open>Byte order\<close>

definition bswap :: "nat \<Rightarrow> 'w::len word \<Rightarrow> 'w word" where
  "bswap k w = word_of_nat (of_le (rev (le_bytes k (unat w))))"

definition htons :: "16 word \<Rightarrow> 16 word" where "htons = bswap 2"
definition ntohs :: "16 word \<Rightarrow> 16 word" where "ntohs = bswap 2"
definition htonl :: "32 word \<Rightarrow> 32 word" where "htonl = bswap 4"
definition ntohl :: "32 word \<Rightarrow> 32 word" where "ntohl = bswap 4"
definition htonll :: "64 word \<Rightarrow> 64 word" where "htonll = bswap 8"
definition ntohll :: "64 word \<Rightarrow> 64 word" where "ntohll = bswap 8"

lemma unat_bswap:
  assumes "LENGTH('w::len) = 8 * k"
  shows "unat (bswap k (w :: 'w word)) = of_le (rev (le_bytes k (unat w)))"
proof -
  have "(256 :: nat) ^ k = 2 ^ LENGTH('w)" by (simp add: assms power_mult)
  then show ?thesis
    using of_le_bound [of "rev (le_bytes k (unat w))"] by (simp add: bswap_def unat_of_nat)
qed

text \<open>The memory image of a swapped integer is the integer in big-endian order.\<close>

lemma bswap_bytes:
  assumes "LENGTH('w::len) = 8 * k"
  shows "le_bytes k (unat (bswap k (w :: 'w word))) = rev (le_bytes k (unat w))"
  using le_bytes_of_le [of "rev (le_bytes k (unat w))"] by (simp add: unat_bswap [OF assms])

lemma bswap_bswap:
  assumes "LENGTH('w::len) = 8 * k"
  shows "bswap k (bswap k (w :: 'w word)) = w"
proof -
  have "(256 :: nat) ^ k = 2 ^ LENGTH('w)" by (simp add: assms power_mult)
  then have "unat w < 256 ^ k" using unsigned_less [of w] by simp
  then show ?thesis
    by (simp add: bswap_def [of k "bswap k w"] bswap_bytes [OF assms] of_le_le_bytes)
qed

lemma swaps_invert [simp]:
  "ntohs (htons x) = x" "ntohl (htonl y) = y" "ntohll (htonll z) = z"
  by (simp_all add: htons_def ntohs_def htonl_def ntohl_def htonll_def ntohll_def bswap_bswap)

subsection \<open>Codes\<close>

datatype MemcType = Request | Response

fun type_code :: "MemcType \<Rightarrow> byte" where
  "type_code Request = 0x80"
| "type_code Response = 0x81"

datatype MemcCmd = Get | Set | Add | Replace | Delete | Increment | Decrement | Quit | Flush | Getq
  | Noop | Version | Getk | Getkq | Append | Prepend | Stat | Setq | Addq | Replaceq | Deleteq
  | Incrementq | Decrementq | Quitq | Flushq | Appendq | Prependq | Verbosity | Touch | Gat | Gatq
  | Gatk | Gatkq | Sasl_list_mechs | Sasl_auth | Sasl_step

fun cmd_code :: "MemcCmd \<Rightarrow> byte" where
  "cmd_code Get = 0x00" | "cmd_code Set = 0x01" | "cmd_code Add = 0x02" | "cmd_code Replace = 0x03"
| "cmd_code Delete = 0x04" | "cmd_code Increment = 0x05" | "cmd_code Decrement = 0x06"
| "cmd_code Quit = 0x07" | "cmd_code Flush = 0x08" | "cmd_code Getq = 0x09" | "cmd_code Noop = 0x0a"
| "cmd_code Version = 0x0b" | "cmd_code Getk = 0x0c" | "cmd_code Getkq = 0x0d" | "cmd_code Append = 0x0e"
| "cmd_code Prepend = 0x0f" | "cmd_code Stat = 0x10" | "cmd_code Setq = 0x11" | "cmd_code Addq = 0x12"
| "cmd_code Replaceq = 0x13" | "cmd_code Deleteq = 0x14" | "cmd_code Incrementq = 0x15"
| "cmd_code Decrementq = 0x16" | "cmd_code Quitq = 0x17" | "cmd_code Flushq = 0x18"
| "cmd_code Appendq = 0x19" | "cmd_code Prependq = 0x1a" | "cmd_code Verbosity = 0x1b"
| "cmd_code Touch = 0x1c" | "cmd_code Gat = 0x1d" | "cmd_code Gatq = 0x1e" | "cmd_code Gatk = 0x23"
| "cmd_code Gatkq = 0x24" | "cmd_code Sasl_list_mechs = 0x20" | "cmd_code Sasl_auth = 0x21"
| "cmd_code Sasl_step = 0x22"

datatype MemcStatus = OK | ErrorKeyNotFound | ErrorKeyExists | ErrorValueTooLarge | ErrorInvalidArgument
  | ErrorItemNotStored | ErrorNonNumeric | ErrorAuthFailed | ErrorUnknownCommand | ErrorOutOfMemory
  | ErrorBusy

fun status_code :: "MemcStatus \<Rightarrow> 16 word" where
  "status_code OK = 0x0000" | "status_code ErrorKeyNotFound = 0x0001"
| "status_code ErrorKeyExists = 0x0002" | "status_code ErrorValueTooLarge = 0x0003"
| "status_code ErrorInvalidArgument = 0x0004" | "status_code ErrorItemNotStored = 0x0005"
| "status_code ErrorNonNumeric = 0x0006" | "status_code ErrorAuthFailed = 0x0020"
| "status_code ErrorUnknownCommand = 0x0081" | "status_code ErrorOutOfMemory = 0x0082"
| "status_code ErrorBusy = 0x0085"

text \<open>No two commands share a code: the code determines the command. \<open>all_cmds\<close> is the enumeration in
  the order of the source.\<close>

definition all_cmds :: "MemcCmd list" where
  "all_cmds = [Get, Set, Add, Replace, Delete, Increment, Decrement, Quit, Flush, Getq, Noop, Version,
     Getk, Getkq, Append, Prepend, Stat, Setq, Addq, Replaceq, Deleteq, Incrementq, Decrementq, Quitq,
     Flushq, Appendq, Prependq, Verbosity, Touch, Gat, Gatq, Gatk, Gatkq, Sasl_list_mechs, Sasl_auth,
     Sasl_step]"

lemma all_cmds: "c \<in> set all_cmds"
  by (cases c) (simp_all add: all_cmds_def)

lemma cmd_codes_distinct: "distinct (map cmd_code all_cmds)"
  by (simp add: all_cmds_def)

lemma cmd_code_inj: "cmd_code c = cmd_code d \<longleftrightarrow> c = d"
  using cmd_codes_distinct all_cmds [of c] all_cmds [of d] by (auto simp: distinct_map inj_on_def)

text \<open>Commands compare by their codes, as scoped enumerations do.\<close>

instantiation MemcCmd :: linorder
begin

definition less_eq_MemcCmd :: "MemcCmd \<Rightarrow> MemcCmd \<Rightarrow> bool" where
  "less_eq_MemcCmd c d \<longleftrightarrow> cmd_code c \<le> cmd_code d"

definition less_MemcCmd :: "MemcCmd \<Rightarrow> MemcCmd \<Rightarrow> bool" where
  "less_MemcCmd c d \<longleftrightarrow> cmd_code c < cmd_code d"

instance
proof
  fix x y z :: MemcCmd
  show "x < y \<longleftrightarrow> x \<le> y \<and> \<not> y \<le> x" by (auto simp: less_eq_MemcCmd_def less_MemcCmd_def)
  show "x \<le> x" by (simp add: less_eq_MemcCmd_def)
  show "x \<le> y \<Longrightarrow> y \<le> z \<Longrightarrow> x \<le> z" by (simp add: less_eq_MemcCmd_def)
  show "x \<le> y \<Longrightarrow> y \<le> x \<Longrightarrow> x = y" by (simp add: less_eq_MemcCmd_def cmd_code_inj)
  show "x \<le> y \<or> y \<le> x" by (auto simp: less_eq_MemcCmd_def)
qed

end

subsection \<open>The header\<close>

definition SIZE :: nat where "SIZE = 24"

record MemcHeader =
  mtype :: byte
  cmd :: byte
  keylen :: "16 word"
  extralen :: byte
  datatyp :: byte
  status :: "16 word"
  blen :: "32 word"
  opaque :: "32 word"
  version :: "64 word"

definition hton :: "MemcHeader \<Rightarrow> MemcHeader" where
  "hton h0 =
     (let h = h0\<lparr>keylen := htons (keylen h0)\<rparr>;
          h = h\<lparr>status := htons (status h)\<rparr>;
          h = h\<lparr>blen := htonl (blen h)\<rparr>;
          h = h\<lparr>opaque := htonl (opaque h)\<rparr>
      in h\<lparr>version := htonll (ucast (opaque h))\<rparr>)"

definition ntoh :: "MemcHeader \<Rightarrow> MemcHeader" where
  "ntoh h0 =
     (let h = h0\<lparr>keylen := ntohs (keylen h0)\<rparr>;
          h = h\<lparr>status := ntohs (status h)\<rparr>;
          h = h\<lparr>blen := ntohl (blen h)\<rparr>;
          h = h\<lparr>opaque := ntohl (opaque h)\<rparr>
      in h\<lparr>version := ntohll (ucast (opaque h))\<rparr>)"

definition header :: "MemcType \<Rightarrow> MemcCmd \<Rightarrow> byte \<Rightarrow> 16 word \<Rightarrow> 32 word \<Rightarrow> MemcHeader" where
  "header t c el kl vl = hton
     \<lparr>mtype = type_code t, cmd = cmd_code c, keylen = kl, extralen = el, datatyp = 0,
      status = status_code OK, blen = ucast el + ucast kl + vl, opaque = 0, version = 0\<rparr>"

definition MemcRequest :: "MemcCmd \<Rightarrow> byte \<Rightarrow> 16 word \<Rightarrow> 32 word \<Rightarrow> MemcHeader" where
  "MemcRequest c el kl vl = header Request c el kl vl"

text \<open>The packed struct in memory, and a header read out of memory.\<close>

definition header_bytes :: "MemcHeader \<Rightarrow> byte list" where
  "header_bytes h = [mtype h, cmd h] @ le_bytes 2 (unat (keylen h)) @ [extralen h, datatyp h] @
     le_bytes 2 (unat (status h)) @ le_bytes 4 (unat (blen h)) @ le_bytes 4 (unat (opaque h)) @
     le_bytes 8 (unat (version h))"

definition header_of :: "byte list \<Rightarrow> MemcHeader" where
  "header_of bs =
     \<lparr>mtype = bs ! 0, cmd = bs ! 1, keylen = word_of_nat (of_le (slice bs 2 2)),
      extralen = bs ! 4, datatyp = bs ! 5, status = word_of_nat (of_le (slice bs 6 2)),
      blen = word_of_nat (of_le (slice bs 8 4)), opaque = word_of_nat (of_le (slice bs 12 4)),
      version = word_of_nat (of_le (slice bs 16 8))\<rparr>"

text \<open>\<open>MemcExtrasSet\<close>: flags and expiration, both 0.\<close>

definition extras_set_bytes :: "byte list" where
  "extras_set_bytes = le_bytes 4 0 @ le_bytes 4 0"

lemma length_header_bytes [simp]: "length (header_bytes h) = SIZE"
  by (simp add: header_bytes_def SIZE_def)

lemma length_extras [simp]: "length extras_set_bytes = 8"
  by (simp add: extras_set_bytes_def)

lemma word_of_le_bytes:
  assumes "LENGTH('w::len) = 8 * k"
  shows "word_of_nat (of_le (le_bytes k (unat (w :: 'w word)))) = w"
proof -
  have "(256 :: nat) ^ k = 2 ^ LENGTH('w)" by (simp add: assms power_mult)
  then have "unat w < 256 ^ k" using unsigned_less [of w] by simp
  then show ?thesis by (simp add: of_le_le_bytes)
qed

lemma header_of_bytes: "header_of (header_bytes h) = h"
proof -
  define k s b p v where fields: "k = le_bytes 2 (unat (keylen h))" "s = le_bytes 2 (unat (status h))"
    "b = le_bytes 4 (unat (blen h))" "p = le_bytes 4 (unat (opaque h))" "v = le_bytes 8 (unat (version h))"
  have len: "length k = 2" "length s = 2" "length b = 4" "length p = 4" "length v = 8"
    by (simp_all add: fields)
  have H: "header_bytes h = [mtype h, cmd h] @ k @ [extralen h, datatyp h] @ s @ b @ p @ v"
    by (simp add: header_bytes_def fields)
  have "slice (header_bytes h) 2 2 = k" "slice (header_bytes h) 6 2 = s"
    "slice (header_bytes h) 8 4 = b" "slice (header_bytes h) 12 4 = p" "slice (header_bytes h) 16 8 = v"
    by (simp_all add: H slice_def len)
  moreover have "header_bytes h ! 0 = mtype h" "header_bytes h ! 1 = cmd h"
    "header_bytes h ! 4 = extralen h" "header_bytes h ! 5 = datatyp h"
    by (simp_all add: H nth_append len)
  ultimately show ?thesis
    by (simp add: header_of_def fields word_of_le_bytes)
qed


text \<open>Reading back what a header's memory holds, the other way round.\<close>

lemma header_of_fields:
  assumes "length bs = 24"
  shows "header_bytes (header_of bs) = bs"
proof -
  have le: "le_bytes k (unat (word_of_nat (of_le (slice bs i k)) :: 'w::len word)) = slice bs i k"
    if "LENGTH('w) = 8 * k" "i + k \<le> 24" for i k
  proof -
    have l: "length (slice bs i k) = k" using that(2) assms by simp
    have "(256 :: nat) ^ k = 2 ^ LENGTH('w)" by (simp add: that(1) power_mult)
    then have "unat (word_of_nat (of_le (slice bs i k)) :: 'w word) = of_le (slice bs i k)"
      using of_le_bound [of "slice bs i k"] l by (simp add: unat_of_nat)
    with le_bytes_of_le [of "slice bs i k"] l show ?thesis by simp
  qed
  have parts: "bs = slice bs 0 2 @ slice bs 2 2 @ slice bs 4 2 @ slice bs 6 2 @ slice bs 8 4 @
      slice bs 12 4 @ slice bs 16 8"
  proof -
    have "drop i bs = slice bs i n @ drop (i + n) bs" for i n
      using append_take_drop_id [of n "drop i bs"] by (simp add: slice_def add.commute)
    note d = this
    have "bs = slice bs 0 2 @ drop 2 bs" using d [of 0 2] by (simp add: numeral_2_eq_2)
    also have "drop 2 bs = slice bs 2 2 @ drop 4 bs" using d [of 2 2] by simp
    also have "drop 4 bs = slice bs 4 2 @ drop 6 bs" using d [of 4 2] by simp
    also have "drop 6 bs = slice bs 6 2 @ drop 8 bs" using d [of 6 2] by simp
    also have "drop 8 bs = slice bs 8 4 @ drop 12 bs" using d [of 8 4] by simp
    also have "drop 12 bs = slice bs 12 4 @ drop 16 bs" using d [of 12 4] by simp
    also have "drop 16 bs = slice bs 16 8" using assms by (simp add: slice_def)
    finally show ?thesis .
  qed
  have two: "slice bs i 2 = [bs ! i, bs ! (i + 1)]" if "i + 2 \<le> 24" for i
    using that assms by (intro nth_equalityI) (auto simp: less_2_cases_iff)
  have "header_bytes (header_of bs) = slice bs 0 2 @ slice bs 2 2 @ slice bs 4 2 @ slice bs 6 2 @
      slice bs 8 4 @ slice bs 12 4 @ slice bs 16 8"
    using two [of 0] two [of 4] by (simp add: header_bytes_def header_of_def le)
  with parts show ?thesis by simp
qed

subsection \<open>Properties\<close>

text \<open>C27: The bytes a request header puts on the wire are those of the binary protocol: magic, opcode,
  key length, extras length, 0, status 0, total body length (extras, key and value, modulo
  \<open>2 ^ 32\<close>), opaque 0 and version 0, with every integer in big-endian order.\<close>

theorem request_wire_format:
  "header_bytes (MemcRequest c el kl vl) =
     [0x80, cmd_code c] @ rev (le_bytes 2 (unat kl)) @ [el, 0] @ [0, 0] @
     rev (le_bytes 4 ((unat el + unat kl + unat vl) mod 2 ^ 32)) @ replicate 4 0 @ replicate 8 0"
proof -
  have z: "bswap k (0 :: 'w::len word) = 0" for k
  proof -
    have "of_le (replicate n 0) = 0" for n by (induction n) auto
    moreover have "rev (le_bytes k 0) = replicate k 0" by (simp add: le_bytes_def map_replicate_const)
    ultimately show ?thesis by (simp add: bswap_def)
  qed
  have "unat (ucast el + ucast kl + vl :: 32 word) = (unat el + unat kl + unat vl) mod 2 ^ 32"
  proof -
    have "ucast el + ucast kl + vl = (word_of_nat (unat el + unat kl + unat vl) :: 32 word)" by simp
    then show ?thesis by (simp only: unat_of_nat) simp
  qed
  moreover have "le_bytes k 0 = replicate k 0" for k
    by (simp add: le_bytes_def map_replicate_const)
  ultimately show ?thesis
    by (simp add: MemcRequest_def header_def hton_def header_bytes_def htons_def htonl_def htonll_def
        bswap_bytes z Let_def) (simp add: numeral_2_eq_2)
qed

text \<open>A header survives the memory: writing its 24 bytes and reading them back gives the same header,
  and reading any 24 bytes and writing them gives the same bytes.\<close>

theorem header_memory_roundtrip:
  "header_of (header_bytes h) = h \<and> (length bs = SIZE \<longrightarrow> header_bytes (header_of bs) = bs)"
  by (simp add: header_of_bytes header_of_fields SIZE_def)

theorem header_memory_roundtrip_witness:
  "header_of (header_bytes (MemcRequest Setq 8 30 4096)) = MemcRequest Setq 8 30 4096 \<and>
   header_bytes (header_of (replicate 24 7)) = replicate 24 7"
  using header_memory_roundtrip [of "MemcRequest Setq 8 30 4096" "replicate 24 7"]
  by (simp add: SIZE_def)

text \<open>\<open>ntoh\<close> undoes \<open>hton\<close> on every field except \<open>version\<close>, which both compute from \<open>opaque\<close>: the
  version that went in is lost unless it happened to be the swapped opaque value.\<close>

theorem ntoh_hton_loses_version:
  "ntoh (hton h) = h\<lparr>version := htonll (ucast (opaque h))\<rparr> \<and>
   (ntoh (hton h) = h \<longleftrightarrow> version h = htonll (ucast (opaque h)))"
proof -
  have "ntoh (hton h) = h\<lparr>version := htonll (ucast (opaque h))\<rparr>"
    by (simp add: ntoh_def hton_def Let_def) (simp add: ntohll_def htonll_def)
  moreover have "h\<lparr>version := v\<rparr> = h \<longleftrightarrow> version h = v" for v by (cases h) auto
  ultimately show ?thesis by simp
qed

end
