(* ===== verification/Gen_Memcache.thy ===== *)
theory Gen_Memcache
  imports Gen_Base Options Memc_Protocol
begin

section \<open>The memcache generator (client/gen_memcache.hh, client/gen_memcache.cc)\<close>

text \<open>
  \<open>Memcache\<close>: gets and sets of the binary protocol over keys printed with zero padding. The table of
  keys, shared by all generators and built by the first, is an argument of the operations once built (\<open>key_mem\<close> of the environment,
  what \<open>kv_setup\<close> returns). Random choices between get and set are the sequence of their samples.
\<close>

record 'k MemReq = "'k Req" +
  req_op :: MemcCmd

definition MemReq :: "MemcCmd \<Rightarrow> bool \<Rightarrow> 'k option \<Rightarrow> 'k MemReq" where
  "MemReq op m c = \<lparr>measure_req = m, req_cb = c, start_ts = 0, sent_ts = 0, req_op = op\<rparr>"

record ('k, 'w) mem = "('k MemReq, 'w) gen" +
  seqid :: "64 word"
  setget_draws :: nat

record ('k, 'w) mem_env = "('k, 'w) gen_env" +
  setget_draw :: "nat \<Rightarrow> real"
  key_mem :: "byte list"

definition mem_new :: "nat \<Rightarrow> nat \<Rightarrow> nat \<Rightarrow> 64 word \<Rightarrow> 'w \<Rightarrow> ('k, 'w) mem" where
  "mem_new nreqs sock this seed w =
     \<lparr>requests = buffer_new (MemReq Get False None) nreqs, sock_ref = sock, this_ref = this, ticks = 0,
      world = w, seqid = seed, setget_draws = 0\<rparr>"

subsection \<open>Keys\<close>

definition KEYFMT_SIZE :: nat where "KEYFMT_SIZE = 30"

definition chars :: "string \<Rightarrow> byte list" where
  "chars s = map (\<lambda>c. word_of_nat (of_char c)) s"

text \<open>Printing into a buffer: the characters and the terminating zero.\<close>

definition c_string :: "string \<Rightarrow> byte list" where
  "c_string s = chars s @ [0]"

definition keyfmt :: "nat \<Rightarrow> string" where
  "keyfmt ks = ''%0'' @ show_nat ks @ ''lu''"

definition key_text :: "nat \<Rightarrow> nat \<Rightarrow> string" where
  "key_text ks i = snprintf (ks + 1) (pad_nat ks i)"

definition kv_setup :: "Config \<Rightarrow> byte list option \<Rightarrow> byte list res" where
  "kv_setup cfg done_keys =
     (case done_keys of
        Some keys \<Rightarrow> Inr keys
      | None \<Rightarrow>
          if KEYFMT_SIZE \<le> length (keyfmt (unat (keysize cfg)))
          then Inl (Runtime_error ''Memcache::Memcache: fmt buffer for printing keys too small'')
          else Inr (concat (map (\<lambda>i. c_string (key_text (unat (keysize cfg)) i)) [1..<unat (records cfg) + 1])))"

definition choose_cmd :: "('k, 'w) mem_env \<Rightarrow> Config \<Rightarrow> ('k, 'w) mem \<Rightarrow> MemcCmd \<times> ('k, 'w) mem" where
  "choose_cmd env cfg u =
     ((if setget_draw env (setget_draws u) < setget cfg then Set else Get),
      u\<lparr>setget_draws := Suc (setget_draws u)\<rparr>)"

text \<open>The pointer, as an offset into the table, and the length as \<open>uint16_t\<close>.\<close>

definition choose_key :: "Config \<Rightarrow> 64 word \<Rightarrow> (nat \<times> 16 word) res" where
  "choose_key cfg i =
     (if records cfg = 0 then Inl (Undefined_behaviour ''division by zero'')
      else Inr ((unat i mod unat (records cfg)) * (unat (keysize cfg) + 1), ucast (keysize cfg)))"

definition read_mem :: "byte list \<Rightarrow> nat \<Rightarrow> nat \<Rightarrow> byte list res" where
  "read_mem mem off n =
     (if off + n \<le> length mem then Inr (slice mem off n)
      else Inl (Undefined_behaviour ''read past the end of an array''))"

subsection \<open>Sending\<close>

definition mem_sent :: "('k, 'w) mem_env \<Rightarrow> (unit, nat, ('k, 'w) mem) tx_handler" where
  "mem_sent env cb s data st u =
     (if sock_ref u \<noteq> s then Inl (Runtime_error ''Memcache::sent_request: wrong socket in callback'')
      else if st \<noteq> 0 then Inr u
      else let (t, u) = read_clock env u in Inr (set_req u data (\<lambda>r. r\<lparr>sent_ts := t\<rparr>)))"

text \<open>The part of \<open>_send_request\<close> that fills the write queue: the new socket and the body length.\<close>

definition mem_write_request :: "('k, 'w) mem_env \<Rightarrow> Config \<Rightarrow> MemcCmd \<Rightarrow> nat \<Rightarrow> 16 word \<Rightarrow>
    ('c, 't, 'd) Sock \<Rightarrow> (('c, 't, 'd) Sock \<times> 32 word) res" where
  "mem_write_request env cfg op key klen s =
     (if op = Get then
        rbind (write_emplace s (header_bytes (header Request op 0 klen 0))) (\<lambda>s.
        rbind (read_mem (key_mem env) key (unat klen)) (\<lambda>k.
        rbind (sock_write s k) (\<lambda>s.
        Inr (s, ucast klen))))
      else
        rbind (write_emplace s (header_bytes (header Request op 8 klen (ucast (valsize cfg))))) (\<lambda>s.
        rbind (write_emplace s extras_set_bytes) (\<lambda>s.
        rbind (read_mem (key_mem env) key (unat klen)) (\<lambda>k.
        rbind (sock_write s k) (\<lambda>s.
        rbind (write_prepare s (unat (valsize cfg))) (\<lambda>_.
        rbind (write_commit s (unat (valsize cfg))) (\<lambda>s.
        Inr (s, ucast (ucast klen + 8 + valsize cfg :: 64 word)))))))))"

text \<open>The header of a response, copied together when it is in two segments: the second copy goes to
  \<open>&hdr + n\<close>, which is \<open>n\<close> headers further.\<close>

definition resp_header :: "byte list \<Rightarrow> byte list option \<Rightarrow> MemcHeader res" where
  "resp_header seg1 seg2 =
     (case seg2 of
        None \<Rightarrow> Inr (header_of seg1)
      | Some bs \<Rightarrow>
          let off = length seg1 * SIZE in
          if bs = [] then Inr (header_of seg1)
          else if off + length bs \<le> SIZE then Inr (header_of (blit (seg1 @ replicate (SIZE - length seg1) 0) off bs))
          else Inl (Undefined_behaviour ''memcpy past the end of an object''))"

definition mem_recv :: "('k, 'w) mem_env \<Rightarrow> (unit, nat, ('k, 'w) mem) rx_handler" where
  "mem_recv env cb s data seg1 seg2 st u =
     (if sock_ref u \<noteq> s then Inl (Runtime_error ''Memcache::recv_response: wrong socket in callback'')
      else if st \<noteq> 0 then
        rbind (drop_items (requests u) 1) (\<lambda>q. Inr (0, u\<lparr>requests := q\<rparr>))
      else if seg_len seg1 seg2 \<noteq> SIZE then
        Inl (Runtime_error ''Memcache::recv_response: unexpected packet size'')
      else
        rbind (dequeue_one (requests u)) (\<lambda>(p, q).
        if data \<noteq> p then
          Inl (Runtime_error ''Memcache::recv_response: wrong response-request packet match'')
        else
          let (t, u) = read_clock env (u\<lparr>requests := q\<rparr>); req = buf q ! p in
          rbind (latencies ''Memcache'' req t) (\<lambda>(queue_us, service_us).
          rbind
            (if req_op req \<noteq> Set
             then rbind (resp_header seg1 seg2) (\<lambda>hdr. Inr (ntohl (blen hdr)))
             else Inr 0)
            (\<lambda>bodylen.
          rbind (call_request_cb env (req_cb req) (this_ref u) queue_us service_us 0
                   (SIZE + unat bodylen) (measure_req req) (world u)) (\<lambda>w.
          Inr (unat bodylen, u\<lparr>world := w\<rparr>))))))"

definition mem_send :: "('k, 'w) mem_env \<Rightarrow> Config \<Rightarrow> rd_result list \<Rightarrow> wr_result list \<Rightarrow> bool \<Rightarrow> 'k option \<Rightarrow>
    (unit, unit, nat) Sock \<times> ('k, 'w) mem \<Rightarrow> byte list \<Rightarrow>
    (nat \<times> (unit, unit, nat) Sock \<times> ('k, 'w) mem \<times> rd_result list \<times> wr_result list \<times> byte list) res" where
  "mem_send env cfg ks ws meas cb = (\<lambda>(s, u) wire.
     let i = seqid u; u = u\<lparr>seqid := i + 1\<rparr>; (op, u) = choose_cmd env cfg u in
     rbind (choose_key cfg i) (\<lambda>(key, klen).
     rbind (mem_write_request env cfg op key klen s) (\<lambda>(s, bodlen).
     rbind (queue_emplace (requests u) (MemReq op meas cb)) (\<lambda>(p, q).
     let (t, u) = read_clock env (u\<lparr>requests := q\<rparr>); u = set_req u p (\<lambda>r. r\<lparr>start_ts := t\<rparr>) in
     rbind (write_cb_point s (Some ()) p) (\<lambda>s.
     rbind (try_tx (mem_sent env) ws (s, u) wire) (\<lambda>(s, u, ws, wire).
     rbind (sock_read (mem_recv env) ks (s, u)
              \<lparr>hdrlen = SIZE, hdrcb = Some (), bodylen = 0, bodycb = None, rxdata = p\<rparr>)
       (\<lambda>(s, u, ks).
     Inr (SIZE + unat bodlen, s, u, ks, ws, wire))))))))"

subsection \<open>The key table\<close>

lemma length_chars [simp]: "length (chars s) = length s"
  by (simp add: chars_def)

lemma length_key_text [simp]: "length (key_text ks i) = ks"
  by (simp add: key_text_def snprintf_def)

lemma length_c_string [simp]: "length (c_string s) = length s + 1"
  by (simp add: c_string_def)

lemma length_keyfmt: "length (keyfmt (unat (k :: 64 word))) < KEYFMT_SIZE"
proof -
  have "unat k < 2 ^ 64" using unsigned_less [of k, where 'a = nat] by simp
  then have "unat k < 10 ^ 20" by (rule less_trans) simp
  then have "length (show_nat (unat k)) \<le> 20" by (rule length_show_le) simp
  then show ?thesis by (simp add: keyfmt_def KEYFMT_SIZE_def)
qed

lemma length_concat_same: "\<forall>x \<in> set xss. length x = n \<Longrightarrow> length (concat xss) = length xss * n"
  by (induction xss) auto

lemma slice_concat:
  assumes "\<forall>x \<in> set xss. length x = n" "j < length xss"
  shows "slice (concat xss) (j * n) n = xss ! j"
  using assms
proof (induction xss arbitrary: j)
  case (Cons x xss)
  then show ?case by (cases j) (auto simp: slice_def)
qed simp

lemma slice_slice: "k \<le> n \<Longrightarrow> slice xs i k = take k (slice xs i n)"
  by (simp add: slice_def min_def)

lemma kv_setup_table:
  assumes "kv_setup cfg None = Inr keys" "j < unat (records cfg)"
  shows "j * (unat (keysize cfg) + 1) + unat (keysize cfg) \<le> length keys \<and>
    slice keys (j * (unat (keysize cfg) + 1)) (unat (keysize cfg)) = chars (key_text (unat (keysize cfg)) (j + 1))"
proof -
  let ?ks = "unat (keysize cfg)" and ?n = "unat (records cfg)"
  let ?xss = "map (\<lambda>i. c_string (key_text ?ks i)) [1..<?n + 1]"
  have keys: "keys = concat ?xss" using assms(1) by (auto simp: kv_setup_def split: if_splits)
  have len: "\<forall>x \<in> set ?xss. length x = ?ks + 1" by simp
  have L: "length keys = ?n * (?ks + 1)" using length_concat_same [OF len] by (simp add: keys)
  have "(j + 1) * (?ks + 1) \<le> ?n * (?ks + 1)" using assms(2) by (intro mult_right_mono) auto
  then have "j * (?ks + 1) + ?ks \<le> length keys" by (simp add: L)
  moreover have "slice keys (j * (?ks + 1)) (?ks + 1) = c_string (key_text ?ks (j + 1))"
    using slice_concat [OF len, of j] assms(2) by (simp add: keys del: upt_Suc)
  then have "slice keys (j * (?ks + 1)) ?ks = chars (key_text ?ks (j + 1))"
    by (simp add: slice_slice [of ?ks "?ks + 1"] c_string_def)
  ultimately show ?thesis by simp
qed

lemma chars_inj: "chars s = chars t \<longleftrightarrow> s = t"
proof -
  have "inj (\<lambda>c. word_of_nat (of_char c) :: byte)"
  proof (rule injI)
    fix c d :: char
    assume "(word_of_nat (of_char c) :: byte) = word_of_nat (of_char d)"
    then have "unat (word_of_nat (of_char c) :: byte) = unat (word_of_nat (of_char d) :: byte)" by simp
    then have "(of_char c :: nat) mod 256 = of_char d mod 256" by (simp add: unat_of_nat)
    then show "c = d" by simp
  qed
  then show ?thesis by (auto simp: chars_def inj_map_eq_map)
qed

lemma key_text_inj:
  assumes "i < 10 ^ ks" "j < 10 ^ ks" "0 < ks" "key_text ks i = key_text ks j"
  shows "i = j"
  using keys_distinct [OF assms(1-3)] assms(4) by (simp add: key_text_def)

subsection \<open>Responses match requests\<close>

text \<open>The handler without the copy: the header is the segments put together.\<close>

definition mem_recv_joined :: "('k, 'w) mem_env \<Rightarrow> (unit, nat, ('k, 'w) mem) rx_handler" where
  "mem_recv_joined env cb s data seg1 seg2 st u =
     mem_recv env cb s data (seg1 @ (case seg2 of None \<Rightarrow> [] | Some x \<Rightarrow> x)) None st u"

lemma resp_header_approx:
  assumes "seg_len seg1 (Some seg2) = SIZE"
  shows "approx (resp_header seg1 (Some seg2)) (resp_header (seg1 @ seg2) None)"
proof (cases "seg1 = []")
  case True
  then show ?thesis using assms by (auto simp: resp_header_def blit_def SIZE_def)
next
  case False
  then have "SIZE \<le> length seg1 * SIZE" by (simp add: Suc_le_eq)
  moreover have "0 < length seg2" if "seg2 \<noteq> []" using that by simp
  ultimately have "\<not> length seg1 * SIZE + length seg2 \<le> SIZE" if "seg2 \<noteq> []"
    using that by linarith
  then show ?thesis by (auto simp: resp_header_def approx_def Let_def)
qed

lemma mem_recv_approx: "handler_approx (mem_recv env) (mem_recv_joined env)"
  unfolding handler_approx_def
proof (intro allI)
  fix cb s data seg1 seg2 st u
  show "approx (mem_recv env cb s data seg1 seg2 st u) (mem_recv_joined env cb s data seg1 seg2 st u)"
  proof (cases seg2)
    case None
    then show ?thesis by (simp add: mem_recv_joined_def)
  next
    case (Some x)
    show ?thesis
    proof (cases "seg_len seg1 (Some x) = SIZE")
      case False
      then show ?thesis using Some by (simp add: mem_recv_joined_def mem_recv_def)
    next
      case True
      then have *: "length seg1 + length x = SIZE" by simp
      show ?thesis
        unfolding mem_recv_joined_def mem_recv_def Some Let_def
        using * by (auto intro!: approx_rbind resp_header_approx split: prod.splits)
    qed
  qed
qed

definition mem_good :: "nat \<Rightarrow> ('k, 'w) mem \<Rightarrow> bool" where
  "mem_good this u \<longleftrightarrow> wf_buffer (requests u) \<and> sock_ref u = this"

definition mem_mismatch :: "('k, 'w) mem_env \<Rightarrow> exn \<Rightarrow> bool" where
  "mem_mismatch env e \<longleftrightarrow>
     e \<in> {Runtime_error ''Memcache::recv_response: wrong socket in callback'',
       Runtime_error ''Memcache::recv_response: unexpected packet size'',
       Runtime_error ''Memcache::recv_response: wrong response-request packet match''} \<and>
     (\<forall>k this q sv w n m wd. request_cb env k this q sv w n m wd \<noteq> Inl e)"

lemma mem_recv_matched:
  assumes "mem_good this u" "slots (requests u) = p # ps" "length bs = SIZE"
  shows "\<exists>q. mem_recv env cb this p bs None 0 u =
      (let req = buf (requests u) ! p; n = (if req_op req \<noteq> Set then unat (ntohl (blen (header_of bs))) else 0) in
       rbind (latencies ''Memcache'' req (clk env (ticks u))) (\<lambda>(queue_us, service_us).
       rbind (call_request_cb env (req_cb req) (this_ref u) queue_us service_us 0
                (SIZE + n) (measure_req req) (world u)) (\<lambda>w.
       Inr (n, u\<lparr>requests := q, ticks := Suc (ticks u), world := w\<rparr>)))) \<and>
    wf_buffer q \<and> slots q = ps"
proof -
  have wf: "wf_buffer (requests u)" using assms(1) by (simp add: mem_good_def)
  have used: "0 < used (requests u)" using arg_cong [OF assms(2), of length] by simp
  then have "slots (requests u) ! 0 = head (requests u)"
    using wf by (simp add: ring_ix_def wf_buffer_def)
  then have p: "p = head (requests u)" using assms(2) by simp
  obtain q where q: "dequeue_one (requests u) = Inr (p, q)" "wf_buffer q" "buf q = buf (requests u)"
    "slots q = tl (slots (requests u))"
    using dequeue_one_ok [OF wf used] p by auto
  show ?thesis
    using assms q by (intro exI [of _ q])
      (auto simp: mem_recv_def mem_good_def read_clock_def resp_header_def Let_def rbind_assoc intro!: rbind_cong)
qed

interpretation mem: fifo_generator "mem_recv_joined env" this SIZE "\<lambda>u. slots (requests u)" "mem_good this"
    "mem_mismatch env"
  for env :: "('k, 'w) mem_env" and this
proof unfold_locales
  show "mem_recv_joined env cb this d s1 (Some s2) st u = mem_recv_joined env cb this d (s1 @ s2) None st u"
    for cb this d s1 s2 st u by (simp add: mem_recv_joined_def)
  show "0 < SIZE" by (simp add: SIZE_def)
next
  fix u :: "('k, 'w) mem" and p ps cb len u' and bs :: "byte list"
  assume a: "mem_good this u" "slots (requests u) = p # ps" "length bs = SIZE"
    "mem_recv_joined env cb this p bs None 0 u = Inr (len, u')"
  then have "mem_recv env cb this p bs None 0 u = Inr (len, u')" by (simp add: mem_recv_joined_def)
  note mem_recv_matched [OF a(1-3), of env cb, unfolded this]
  with a(1) show "mem_good this u' \<and> slots (requests u') = ps"
    by (auto simp: Let_def res_simps mem_good_def dest!: sym [of "Inr _"])
next
  fix u :: "('k, 'w) mem" and p ps cb e and bs :: "byte list"
  assume a: "mem_good this u" "slots (requests u) = p # ps" "length bs = SIZE"
    "mem_recv_joined env cb this p bs None 0 u = Inl e"
  then have "mem_recv env cb this p bs None 0 u = Inl e" by (simp add: mem_recv_joined_def)
  note mem_recv_matched [OF a(1-3), of env cb, unfolded this]
  then show "\<not> mem_mismatch env e"
    by (auto simp: Let_def res_simps mem_mismatch_def latencies_def split: if_splits
        dest!: sym [of "Inl _"] call_request_cb_err)
next
  show "mem_mismatch env e \<Longrightarrow>
      \<exists>m. e = Runtime_error m \<and> m \<noteq> ''Sock::rx: read returned more bytes than asked''" for e
    by (auto simp: mem_mismatch_def)
qed

lemma mem_sent_keeps:
  "tx_keeps (mem_sent env) (\<lambda>u v. slots (requests v) = slots (requests u) \<and> (mem_good this u \<longrightarrow> mem_good this v))"
  by (auto simp: tx_keeps_def mem_sent_def mem_good_def read_clock_def Let_def split: if_splits)

definition mem_inv :: "(unit, unit, nat) Sock \<times> ('k, 'w) mem \<Rightarrow> bool" where
  "mem_inv = (\<lambda>(s, u). sock_inv s \<and> mem_good (self s) u \<and>
     in_order SIZE (contents (rx_cbs s)) (slots (requests u)))"

text \<open>The bytes of a request.\<close>

definition request_bytes :: "Config \<Rightarrow> MemcCmd \<Rightarrow> byte list \<Rightarrow> byte list \<Rightarrow> byte list" where
  "request_bytes cfg op key val =
     (if op = Get then header_bytes (header Request op 0 (word_of_nat (length key)) 0) @ key
      else header_bytes (header Request op 8 (word_of_nat (length key)) (ucast (valsize cfg))) @
        extras_set_bytes @ key @ val)"

lemma mem_write_request_appends:
  assumes "sock_inv s" "mem_write_request env cfg op key klen s = Inr (s', bodlen)"
  shows "\<exists>k val. read_mem (key_mem env) key (unat klen) = Inr k \<and> length k = unat klen \<and>
    (op \<noteq> Get \<longrightarrow> length val = unat (valsize cfg)) \<and>
    appended s (request_bytes cfg op k val) s' \<and>
    bodlen = (if op = Get then ucast klen else ucast (ucast klen + 8 + valsize cfg :: 64 word))"
proof (cases "op = Get")
  case True
  with assms(2) obtain s1 k where w: "write_emplace s (header_bytes (header Request op 0 klen 0)) = Inr s1"
    "read_mem (key_mem env) key (unat klen) = Inr k" "sock_write s1 k = Inr s'" "bodlen = ucast klen"
    by (auto simp: mem_write_request_def res_simps)
  have len: "length k = unat klen" using w(2) by (auto simp: read_mem_def split: if_splits)
  have a1: "appended s (header_bytes (header Request op 0 klen 0)) s1"
    by (rule write_emplace_appends [OF sock_inv_wbuf [OF assms(1)] w(1)])
  have "appended s1 k s'" by (rule sock_write_appends [OF appended_wf [OF a1] w(3)])
  from appended_trans [OF a1 this] True w len show ?thesis by (simp add: request_bytes_def)
next
  case False
  let ?h = "header_bytes (header Request op 8 klen (ucast (valsize cfg)))"
  from False assms(2) obtain s1 s2 s3 k seg where w: "write_emplace s ?h = Inr s1"
    "write_emplace s1 extras_set_bytes = Inr s2" "read_mem (key_mem env) key (unat klen) = Inr k"
    "sock_write s2 k = Inr s3" "write_prepare s3 (unat (valsize cfg)) = Inr seg"
    "write_commit s3 (unat (valsize cfg)) = Inr s'" "bodlen = ucast (ucast klen + 8 + valsize cfg :: 64 word)"
    by (auto simp: mem_write_request_def res_simps)
  have len: "length k = unat klen" using w(3) by (auto simp: read_mem_def split: if_splits)
  have a1: "appended s ?h s1" by (rule write_emplace_appends [OF sock_inv_wbuf [OF assms(1)] w(1)])
  have a2: "appended s1 extras_set_bytes s2" by (rule write_emplace_appends [OF appended_wf [OF a1] w(2)])
  have a3: "appended s2 k s3" by (rule sock_write_appends [OF appended_wf [OF a2] w(4)])
  obtain val where val: "length val = unat (valsize cfg)" "appended s3 val s'"
    using commit_raw [OF appended_wf [OF a3] w(5,6)] by blast
  from appended_trans [OF a1 appended_trans [OF a2 appended_trans [OF a3 val(2)]]] False w len val(1)
  show ?thesis by (intro exI [of _ k] exI [of _ val]) (simp add: request_bytes_def)
qed

lemma mem_send_steps:
  assumes "mem_send env cfg ks ws meas cb (s, u) wire = Inr (n, s', u', ks', ws', wire')"
  obtains op u1 key klen s1 bodlen p q s2 s3 u3 where
    "choose_cmd env cfg (u\<lparr>seqid := seqid u + 1\<rparr>) = (op, u1)" "choose_key cfg (seqid u) = Inr (key, klen)"
    "mem_write_request env cfg op key klen s = Inr (s1, bodlen)"
    "queue_emplace (requests u1) (MemReq op meas cb) = Inr (p, q)"
    "write_cb_point s1 (Some ()) p = Inr s2"
    "try_tx (mem_sent env) ws (s2, set_req (u1\<lparr>requests := q, ticks := Suc (ticks u1)\<rparr>) p
       (\<lambda>r. r\<lparr>start_ts := clk env (ticks u1)\<rparr>)) wire = Inr (s3, u3, ws', wire')"
    "sock_read (mem_recv env) ks (s3, u3)
       \<lparr>hdrlen = SIZE, hdrcb = Some (), bodylen = 0, bodycb = None, rxdata = p\<rparr> = Inr (s', u', ks')"
    "n = SIZE + unat bodlen"
  using assms
  by (auto simp: mem_send_def rbind_eq_Inr Let_def read_clock_def split: prod.splits)

lemma choose_cmd_frame:
  "choose_cmd env cfg u = (op, u') \<Longrightarrow> requests u' = requests u \<and> sock_ref u' = sock_ref u \<and> (op = Get \<or> op = Set)"
  by (auto simp: choose_cmd_def)

lemma mem_send_inv:
  assumes inv: "mem_inv (s, u)"
    and send: "mem_send env cfg ks ws meas cb (s, u) wire = Inr (n, s', u', ks', ws', wire')"
  shows "mem_inv (s', u') \<and> self s' = self s"
proof -
  have i: "sock_inv s" "mem_good (self s) u" "in_order SIZE (contents (rx_cbs s)) (slots (requests u))"
    using inv by (simp_all add: mem_inv_def)
  from send obtain op u1 key klen s1 bodlen p q s2 s3 u3 where st:
    "choose_cmd env cfg (u\<lparr>seqid := seqid u + 1\<rparr>) = (op, u1)" "choose_key cfg (seqid u) = Inr (key, klen)"
    "mem_write_request env cfg op key klen s = Inr (s1, bodlen)"
    "queue_emplace (requests u1) (MemReq op meas cb) = Inr (p, q)"
    "write_cb_point s1 (Some ()) p = Inr s2"
    "try_tx (mem_sent env) ws (s2, set_req (u1\<lparr>requests := q, ticks := Suc (ticks u1)\<rparr>) p
       (\<lambda>r. r\<lparr>start_ts := clk env (ticks u1)\<rparr>)) wire = Inr (s3, u3, ws', wire')"
    "sock_read (mem_recv env) ks (s3, u3)
       \<lparr>hdrlen = SIZE, hdrcb = Some (), bodylen = 0, bodycb = None, rxdata = p\<rparr> = Inr (s', u', ks')"
    by (elim mem_send_steps) blast
  note fr = choose_cmd_frame [OF st(1)]
  have wfq: "wf_buffer (requests u1)" using i(2) fr by (simp add: mem_good_def)
  note q = slots_emplace [OF wfq st(4)]
  obtain data where a: "appended s data s1" using mem_write_request_appends [OF i(1) st(3)] by blast
  have s1: "sock_inv s1" "rx_cbs s1 = rx_cbs s" "self s1 = self s"
    using appended_inv [OF i(1) a] appended_frame [OF a] by auto
  have s2: "sock_inv s2" "rx_cbs s2 = rx_cbs s" "self s2 = self s"
    using cb_point_inv [OF s1(1) st(5)] cb_point_frame [OF st(5)] s1 by auto
  let ?u2 = "set_req (u1\<lparr>requests := q, ticks := Suc (ticks u1)\<rparr>) p
       (\<lambda>r. r\<lparr>start_ts := clk env (ticks u1)\<rparr>)"
  have u2: "mem_good (self s) ?u2" "slots (requests ?u2) = slots (requests u) @ [p]"
    using i(2) q fr by (simp_all add: mem_good_def)
  from try_tx_frame [OF mem_sent_keeps [of env "self s"] s2(1) st(6)] s2 u2
  have s3: "sock_inv s3" "rx_cbs s3 = rx_cbs s" "self s3 = self s" "mem_good (self s) u3"
    "slots (requests u3) = slots (requests u) @ [p]" by auto
  have ord: "in_order SIZE (contents (rx_cbs s3)) (slots (requests u))" using s3(2) i(3) by simp
  have "sock_read (mem_recv_joined env) ks (s3, u3)
       \<lparr>hdrlen = SIZE, hdrcb = Some (), bodylen = 0, bodycb = None, rxdata = p\<rparr> = Inr (s', u', ks')"
    by (rule approx_Inr [OF sock_read_approx [OF mem_recv_approx] st(7)])
  with mem.read_in_order [OF s3(1,3,4) ord s3(5), where env = env and ks = ks and
      r = "\<lparr>hdrlen = SIZE, hdrcb = Some (), bodylen = 0, bodycb = None, rxdata = p\<rparr>"]
  show ?thesis by (simp add: mem_inv_def)
qed

lemma mem_run_io_inv:
  assumes "mem_inv (s, u)"
    and "sock_run_io (mem_recv env) (mem_sent env) ks ws so_error events (s, u) wire = Inr (s', u', ks', ws', wire')"
  shows "mem_inv (s', u')"
  using mem.run_io_in_order [OF mem_sent_keeps _ _ _ _ approx_Inr [OF run_io_approx [OF mem_recv_approx] assms(2)]]
    assms(1)
  by (auto simp: mem_inv_def)

lemma unat_up: "unat (ucast (k :: 16 word) :: 32 word) = unat k"
proof -
  have "unat k < 2 ^ 16" using unsigned_less [of k, where 'a = nat] by simp
  then have "unat k < 2 ^ 32" by (rule less_trans) simp
  then show ?thesis by (simp only: unsigned_ucast_eq) (simp add: take_bit_nat_eq_self)
qed

text \<open>What a send puts on the wire or keeps for it.\<close>

lemma mem_send_bytes:
  assumes inv: "mem_inv (s, u)" and kv: "kv_setup cfg None = Inr (key_mem env)"
    and ks: "unat (keysize cfg) < 2 ^ 16"
    and send: "mem_send env cfg ks' ws meas cb (s, u) wire = Inr (n, s', u', ks'', ws', wire')"
  shows "\<exists>op val. (op = Get \<or> op = Set) \<and> (op = Set \<longrightarrow> length val = unat (valsize cfg)) \<and>
    wire' @ contents (wbuf s') = wire @ contents (wbuf s) @
      request_bytes cfg op (chars (key_text (unat (keysize cfg)) (unat (seqid u) mod unat (records cfg) + 1))) val \<and>
    (unat (keysize cfg) + 8 + unat (valsize cfg) < 2 ^ 32 \<longrightarrow>
      n = length (request_bytes cfg op (chars (key_text (unat (keysize cfg)) (unat (seqid u) mod unat (records cfg) + 1))) val))"
proof -
  have i: "sock_inv s" "mem_good (self s) u" "in_order SIZE (contents (rx_cbs s)) (slots (requests u))"
    using inv by (simp_all add: mem_inv_def)
  from send obtain op u1 key klen s1 bodlen p q s2 s3 u3 where st:
    "choose_cmd env cfg (u\<lparr>seqid := seqid u + 1\<rparr>) = (op, u1)" "choose_key cfg (seqid u) = Inr (key, klen)"
    "mem_write_request env cfg op key klen s = Inr (s1, bodlen)"
    "write_cb_point s1 (Some ()) p = Inr s2"
    "try_tx (mem_sent env) ws (s2, set_req (u1\<lparr>requests := q, ticks := Suc (ticks u1)\<rparr>) p
       (\<lambda>r. r\<lparr>start_ts := clk env (ticks u1)\<rparr>)) wire = Inr (s3, u3, ws', wire')"
    "sock_read (mem_recv env) ks' (s3, u3)
       \<lparr>hdrlen = SIZE, hdrcb = Some (), bodylen = 0, bodycb = None, rxdata = p\<rparr> = Inr (s', u', ks'')"
    "n = SIZE + unat bodlen"
    by (elim mem_send_steps) blast
  let ?ks = "unat (keysize cfg)" and ?j = "unat (seqid u) mod unat (records cfg)"
  let ?key = "chars (key_text ?ks (?j + 1))"
  note op = choose_cmd_frame [OF st(1)]
  have key: "key = ?j * (?ks + 1)" "unat klen = ?ks" "klen = ucast (keysize cfg)" and "records cfg \<noteq> 0"
    using st(2) ks by (auto simp: choose_key_def unsigned_ucast_eq take_bit_nat_eq_self split: if_splits)
  then have "?j < unat (records cfg)" by (simp add: unat_gt_0)
  from kv_setup_table [OF kv this] have tab: "read_mem (key_mem env) key (unat klen) = Inr ?key"
    by (simp add: read_mem_def key(1) key(2))
  obtain val where val: "op \<noteq> Get \<longrightarrow> length val = unat (valsize cfg)"
    "appended s (request_bytes cfg op ?key val) s1"
    "bodlen = (if op = Get then ucast klen else ucast (ucast klen + 8 + valsize cfg :: 64 word))"
  proof -
    obtain k val where k: "read_mem (key_mem env) key (unat klen) = Inr k"
      "op \<noteq> Get \<longrightarrow> length val = unat (valsize cfg)" "appended s (request_bytes cfg op k val) s1"
      "bodlen = (if op = Get then ucast klen else ucast (ucast klen + 8 + valsize cfg :: 64 word))"
      using mem_write_request_appends [OF i(1) st(3)] by blast
    have "k = ?key" using k(1) tab by (metis sum.inject(2))
    from k(2-4) [unfolded this] that show thesis by blast
  qed
  have inv1: "sock_inv s1" using appended_inv [OF i(1) val(2)] .
  have inv2: "sock_inv s2" using cb_point_inv [OF inv1 st(4)] .
  have "wire' @ contents (wbuf s3) = wire @ contents (wbuf s) @ request_bytes cfg op ?key val"
    using try_tx_frame [OF mem_sent_keeps [of env "self s"] inv2 st(5)] cb_point_frame [OF st(4)] val(2)
    by (simp add: appended_def) auto
  moreover have "wbuf s' = wbuf s3" by (rule sock_read_wbuf [OF _ st(6)])
    (use try_tx_frame [OF mem_sent_keeps [of env "self s"] inv2 st(5)] in simp)
  moreover have "n = length (request_bytes cfg op ?key val)" if b: "?ks + 8 + unat (valsize cfg) < 2 ^ 32"
  proof (cases "op = Get")
    case True
    then show ?thesis using st(7) val(3) key(2) by (simp add: request_bytes_def unat_up)
  next
    case False
    have "unat (ucast klen + 8 + valsize cfg :: 64 word) = ?ks + 8 + unat (valsize cfg)"
    proof -
      have "(ucast klen :: 64 word) = keysize cfg"
        using arg_cong [OF key(2), of "word_of_nat :: nat \<Rightarrow> 64 word"] by simp
      then have "ucast klen + 8 + valsize cfg = (word_of_nat (?ks + 8 + unat (valsize cfg)) :: 64 word)"
        by simp
      moreover have "(?ks + 8 + unat (valsize cfg)) mod 2 ^ 64 = ?ks + 8 + unat (valsize cfg)"
        using b by (intro mod_less) simp
      ultimately show ?thesis by (simp only: unat_of_nat) simp
    qed
    then have "unat bodlen = ?ks + 8 + unat (valsize cfg)"
      using val(3) False b by (simp add: unsigned_ucast_eq take_bit_nat_eq_self)
    with False st(7) val(1) show ?thesis by (simp add: request_bytes_def)
  qed
  ultimately show ?thesis using op val(1) by (intro exI [of _ op] exI [of _ val]) auto
qed

inductive mem_reach :: "('k, 'w) mem_env \<Rightarrow> Config \<Rightarrow> (unit, unit, nat) Sock \<times> ('k, 'w) mem \<Rightarrow>
    (unit, unit, nat) Sock \<times> ('k, 'w) mem \<Rightarrow> bool" for env cfg su0 where
  mem_start: "mem_reach env cfg su0 su0"
| mem_connect: "mem_reach env cfg su0 (s, u) \<Longrightarrow> sock_connect k s = Inr s' \<Longrightarrow> mem_reach env cfg su0 (s', u)"
| mem_request: "mem_reach env cfg su0 (s, u) \<Longrightarrow>
    mem_send env cfg ks ws meas cb (s, u) wire = Inr (n, s', u', ks', ws', wire') \<Longrightarrow>
    mem_reach env cfg su0 (s', u')"
| mem_events: "mem_reach env cfg su0 (s, u) \<Longrightarrow>
    sock_run_io (mem_recv env) (mem_sent env) ks ws so_error events (s, u) wire =
      Inr (s', u', ks', ws', wire') \<Longrightarrow> mem_reach env cfg su0 (s', u')"

lemma mem_new_inv:
  "0 < nreqs \<Longrightarrow> 0 < nchars \<Longrightarrow> mem_inv (sock_new nreqs nchars sock 0, mem_new nreqs sock this seed w)"
  by (simp add: mem_inv_def sock_new_inv mem_good_def mem_new_def wf_buffer_new)
    (simp add: sock_new_def slots_def)

lemma mem_reach_inv: "mem_reach env cfg su0 su \<Longrightarrow> mem_inv su0 \<Longrightarrow> mem_inv su"
proof (induction rule: mem_reach.induct)
  case (mem_connect s u k s')
  then show ?case using connect_inv [of s k s'] connect_frame [of k s s'] by (auto simp: mem_inv_def)
next
  case (mem_request s u ks ws meas cb wire n s' u' ks' ws' wire')
  then show ?case using mem_send_inv by blast
next
  case (mem_events s u ks ws so_error events wire s' u' ks' ws' wire')
  then show ?case using mem_run_io_inv by blast
qed


subsection \<open>Sending a get on a socket that is not ready\<close>

lemma mem_send_get:
  assumes "mem_inv (s, u)" "\<not> tx_rdy s" "\<not> rx_rdy s" "setget cfg \<le> setget_draw env (setget_draws u)"
    and kv: "kv_setup cfg None = Inr (key_mem env)" and ks: "0 < unat (keysize cfg)" "unat (keysize cfg) < 2 ^ 16"
    and "records cfg \<noteq> 0" "used (requests u) < length (buf (requests u))"
    and "used (tx_cbs s) < length (buf (tx_cbs s))" "used (rx_cbs s) < length (buf (rx_cbs s))"
    and "SIZE + unat (keysize cfg) \<le> space (wbuf s)" "\<not> straddles (wbuf s) SIZE"
  shows "\<exists>n s' u'. mem_send env cfg rs ws meas cb (s, u) wire = Inr (n, s', u', rs, ws, wire)"
proof -
  let ?u = "u\<lparr>seqid := seqid u + 1\<rparr>" and ?ks = "unat (keysize cfg)"
  let ?u1 = "?u\<lparr>setget_draws := Suc (setget_draws u)\<rparr>"
  let ?j = "unat (seqid u) mod unat (records cfg)"
  have i: "sock_inv s" "mem_good (self s) u" using assms(1) by (simp_all add: mem_inv_def)
  have cmd: "choose_cmd env cfg ?u = (Get, ?u1)" using assms(4) by (simp add: choose_cmd_def)
  have klen: "unat (ucast (keysize cfg) :: 16 word) = ?ks"
    using ks(2) by (simp add: unsigned_ucast_eq take_bit_nat_eq_self)
  have key: "choose_key cfg (seqid u) = Inr (?j * (?ks + 1), ucast (keysize cfg))"
    using assms(8) by (simp add: choose_key_def)
  have "?j < unat (records cfg)" using assms(8) by (simp add: unat_gt_0)
  from kv_setup_table [OF kv this] obtain k where k: "read_mem (key_mem env) (?j * (?ks + 1)) ?ks = Inr k" "length k = ?ks"
    by (auto simp: read_mem_def)
  let ?h = "header_bytes (header Request Get 0 (ucast (keysize cfg)) 0)"
  have tx: "tx_ok s" and wr: "wf_buffer (rx_cbs s)"
    using i(1) assms(10) by (simp_all add: sock_inv_def tx_inv_def rx_ok_def)
  obtain s1 where w1: "write_emplace s ?h = Inr s1" "appended s ?h s1"
    using write_emplace_cases [OF sock_inv_wbuf [OF i(1)], of ?h] assms(12,13)
    by (auto simp: SIZE_def simp flip: length_0_conv)
  have "space (wbuf s1) = space (wbuf s) - SIZE"
  proof -
    obtain w where w: "s1 = s\<lparr>wbuf := w\<rparr>" "contents w = contents (wbuf s) @ ?h" "length (buf w) = length (buf (wbuf s))"
      using w1(2) by (auto simp: appended_def)
    have "used w = used (wbuf s) + SIZE" using arg_cong [OF w(2), of length] by simp
    with w show ?thesis by (simp add: space_def buffer_size_def)
  qed
  then obtain s2 where w2: "sock_write s1 k = Inr s2" "appended s1 k s2"
    using sock_write_ok [OF appended_wf [OF w1(2)], of k] k(2) ks(1) assms(12) by fastforce
  have wr2: "mem_write_request env cfg Get (?j * (?ks + 1)) (ucast (keysize cfg)) s = Inr (s2, ucast (ucast (keysize cfg) :: 16 word))"
    using w1(1) w2(1) k(1) klen by (simp add: mem_write_request_def)
  have a: "appended s (?h @ k) s2" by (rule appended_trans [OF w1(2) w2(2)])
  have s2: "tx_ok s2" "used (tx_cbs s2) < length (buf (tx_cbs s2))" "rx_cbs s2 = rx_cbs s"
    "tx_rdy s2 = tx_rdy s" "rx_rdy s2 = rx_rdy s"
    using appended_tx_ok [OF tx a] a assms(10) by (auto simp: appended_def)
  obtain q where q: "queue_emplace (requests ?u1) (MemReq Get meas cb) = Inr (tail (requests u), q)"
    using queue_emplace_ok [of "requests u" "MemReq Get meas cb"] assms(9) i(2) by (auto simp: mem_good_def)
  obtain s3 where c: "write_cb_point s2 (Some ()) (tail (requests u)) = Inr s3" "tx_same s2 s3" "tx_rdy s3 = tx_rdy s2"
    using write_cb_point_ok [OF s2(1,2)] by blast
  have s3: "rx_cbs s3 = rx_cbs s" "\<not> tx_rdy s3" "\<not> rx_rdy s3"
    using c s2 assms(2,3) by (simp_all add: tx_same_def)
  obtain t where "queue (rx_cbs s3) 1 = Inr (tail (rx_cbs s3), 1, (rx_cbs s3)\<lparr>tail := t, used := used (rx_cbs s3) + 1\<rparr>)"
    using queue_one [of "rx_cbs s3"] wr assms(11) s3(1) by auto
  then show ?thesis using cmd key wr2 q c(1) s3(2,3)
    by (simp add: mem_send_def Let_def read_clock_def try_tx_def sock_read_def)
qed

subsection \<open>Properties\<close>

text \<open>C8: Responses are matched with requests in order: in every state a memcache generator can
  reach, the pending reads still before their header await exactly the outstanding requests, oldest
  first, however bodies and headers were cut, and \<open>recv_response\<close> never finds a wrong socket, size
  or request.\<close>

theorem memcache_never_mismatches:
  assumes "mem_reach env cfg (sock_new nreqs nchars sock 0, mem_new nreqs sock this seed w) (s, u)"
    and "0 < nreqs" "0 < nchars"
  shows "awaiting (contents (rx_cbs s)) = slots (requests u) \<and> wf_buffer (requests u) \<and>
    (\<forall>ks e. sock_rx (mem_recv env) ks (s, u) = Inl e \<longrightarrow> \<not> mem_mismatch env e)"
proof -
  have "mem_inv (s, u)" using mem_reach_inv [OF assms(1) mem_new_inv [OF assms(2,3)]] .
  then have i: "sock_inv s" "mem_good (self s) u" "in_order SIZE (contents (rx_cbs s)) (slots (requests u))"
    by (simp_all add: mem_inv_def)
  have "rx_ok s" using i(1) by (simp add: sock_inv_def)
  note ord = mem.sock_in_order [OF this refl i(2,3), of env]
  have "\<not> mem_mismatch env e" if "sock_rx (mem_recv env) ks (s, u) = Inl e" for ks e
  proof -
    have "approx (sock_rx (mem_recv env) ks (s, u)) (sock_rx (mem_recv_joined env) ks (s, u))"
      by (rule sock_rx_approx [OF mem_recv_approx])
    with that consider m where "e = Undefined_behaviour m" | "sock_rx (mem_recv_joined env) ks (s, u) = Inl e"
      by (auto simp: approx_def)
    then show ?thesis using ord [of ks] by cases (auto simp: mem_mismatch_def)
  qed
  with i(2,3) show ?thesis by (simp add: in_order_def mem_good_def)
qed

text \<open>C12: A memcache send puts exactly one well-formed request behind the bytes already handed to the socket: a get or
  a set for the key of the sequence number modulo the number of records, printed with zero padding to the key
  size; and the number it returns for the byte counters is the request's length, when the sizes
  fit the fields of the header.\<close>

theorem memcache_request_bytes:
  assumes "mem_inv (s, u)" "kv_setup cfg None = Inr (key_mem env)" "unat (keysize cfg) < 2 ^ 16"
    and "mem_send env cfg rs ws meas cb (s, u) wire = Inr (n, s', u', rs', ws', wire')"
  shows "\<exists>op val. (op = Get \<or> op = Set) \<and> (op = Set \<longrightarrow> length val = unat (valsize cfg)) \<and>
    wire' @ contents (wbuf s') = wire @ contents (wbuf s) @
      request_bytes cfg op (chars (key_text (unat (keysize cfg)) (unat (seqid u) mod unat (records cfg) + 1))) val \<and>
    (unat (keysize cfg) + 8 + unat (valsize cfg) < 2 ^ 32 \<longrightarrow>
      n = length (request_bytes cfg op (chars (key_text (unat (keysize cfg)) (unat (seqid u) mod unat (records cfg) + 1))) val))"
  by (rule mem_send_bytes [OF assms])

text \<open>The table of keys holds, at the place \<open>choose_key\<close> computes, the zero-padded numeral of the record,
  and different records have different keys as long as the numerals fit the key size.\<close>

theorem memcache_keys:
  assumes "kv_setup cfg None = Inr keys" "unat (records cfg) < 10 ^ unat (keysize cfg)" "0 < unat (keysize cfg)"
    and "i < unat (records cfg)" "j < unat (records cfg)"
  shows "slice keys (i * (unat (keysize cfg) + 1)) (unat (keysize cfg)) = chars (pad_nat (unat (keysize cfg)) (i + 1)) \<and>
    (slice keys (i * (unat (keysize cfg) + 1)) (unat (keysize cfg)) =
     slice keys (j * (unat (keysize cfg) + 1)) (unat (keysize cfg)) \<longleftrightarrow> i = j)"
proof -
  let ?ks = "unat (keysize cfg)"
  have b: "i + 1 < 10 ^ ?ks" "j + 1 < 10 ^ ?ks" using assms(2,4,5) by linarith+
  have "key_text ?ks (i + 1) = pad_nat ?ks (i + 1)"
    unfolding key_text_def by (rule key_whole [OF b(1) assms(3)])
  moreover have "key_text ?ks (i + 1) = key_text ?ks (j + 1) \<longleftrightarrow> i = j"
    using key_text_inj [OF b assms(3)] by auto
  ultimately show ?thesis
    using kv_setup_table [OF assms(1,4)] kv_setup_table [OF assms(1,5)] by (simp add: chars_inj)
qed

text \<open>C26: The response to the oldest request, whose header comes in one piece or, across the wrap of the receive buffer, in two. If
  the request was not sent after it was made, or the response not received after that, the generator says so. Else, for a get
  whose header comes in two pieces, the second is copied to \<open>&hdr + n\<close>, which is past the local header: undefined behaviour. In all other
  cases it reports the latencies of that request and \<open>24\<close> plus the body length as bytes received, and
  returns the body length of the header as the number of bytes to skip, but for a set always 0, whatever its header says.\<close>

theorem memcache_response:
  assumes "wf_buffer (requests u)" "sock_ref u = this" "slots (requests u) = p # ps"
    and "seg_len s1 s2 = SIZE" "\<forall>x. s2 = Some x \<longrightarrow> s1 \<noteq> [] \<and> x \<noteq> []"
    and "buf (requests u) ! p = req" "clk env (ticks u) = now"
  shows "\<exists>q. wf_buffer q \<and> slots q = ps \<and>
    (let n = (if req_op req = Set then 0 else unat (ntohl (blen (header_of s1)))) in
     mem_recv env cb this p s1 s2 0 u =
       (if sent_ts req \<le> start_ts req
        then Inl (Runtime_error ''Memcache::recv_response: sent before it was generated'')
        else if now \<le> start_ts req
        then Inl (Runtime_error ''Memcache::recv_response: arrived before it was sent'')
        else if req_op req \<noteq> Set \<and> s2 \<noteq> None
        then Inl (Undefined_behaviour ''memcpy past the end of an object'')
        else
          rbind (call_request_cb env (req_cb req) (this_ref u) (nat ((sent_ts req - start_ts req) div 1000))
                   (nat ((now - start_ts req) div 1000)) 0 (24 + n) (measure_req req) (world u)) (\<lambda>w.
          Inr (n, u\<lparr>requests := q, ticks := Suc (ticks u), world := w\<rparr>))))"
proof -
  have used: "0 < used (requests u)" using arg_cong [OF assms(3), of length] by simp
  then have "slots (requests u) ! 0 = head (requests u)"
    using assms(1) by (simp add: ring_ix_def wf_buffer_def)
  then have p: "p = head (requests u)" using assms(3) by simp
  obtain q where q: "dequeue_one (requests u) = Inr (p, q)" "wf_buffer q" "buf q = buf (requests u)"
    "slots q = tl (slots (requests u))"
    using dequeue_one_ok [OF assms(1) used] p by auto
  have hdr: "resp_header s1 s2 = (if s2 = None then Inr (header_of s1)
      else Inl (Undefined_behaviour ''memcpy past the end of an object''))"
  proof (cases s2)
    case (Some x)
    with assms(5) have "SIZE \<le> length s1 * SIZE" "0 < length x" by (simp_all add: Suc_le_eq)
    then have "\<not> length s1 * SIZE + length x \<le> SIZE" by linarith
    with Some assms(5) show ?thesis by (simp add: resp_header_def Let_def)
  qed (simp add: resp_header_def)
  have lat: "latencies ''Memcache'' req now =
      (if sent_ts req \<le> start_ts req
       then Inl (Runtime_error ''Memcache::recv_response: sent before it was generated'')
       else if now \<le> start_ts req
       then Inl (Runtime_error ''Memcache::recv_response: arrived before it was sent'')
       else Inr (nat ((sent_ts req - start_ts req) div 1000), nat ((now - start_ts req) div 1000)))"
    by (simp add: latencies_def Let_def)
  have "mem_recv env cb this p s1 s2 0 u =
      rbind (latencies ''Memcache'' req now) (\<lambda>(queue_us, service_us).
      rbind (if req_op req \<noteq> Set then rbind (resp_header s1 s2) (\<lambda>hdr. Inr (ntohl (blen hdr))) else Inr 0) (\<lambda>bodylen.
      rbind (call_request_cb env (req_cb req) (this_ref u) queue_us service_us 0 (SIZE + unat bodylen)
               (measure_req req) (world u)) (\<lambda>w.
      Inr (unat bodylen, u\<lparr>requests := q, ticks := Suc (ticks u), world := w\<rparr>))))"
    using assms(2,4,6,7) q by (simp add: mem_recv_def read_clock_def Let_def)
  then show ?thesis
    unfolding lat hdr using q assms(3) by (intro exI [of _ q]) (simp add: Let_def SIZE_def)
qed

text \<open>The calls that cancel the pending reads of a memcache generator whose members are alive: all outstanding requests are taken back,
  unless the oldest pending read is past its header and waiting for its body. Its request is already gone, its header callback is called
  again, and in the end \<open>requests_.drop\<close> throws on an empty queue. (In the program the members are gone by
  then, and a full queue of reads cancels nothing.)\<close>

theorem memcache_cancel:
  assumes "mem_inv (s, u)"
  shows "let qs = contents (rx_cbs s) in
    if qs \<noteq> [] \<and> hdrlen (hd qs) = 0
    then cancel_rx (mem_recv env) (self s) qs u = Inl (System_error ENOSPC ''buffer::drop: buffer empty'')
    else \<exists>q. cancel_rx (mem_recv env) (self s) qs u = Inr (u\<lparr>requests := q\<rparr>) \<and> used q = 0"
proof -
  have "drops_on_cancel (mem_recv env)"
    by (simp add: drops_on_cancel_def mem_recv_def EIO_def)
  moreover have "wf_buffer (requests u)" and own: "sock_ref u = self s"
    and "in_order SIZE (contents (rx_cbs s)) (slots (requests u))" "0 < SIZE"
    using assms by (simp_all add: mem_inv_def mem_good_def SIZE_def)
  ultimately show ?thesis
    using cancel_in_order [of "mem_recv env" u SIZE "contents (rx_cbs s)"] unfolding own Let_def by blast
qed

text \<open>For the witnesses: two records with keys of two characters, gets only.\<close>

definition demo_mcfg :: Config where
  "demo_mcfg = config_default\<lparr>protocol := MEMCACHE, records := 2, keysize := 2, valsize := 1\<rparr>"

definition demo_menv :: "(unit, (nat \<times> nat \<times> nat) list) mem_env" where
  "demo_menv = \<lparr>clk = (\<lambda>n. 5000 * int n), request_cb = (\<lambda>k this q sv w n m wd. Inr (wd @ [(q, sv, n)])),
     setget_draw = (\<lambda>n. 1 / 2), key_mem = chars ''01'' @ [0] @ chars ''02'' @ [0]\<rparr>"

definition demo_mem :: "(unit, (nat \<times> nat \<times> nat) list) mem" where
  "demo_mem = mem_new 2 9 1 5 []"

definition demo_mem_sock :: "(unit, unit, nat) Sock" where
  "demo_mem_sock = sock_new 2 100 9 0"

lemma demo_kv: "kv_setup demo_mcfg None = Inr (key_mem demo_menv)"
proof -
  have "[1..<unat (2 :: 64 word) + 1] = [1, 2]" by (simp add: upt_rec)
  moreover have "key_text 2 1 = ''01''" "key_text 2 2 = ''02''"
    by code_simp+
  moreover have "length (keyfmt 2) < KEYFMT_SIZE" by (simp add: keyfmt_def KEYFMT_SIZE_def show_nat.simps)
  ultimately show ?thesis
    by (simp add: kv_setup_def demo_mcfg_def demo_menv_def c_string_def)
qed

lemma demo_mem_inv: "mem_inv (demo_mem_sock, demo_mem)"
  by (simp add: demo_mem_sock_def demo_mem_def mem_new_inv)

lemma demo_mem_sent:
  "\<exists>n s u. mem_send demo_menv demo_mcfg [] [] True (Some ()) (demo_mem_sock, demo_mem) [] =
     Inr (n, s, u, [], [], [])"
  by (rule mem_send_get [OF demo_mem_inv])
    (simp_all add: demo_kv, simp_all add: demo_mem_sock_def demo_mem_def sock_new_def mem_new_def buffer_new_def
      demo_mcfg_def demo_menv_def config_default_def space_def buffer_size_def straddles_def bufcap_def SIZE_def)

theorem memcache_never_mismatches_witness:
  "\<exists>n s u. mem_send demo_menv demo_mcfg [] [] True (Some ()) (demo_mem_sock, demo_mem) [] =
     Inr (n, s, u, [], [], []) \<and> awaiting (contents (rx_cbs s)) = slots (requests u)"
proof -
  obtain n s u where r: "mem_send demo_menv demo_mcfg [] [] True (Some ()) (demo_mem_sock, demo_mem) [] =
     Inr (n, s, u, [], [], [])" using demo_mem_sent by blast
  have "mem_reach demo_menv demo_mcfg (sock_new 2 100 9 0, mem_new 2 9 1 5 []) (s, u)"
    using mem_request [OF mem_start r] by (simp add: demo_mem_sock_def demo_mem_def)
  from memcache_never_mismatches [OF this] r show ?thesis by auto
qed

theorem memcache_request_bytes_witness:
  "\<exists>n s u op val. mem_send demo_menv demo_mcfg [] [] True (Some ()) (demo_mem_sock, demo_mem) [] =
     Inr (n, s, u, [], [], []) \<and>
     contents (wbuf s) = request_bytes demo_mcfg op (chars ''02'') val \<and> n = length (contents (wbuf s))"
proof -
  obtain n s u where r: "mem_send demo_menv demo_mcfg [] [] True (Some ()) (demo_mem_sock, demo_mem) [] =
     Inr (n, s, u, [], [], [])" using demo_mem_sent by blast
  have c: "keysize demo_mcfg = 2" "valsize demo_mcfg = 1" "records demo_mcfg = 2" "seqid demo_mem = 5"
    "contents (wbuf demo_mem_sock) = []"
    by (simp_all add: demo_mcfg_def demo_mem_def mem_new_def demo_mem_sock_def sock_new_def)
  have t: "key_text 2 2 = ''02''" by code_simp
  have n: "unat (keysize demo_mcfg) = 2" "unat (seqid demo_mem) mod unat (records demo_mcfg) + 1 = 2"
    by (simp_all add: c)
  have k: "chars (key_text (unat (keysize demo_mcfg)) (unat (seqid demo_mem) mod unat (records demo_mcfg) + 1)) = chars ''02''"
    unfolding n t ..
  obtain op val where "contents (wbuf s) = request_bytes demo_mcfg op (chars ''02'') val"
    "n = length (request_bytes demo_mcfg op (chars ''02'') val)"
    using memcache_request_bytes [OF demo_mem_inv demo_kv _ r, unfolded k] by (auto simp: c)
  moreover from this have "n = length (contents (wbuf s))" by (simp only:)
  ultimately show ?thesis using r by blast
qed

theorem memcache_keys_witness:
  "slice (key_mem demo_menv) 3 2 = chars (pad_nat 2 2) \<and> slice (key_mem demo_menv) 0 2 \<noteq> slice (key_mem demo_menv) 3 2"
proof -
  have c: "unat (keysize demo_mcfg) = 2" "unat (records demo_mcfg) = 2"
    by (simp_all add: demo_mcfg_def)
  have "slice (key_mem demo_menv) (1 * (2 + 1)) 2 = chars (pad_nat 2 (1 + 1)) \<and>
    (slice (key_mem demo_menv) (1 * (2 + 1)) 2 = slice (key_mem demo_menv) (0 * (2 + 1)) 2 \<longleftrightarrow> (1 :: nat) = 0)"
    by (rule memcache_keys [OF demo_kv, of 1 0, unfolded c]) simp_all
  then show ?thesis
    by (simp only: mult_1 mult_zero_left one_add_one numeral_plus_one add_num_simps zero_neq_one one_neq_zero eq_commute) auto
qed

definition demo_mreq :: "MemcCmd \<Rightarrow> unit MemReq" where
  "demo_mreq op = \<lparr>measure_req = True, req_cb = Some (), start_ts = 1000, sent_ts = 3500, req_op = op\<rparr>"

definition demo_mwait :: "(unit, (nat \<times> nat \<times> nat) list) mem" where
  "demo_mwait = demo_mem\<lparr>ticks := 2, requests :=
     \<lparr>buf = [demo_mreq Get, demo_mreq Set], head = 1, tail = 0, used = 1\<rparr>\<rparr>"

lemma demo_mwait_facts:
  "wf_buffer (requests demo_mwait)" "sock_ref demo_mwait = 9" "slots (requests demo_mwait) = [1]"
  "world demo_mwait = []" "buf (requests demo_mwait) ! 1 = demo_mreq Set" "clk demo_menv (ticks demo_mwait) = 10000"
  by (simp_all add: demo_mwait_def demo_mem_def mem_new_def wf_buffer_def ring_ix_def slots_def demo_menv_def)

definition demo_mget :: "(unit, (nat \<times> nat \<times> nat) list) mem" where
  "demo_mget = demo_mwait\<lparr>requests := (requests demo_mwait)\<lparr>buf := [demo_mreq Set, demo_mreq Get]\<rparr>\<rparr>"

lemma demo_mget_facts:
  "wf_buffer (requests demo_mget)" "sock_ref demo_mget = 9" "slots (requests demo_mget) = [1]"
  "buf (requests demo_mget) ! 1 = demo_mreq Get" "clk demo_menv (ticks demo_mget) = 10000"
  by (simp_all add: demo_mget_def demo_mwait_def demo_mem_def mem_new_def wf_buffer_def ring_ix_def slots_def demo_menv_def)

theorem memcache_response_witness:
  "(\<exists>u. mem_recv demo_menv () 9 1 (replicate 24 1) None 0 demo_mwait = Inr (0, u) \<and> world u = [(2, 9, 24)]) \<and>
   mem_recv demo_menv () 9 1 [1, 2] (Some (replicate 22 0)) 0 demo_mget =
     Inl (Undefined_behaviour ''memcpy past the end of an object'')"
proof
  have "seg_len (replicate 24 (1 :: byte)) None = SIZE" "\<forall>x. None = Some x \<longrightarrow> replicate 24 (1 :: byte) \<noteq> [] \<and> x \<noteq> []"
    by (simp_all add: SIZE_def)
  from memcache_response [OF demo_mwait_facts(1-3) this demo_mwait_facts(5,6), of "()"]
  show "\<exists>u. mem_recv demo_menv () 9 1 (replicate 24 1) None 0 demo_mwait = Inr (0, u) \<and> world u = [(2, 9, 24)]"
    by (auto simp: Let_def call_request_cb_def demo_menv_def demo_mreq_def demo_mwait_facts(4))
  have "seg_len [1, 2] (Some (replicate 22 (0 :: byte))) = SIZE" by (simp add: SIZE_def)
  from memcache_response [OF demo_mget_facts(1-3) this _ demo_mget_facts(4,5), of "()"]
  show "mem_recv demo_menv () 9 1 [1, 2] (Some (replicate 22 0)) 0 demo_mget =
      Inl (Undefined_behaviour ''memcpy past the end of an object'')"
    by (auto simp: Let_def demo_mreq_def)
qed

text \<open>A response whose body is still to come, and a second request.\<close>

definition demo_mbody :: "(unit, unit, nat) Sock" where
  "demo_mbody = demo_mem_sock\<lparr>rx_cbs := \<lparr>buf =
     [\<lparr>hdrlen = 0, hdrcb = Some (), bodylen = 7, bodycb = None, rxdata = 0\<rparr>,
      \<lparr>hdrlen = 24, hdrcb = Some (), bodylen = 0, bodycb = None, rxdata = 1\<rparr>,
      IORx_default 0], head = 0, tail = 2, used = 2\<rparr>\<rparr>"

lemma demo_mbody_facts:
  "contents (rx_cbs demo_mbody) =
     [\<lparr>hdrlen = 0, hdrcb = Some (), bodylen = 7, bodycb = None, rxdata = 0\<rparr>,
      \<lparr>hdrlen = 24, hdrcb = Some (), bodylen = 0, bodycb = None, rxdata = 1\<rparr>]" (is ?c)
  "sock_inv demo_mbody" (is ?i) "self demo_mbody = 9" (is ?s)
proof -
  show ?c by (simp add: demo_mbody_def contents_def slots_def ring_ix_def upt_rec)
  have "wf_buffer (rx_cbs demo_mbody)" by (simp add: demo_mbody_def wf_buffer_def ring_ix_def)
  moreover have "rbuf demo_mbody = rbuf demo_mem_sock" "tx_side demo_mbody = tx_side demo_mem_sock"
    by (simp_all add: demo_mbody_def tx_side_def)
  ultimately show ?i
    using demo_mem_inv tx_side_inv [of demo_mbody demo_mem_sock] by (simp add: mem_inv_def sock_inv_def rx_ok_def)
  show ?s by (simp add: demo_mbody_def demo_mem_sock_def sock_new_def)
qed

theorem memcache_cancel_witness:
  "cancel_rx (mem_recv demo_menv) 9 (contents (rx_cbs demo_mbody)) demo_mwait =
    Inl (System_error ENOSPC ''buffer::drop: buffer empty'')"
proof -
  have "mem_inv (demo_mbody, demo_mwait)"
    using demo_mwait_facts by (simp add: mem_inv_def mem_good_def demo_mbody_facts in_order_def awaiting_def SIZE_def)
  from memcache_cancel [OF this, of demo_menv] show ?thesis by (simp add: demo_mbody_facts)
qed

end
