(* ===== verification/Load_Memcache.thy ===== *)
theory Load_Memcache
  imports Gen_Memcache
begin

section \<open>The memcache data loader (client/load_memcache.hh, client/load_memcache.cc)\<close>

text \<open>
  \<open>load_memcache\<close> stores keys and values in a memcache server: it sends quiet sets, and a loud one (which the
  server answers) for every \<open>notify_\<close> sets and for the last. Its counters are 64-bit words as in the code. The
  logarithm of the option check is the real one with a rounding argument \<open>rnd\<close>; what
  \<open>getopt\<close>, the kernel and \<open>epoll_wait\<close> answer is an argument. Allocation is taken to succeed. The loader
  inserts no callback point in its socket, so the transmit handler is never called. A socket that waits in
  \<open>epoll_wait\<close> when the script of wake-ups is used up is the outcome \<open>False\<close> of \<open>load_run\<close>.
\<close>

subsection \<open>Options\<close>

record LoadConfig =
  lc_addr :: string
  lc_port :: "16 word"
  lc_keys :: "64 word"
  lc_keyn :: "64 word"
  lc_valn :: "64 word"
  lc_start :: "64 word"
  lc_batch :: "64 word"
  lc_notify :: "64 word"

definition load_default :: LoadConfig where
  "load_default = \<lparr>lc_addr = [], lc_port = 0, lc_keys = 10000, lc_keyn = 30, lc_valn = 4 * 1024,
     lc_start = 1, lc_batch = 100, lc_notify = 25\<rparr>"

definition load_usage :: "string \<Rightarrow> string list" where
  "load_usage prog = [''Usage: '' @ prog @ '' [options] <ip:port>''] @
     ['''',
      ''Options:'',
      ''  -h    : help'',
      ''  -z INT: number of keys to load (default: 10K)'',
      ''  -k INT: size of the keys (default: 30)'',
      ''  -v INT: size of the values (default: 4KB)'',
      ''  -n INT: starting key sequence number (default: 1)'',
      ''  -b INT: load batch size to use (default: 100)'',
      ''  -e INT: ask server to notify every INT sets of success (default: 25)'']"

definition load_option :: "string \<Rightarrow> char \<times> string \<Rightarrow> LoadConfig \<Rightarrow> LoadConfig res" where
  "load_option prog = (\<lambda>(c, optarg) cfg.
     if c = CHR ''h'' then usage_exit (load_usage prog) EXIT_SUCCESS
     else if c = CHR ''z'' then rbind (atoi optarg) (\<lambda>v. Inr (cfg\<lparr>lc_keys := word_of_int v\<rparr>))
     else if c = CHR ''k'' then rbind (atoi optarg) (\<lambda>v. Inr (cfg\<lparr>lc_keyn := word_of_int v\<rparr>))
     else if c = CHR ''v'' then rbind (atoi optarg) (\<lambda>v. Inr (cfg\<lparr>lc_valn := word_of_int v\<rparr>))
     else if c = CHR ''n'' then rbind (atoi optarg) (\<lambda>v. Inr (cfg\<lparr>lc_start := word_of_int v\<rparr>))
     else if c = CHR ''b'' then rbind (atoi optarg) (\<lambda>v. Inr (cfg\<lparr>lc_batch := word_of_int v\<rparr>))
     else if c = CHR ''e'' then rbind (atoi optarg) (\<lambda>v. Inr (cfg\<lparr>lc_notify := word_of_int v\<rparr>))
     else usage_exit (load_usage prog) EXIT_FAILURE)"

text \<open>\<open>uint64_t len = log10(keys)\<close>. For 0 keys the logarithm is minus infinity, whose conversion is undefined.\<close>

definition log10_len :: "(real \<Rightarrow> real) \<Rightarrow> 64 word \<Rightarrow> 64 word res" where
  "log10_len rnd keys =
     (if keys = 0 then Inl (Undefined_behaviour ''double out of range'')
      else to_uint64 (rnd (log 10 (rnd (real (unat keys))))))"

definition load_config :: "string \<Rightarrow> (real \<Rightarrow> real) \<Rightarrow> (char \<times> string) list \<Rightarrow> string list \<Rightarrow> LoadConfig res" where
  "load_config prog rnd opts args =
     rbind (run_options (load_option prog) opts load_default) (\<lambda>cfg.
     if length args < 1 then usage_exit (load_usage prog) EXIT_FAILURE
     else
       rbind (log10_len rnd (lc_keys cfg)) (\<lambda>len.
       if len > lc_keyn cfg then Inl (Exit 1 (Text [''Need a larger key size for the number of keys requested!'']))
       else
         rbind (rbind (scan_addr 255 ADDR_SIZE (args ! 0)) (or_usage (load_usage prog))) (\<lambda>(a, p).
         Inr (cfg\<lparr>lc_addr := a, lc_port := p\<rparr>))))"

subsection \<open>The loader\<close>

record loader =
  ld_sock :: nat
  ld_toload :: "64 word"
  ld_sent :: "64 word"
  ld_recv :: "64 word"
  ld_keysize :: "64 word"
  ld_valsize :: "64 word"
  ld_val :: "byte list"
  ld_seqid :: "64 word"
  ld_batch :: "64 word"
  ld_onwire :: "64 word"
  ld_notify :: "64 word"

definition LOAD_KEYFMT_SIZE :: nat where "LOAD_KEYFMT_SIZE = 30"

definition epoll_watch :: "int \<times> int \<Rightarrow> unit res" where
  "epoll_watch = (\<lambda>(st, errno).
     rbind (system_call st errno ''MemcacheLoad::epoll_watch: epoll_ctl()'') (\<lambda>_. Inr ()))"

definition loader_new :: "int \<times> int \<Rightarrow> connect_env \<Rightarrow> int \<times> int \<Rightarrow> LoadConfig \<Rightarrow> (unit, unit, nat) Sock \<Rightarrow>
    ((unit, unit, nat) Sock \<times> loader) res" where
  "loader_new ep k ctl cfg s =
     rbind (system_call (fst ep) (snd ep) ''MemcacheLoad: epoll_create1()'') (\<lambda>_.
     let u = \<lparr>ld_sock = self s, ld_toload = lc_keys cfg, ld_sent = 0, ld_recv = 0, ld_keysize = lc_keyn cfg,
              ld_valsize = lc_valn cfg, ld_val = [], ld_seqid = lc_start cfg, ld_batch = lc_batch cfg, ld_onwire = 0,
              ld_notify = min (lc_notify cfg) (lc_batch cfg)\<rparr> in
     rbind (sock_connect k s) (\<lambda>s.
     rbind (epoll_watch ctl) (\<lambda>_.
     let u = u\<lparr>ld_val := replicate (unat (ld_valsize u)) (word_of_nat (of_char (CHR ''a'')))\<rparr> in
     if LOAD_KEYFMT_SIZE \<le> length (keyfmt (unat (ld_keysize u)))
     then Inl (Runtime_error ''MemcacheLoad::MemcacheLoad: fmt buffer for printing keys too small'')
     else Inr (s, u))))"

definition next_key :: "loader \<Rightarrow> 64 word \<Rightarrow> string" where
  "next_key u i = snprintf (unat (ld_keysize u) + 1) (pad_nat (unat (ld_keysize u)) (unat i))"

definition next_val :: "loader \<Rightarrow> 64 word \<Rightarrow> byte list" where
  "next_val u i = ld_val u"

definition load_recv :: "(unit, nat, loader) rx_handler" where
  "load_recv cb s data seg1 seg2 st u =
     (if ld_sock u \<noteq> s then Inl (Runtime_error ''MemcacheLoad::recv_response: wrong socket in callback'')
      else if st \<noteq> 0 then Inr (0, u)
      else if seg_len seg1 seg2 \<noteq> SIZE then
        Inl (Runtime_error ''MemcacheLoad::recv_response: unexpected packet size'')
      else Inr (0, u\<lparr>ld_recv := ld_recv u + ld_notify u, ld_onwire := ld_onwire u - ld_notify u\<rparr>))"

definition no_tx_callback :: "(unit, nat, loader) tx_handler" where
  "no_tx_callback cb s data st u = Inl Bad_function_call"

definition load_send :: "64 word \<Rightarrow> bool \<Rightarrow> rd_result list \<Rightarrow> wr_result list \<Rightarrow>
    (unit, unit, nat) Sock \<times> loader \<Rightarrow> byte list \<Rightarrow>
    ((unit, unit, nat) Sock \<times> loader \<times> rd_result list \<times> wr_result list \<times> byte list) res" where
  "load_send i q ks ws = (\<lambda>(s, u) wire.
     let key = chars (next_key u i); val = next_val u i; op = (if q then Setq else Set) in
     rbind (write_emplace s (header_bytes (header Request op 8 (ucast (ld_keysize u)) (ucast (ld_valsize u))))) (\<lambda>s.
     rbind (write_emplace s extras_set_bytes) (\<lambda>s.
     rbind (sock_write s key) (\<lambda>s.
     rbind (sock_write s val) (\<lambda>s.
     rbind (try_tx no_tx_callback ws (s, u) wire) (\<lambda>(s, u, ws, wire).
     if \<not> q then
       rbind (sock_read load_recv ks (s, u)
                \<lparr>hdrlen = SIZE, hdrcb = Some (), bodylen = 0, bodycb = None, rxdata = 0\<rparr>) (\<lambda>(s, u, ks).
       Inr (s, u, ks, ws, wire))
     else Inr (s, u, ks, ws, wire)))))))"

text \<open>Neither callback touches what the loop counts.\<close>

lemma load_recv_keeps:
  "rx_keeps load_recv (\<lambda>u v. v\<lparr>ld_recv := 0, ld_onwire := 0\<rparr> = u\<lparr>ld_recv := 0, ld_onwire := 0\<rparr>)"
  by (auto simp: rx_keeps_def load_recv_def split: if_splits)

lemma no_tx_keeps: "(\<And>u. P u u) \<Longrightarrow> (\<And>u v w. P u v \<Longrightarrow> P v w \<Longrightarrow> P u w) \<Longrightarrow> tx_keeps no_tx_callback P"
  unfolding tx_keeps_def no_tx_callback_def by blast

lemma load_send_frame:
  assumes "load_send i q ks ws (s, u) wire = Inr (s', u', ks', ws', wire')"
  shows "u'\<lparr>ld_recv := 0, ld_onwire := 0\<rparr> = u\<lparr>ld_recv := 0, ld_onwire := 0\<rparr>"
proof -
  from assms obtain s1 s2 u1 where
    "try_tx no_tx_callback ws (s1, u) wire = Inr (s2, u1, ws', wire')"
    "(if \<not> q then rbind (sock_read load_recv ks (s2, u1)
          \<lparr>hdrlen = SIZE, hdrcb = Some (), bodylen = 0, bodycb = None, rxdata = 0\<rparr>) (\<lambda>(s, u, ks).
       Inr (s, u, ks, ws', wire'))
     else Inr (s2, u1, ks, ws', wire')) = Inr (s', u', ks', ws', wire')"
    by (auto simp: load_send_def Let_def rbind_eq_Inr split: if_splits)
  moreover from this(1) have "u1 = u"
    using sock_tx_user [OF no_tx_keeps [of "\<lambda>u v. v = u"]] by (auto simp: try_tx_def split: if_splits)
  ultimately show ?thesis
    using sock_read_user [OF load_recv_keeps] by (auto simp: rbind_eq_Inr split: if_splits)
qed

lemma loader_same:
  "u'\<lparr>ld_recv := 0, ld_onwire := 0\<rparr> = u\<lparr>ld_recv := 0, ld_onwire := 0\<rparr> \<Longrightarrow>
    ld_sock u' = ld_sock u \<and> ld_toload u' = ld_toload u \<and> ld_sent u' = ld_sent u \<and> ld_notify u' = ld_notify u \<and>
    ld_batch u' = ld_batch u \<and> ld_seqid u' = ld_seqid u \<and> ld_keysize u' = ld_keysize u \<and>
    ld_valsize u' = ld_valsize u \<and> ld_val u' = ld_val u"
  by (cases u, cases u') simp

lemma unat_Suc_less: "a < b \<Longrightarrow> unat (a + 1 :: 64 word) = Suc (unat a)"
proof -
  assume "a < b"
  then have "Suc (unat a) < 2 ^ 64" using unsigned_less [of b, where 'a = nat] by (simp add: word_less_nat_alt)
  moreover have "a + 1 = word_of_nat (Suc (unat a))" by simp
  ultimately show ?thesis by (simp only: unat_of_nat) simp
qed

text \<open>The inner loop of \<open>run\<close>. It ends because \<open>sent_\<close> grows up to \<open>toload_\<close>.\<close>

function load_fill :: "rd_result list \<Rightarrow> wr_result list \<Rightarrow> (unit, unit, nat) Sock \<times> loader \<Rightarrow> byte list \<Rightarrow>
    (((unit, unit, nat) Sock \<times> loader) \<times> rd_result list \<times> wr_result list \<times> byte list) res" where
  "load_fill ks ws (s, u) wire =
     (if ld_sent u < ld_toload u \<and> ld_onwire u < ld_batch u then
        if ld_notify u = 0 then Inl (Undefined_behaviour ''division by zero'')
        else
          let loud = (ld_sent u + 1) mod ld_notify u = 0 \<or> ld_sent u = ld_toload u - 1; i = ld_seqid u in
          rbind (load_send i (\<not> loud) ks ws (s, u\<lparr>ld_seqid := i + 1\<rparr>) wire) (\<lambda>(s, u, ks, ws, wire).
          load_fill ks ws (s, u\<lparr>ld_sent := ld_sent u + 1, ld_onwire := ld_onwire u + 1\<rparr>) wire)
      else Inr ((s, u), ks, ws, wire))"
  by pat_completeness auto
termination
proof (relation "measure (\<lambda>(ks, ws, su, wire). unat (ld_toload (snd su)) - unat (ld_sent (snd su)))")
qed (auto dest!: load_send_frame [THEN loader_same] simp: unat_Suc_less word_less_nat_alt)

declare load_fill.simps [simp del]

text \<open>One wake-up of \<open>epoll_wait\<close>: it failed, or it brings events for the socket, each with what
  \<open>getsockopt\<close> would say.\<close>

datatype wake = Wake_failed int | Wake "(32 word \<times> int \<times> int \<times> int) list"

fun load_events :: "(32 word \<times> int \<times> int \<times> int) list \<Rightarrow> rd_result list \<Rightarrow> wr_result list \<Rightarrow>
    (unit, unit, nat) Sock \<times> loader \<Rightarrow> byte list \<Rightarrow>
    (((unit, unit, nat) Sock \<times> loader) \<times> rd_result list \<times> wr_result list \<times> byte list) res" where
  "load_events [] ks ws su wire = Inr (su, ks, ws, wire)"
| "load_events ((events, so_error) # evs) ks ws su wire =
     rbind (sock_run_io load_recv no_tx_callback ks ws so_error events su wire) (\<lambda>(s, u, ks, ws, wire).
     load_events evs ks ws (s, u) wire)"

fun load_run :: "wake list \<Rightarrow> rd_result list \<Rightarrow> wr_result list \<Rightarrow> (unit, unit, nat) Sock \<times> loader \<Rightarrow>
    byte list \<Rightarrow> (bool \<times> ((unit, unit, nat) Sock \<times> loader) \<times> byte list) res" where
  "load_run wakes ks ws su wire =
     rbind (load_fill ks ws su wire) (\<lambda>(su, ks, ws, wire).
     if ld_recv (snd su) \<ge> ld_toload (snd su) then Inr (True, su, wire)
     else case wakes of
       [] \<Rightarrow> Inr (False, su, wire)
     | Wake_failed errno # rest \<Rightarrow> Inl (System_error errno ''MemcacheLoad::run: epoll_wait()'')
     | Wake evs # rest \<Rightarrow>
         rbind (load_events evs ks ws su wire) (\<lambda>(su, ks, ws, wire). load_run rest ks ws su wire))"

declare load_run.simps [simp del]

text \<open>\<open>main\<close>: the loader over the answers of the system.\<close>

definition load_main :: "string \<Rightarrow> (real \<Rightarrow> real) \<Rightarrow> (char \<times> string) list \<Rightarrow> string list \<Rightarrow> int \<times> int \<Rightarrow> connect_env \<Rightarrow>
    int \<times> int \<Rightarrow> (unit, unit, nat) Sock \<Rightarrow> wake list \<Rightarrow> rd_result list \<Rightarrow> wr_result list \<Rightarrow>
    (bool \<times> byte list) res" where
  "load_main prog rnd opts args ep k ctl s wakes ks ws =
     rbind (load_config prog rnd opts args) (\<lambda>cfg.
     rbind (loader_new ep k ctl cfg s) (\<lambda>su.
     rbind (load_run wakes ks ws su []) (\<lambda>(fin, su, wire).
     Inr (fin, wire))))"

subsection \<open>The counters\<close>

text \<open>The number of loud sets among the first \<open>k\<close> of \<open>t\<close>, and the number of responses received.\<close>

definition louds :: "nat \<Rightarrow> nat \<Rightarrow> nat \<Rightarrow> nat" where
  "louds n t k = k div n + (if k = t \<and> t mod n \<noteq> 0 then 1 else 0)"

lemma louds_0 [simp]: "louds n t 0 = 0"
  by (cases "t = 0") (simp_all add: louds_def)

lemma louds_Suc:
  assumes "k < t" "0 < n"
  shows "louds n t (Suc k) = louds n t k + (if Suc k mod n = 0 \<or> Suc k = t then 1 else 0)"
  using assms by (auto simp: louds_def div_Suc)

lemma louds_upper:
  assumes "0 < n" "k \<le> t"
  shows "n * louds n t k < t + n"
proof -
  have k: "n * (k div n) \<le> k" by simp
  show ?thesis
  proof (cases "k = t \<and> t mod n \<noteq> 0")
    case True
    then have "n * (t div n) < t" using mult_div_mod_eq [of n t] by linarith
    with True show ?thesis by (simp add: louds_def)
  next
    case False
    then have "louds n t k = k div n" by (auto simp: louds_def)
    then have "n * louds n t k \<le> k" using k by (simp only:)
    with assms show ?thesis by linarith
  qed
qed

lemma louds_before_end: "k < t \<Longrightarrow> n * louds n t k \<le> k"
  by (simp add: louds_def)

lemma louds_all:
  assumes "0 < n"
  shows "n * r < t \<longleftrightarrow> r < louds n t t"
proof -
  have t: "n * (t div n) + t mod n = t" "t mod n < n" using assms by simp_all
  have up: "n * (t div n) + n \<le> n * r" if "t div n < r"
    using mult_le_mono2 [of "Suc (t div n)" r n] that by simp
  have down: "n * r \<le> n * (t div n)" if "r \<le> t div n" using that by simp
  show ?thesis
  proof (cases "t mod n = 0")
    case True
    then have "t = n * (t div n)" using t by simp
    moreover have "n * r < n * (t div n) \<longleftrightarrow> r < t div n" using assms by simp
    ultimately show ?thesis using True by (simp add: louds_def)
  next
    case False
    have "n * r < t \<longleftrightarrow> r \<le> t div n"
    proof
      assume a: "n * r < t"
      show "r \<le> t div n"
      proof (rule ccontr)
        assume "\<not> r \<le> t div n"
        then have "n * (t div n) + n \<le> n * r" by (intro up) simp
        with a t show False by linarith
      qed
    next
      assume "r \<le> t div n"
      from down [OF this] t False show "n * r < t" by linarith
    qed
    with False show ?thesis by (simp add: louds_def less_Suc_eq_le)
  qed
qed

lemma louds_room: "0 < n \<Longrightarrow> n * r + n \<le> k \<Longrightarrow> r < louds n t k"
  by (auto simp: louds_def less_eq_div_iff_mult_less_eq Suc_le_eq [symmetric] algebra_simps)

subsection \<open>The run\<close>

definition rcvd :: "loader \<Rightarrow> nat" where
  "rcvd u = unat (ld_recv u) div unat (ld_notify u)"

definition load_good :: "nat \<Rightarrow> nat \<Rightarrow> loader \<Rightarrow> bool" where
  "load_good K this u \<longleftrightarrow> ld_sock u = this \<and> ld_notify u \<noteq> 0 \<and> ld_onwire u = ld_sent u - ld_recv u \<and>
     unat (ld_notify u) * K < 2 ^ 64 \<and> unat (ld_recv u) = unat (ld_notify u) * rcvd u \<and> rcvd u \<le> K"

definition load_pend :: "nat \<Rightarrow> loader \<Rightarrow> nat list" where
  "load_pend K u = replicate (K - rcvd u) 0"

definition load_mismatch :: "exn \<Rightarrow> bool" where
  "load_mismatch e \<longleftrightarrow> e \<in> {Runtime_error ''MemcacheLoad::recv_response: wrong socket in callback'',
     Runtime_error ''MemcacheLoad::recv_response: unexpected packet size''}"

lemma load_recv_answer:
  assumes "load_good K this u" "load_pend K u = p # ps" "length bs = SIZE"
  shows "\<exists>u'. load_recv cb this p bs None 0 u = Inr (0, u') \<and> load_good K this u' \<and> load_pend K u' = ps"
proof -
  let ?n = "unat (ld_notify u)"
  have g: "ld_sock u = this" "ld_notify u \<noteq> 0" "ld_onwire u = ld_sent u - ld_recv u" "?n * K < 2 ^ 64"
    "unat (ld_recv u) = ?n * rcvd u" "rcvd u \<le> K" using assms(1) by (simp_all add: load_good_def)
  have n: "0 < ?n" using g(2) by (simp add: unat_gt_0)
  have K: "K - rcvd u = Suc (length ps)" using arg_cong [OF assms(2), of length] by (simp add: load_pend_def)
  then have lt: "rcvd u < K" by simp
  have "?n * Suc (rcvd u) \<le> ?n * K" using lt by (intro mult_le_mono2) simp
  then have b: "unat (ld_recv u) + ?n < 2 ^ 64" using g(4,5) by simp
  have "ld_recv u + ld_notify u = word_of_nat (unat (ld_recv u) + ?n)" by simp
  then have r: "unat (ld_recv u + ld_notify u) = ?n * Suc (rcvd u)"
    using b g(5) by (simp only: unat_of_nat) simp
  let ?u = "u\<lparr>ld_recv := ld_recv u + ld_notify u, ld_onwire := ld_onwire u - ld_notify u\<rparr>"
  have rc: "rcvd ?u = Suc (rcvd u)" using n by (simp add: rcvd_def [of ?u] r)
  have "load_recv cb this p bs None 0 u = Inr (0, ?u)" using assms(3) g(1) by (simp add: load_recv_def)
  moreover have "load_good K this ?u" using g lt r rc by (simp add: load_good_def)
  moreover have "load_pend K ?u = ps"
  proof -
    have "replicate (Suc (length ps)) 0 = p # ps" using assms(2) K by (simp add: load_pend_def)
    then have "ps = replicate (length ps) 0" by simp
    moreover have "K - rcvd ?u = length ps" using rc K by simp
    ultimately show ?thesis by (simp add: load_pend_def)
  qed
  ultimately show ?thesis by blast
qed

interpretation ld: fifo_generator load_recv this SIZE "load_pend K" "load_good K this" load_mismatch
  for this K
proof unfold_locales
  show "load_recv cb this d s1 (Some s2) st u = load_recv cb this d (s1 @ s2) None st u"
    for cb this d s1 s2 st u by (simp add: load_recv_def)
  show "0 < SIZE" by (simp add: SIZE_def)
  show "load_mismatch e \<Longrightarrow> \<exists>m. e = Runtime_error m \<and> m \<noteq> ''Sock::rx: read returned more bytes than asked''"
    for e by (auto simp: load_mismatch_def)
  show "load_good K this u' \<and> load_pend K u' = ps"
    if "load_good K this u" "load_pend K u = p # ps" "length bs = SIZE"
      "load_recv cb this p bs None 0 u = Inr (len, u')" for u p ps bs cb len u'
    using load_recv_answer [OF that(1-3), of cb] that(4) by auto
  show "\<not> load_mismatch e"
    if "load_good K this u" "load_pend K u = p # ps" "length bs = SIZE"
      "load_recv cb this p bs None 0 u = Inl e" for u p ps bs cb e
    using load_recv_answer [OF that(1-3), of cb] that(4) by auto
qed

definition load_inv :: "nat \<Rightarrow> (unit, unit, nat) Sock \<times> loader \<Rightarrow> bool" where
  "load_inv K = (\<lambda>(s, u). sock_inv s \<and> load_good K (self s) u \<and>
     in_order SIZE (contents (rx_cbs s)) (load_pend K u))"

text \<open>The bytes of one set.\<close>

definition set_bytes :: "loader \<Rightarrow> 64 word \<Rightarrow> bool \<Rightarrow> byte list" where
  "set_bytes u i loud = header_bytes (header Request (if loud then Set else Setq) 8 (ucast (ld_keysize u))
       (ucast (ld_valsize u))) @ extras_set_bytes @ chars (next_key u i) @ ld_val u"

lemma load_send_steps:
  assumes "load_send i q ks ws (s, u) wire = Inr (s', u', ks', ws', wire')" "sock_inv s"
  obtains s1 s2 where "appended s (set_bytes u i (\<not> q)) s1"
    "try_tx no_tx_callback ws (s1, u) wire = Inr (s2, u, ws', wire')"
    "if q then (s', u') = (s2, u) else sock_read load_recv ks (s2, u)
       \<lparr>hdrlen = SIZE, hdrcb = Some (), bodylen = 0, bodycb = None, rxdata = 0\<rparr> = Inr (s', u', ks')"
proof -
  let ?h = "header_bytes (header Request (if \<not> q then Set else Setq) 8 (ucast (ld_keysize u)) (ucast (ld_valsize u)))"
  have "(if \<not> q then Set else Setq) = (if q then Setq else Set)" by simp
  with assms(1) obtain sa sb sc s1 s2 u2 where w: "write_emplace s ?h = Inr sa"
    "write_emplace sa extras_set_bytes = Inr sb" "sock_write sb (chars (next_key u i)) = Inr sc"
    "sock_write sc (ld_val u) = Inr s1" and t: "try_tx no_tx_callback ws (s1, u) wire = Inr (s2, u2, ws', wire')"
    and r: "if q then (s', u') = (s2, u2) else sock_read load_recv ks (s2, u2)
       \<lparr>hdrlen = SIZE, hdrcb = Some (), bodylen = 0, bodycb = None, rxdata = 0\<rparr> = Inr (s', u', ks')"
    by (cases q) (auto simp: load_send_def next_val_def Let_def rbind_eq_Inr)
  have "u2 = u"
    using t sock_tx_user [OF no_tx_keeps [of "\<lambda>u v. v = u"]] by (auto simp: try_tx_def split: if_splits)
  moreover have "appended s (set_bytes u i (\<not> q)) s1"
  proof -
    have a: "appended s ?h sa" by (rule write_emplace_appends [OF sock_inv_wbuf [OF assms(2)] w(1)])
    have b: "appended sa extras_set_bytes sb" by (rule write_emplace_appends [OF appended_wf [OF a] w(2)])
    have c: "appended sb (chars (next_key u i)) sc" by (rule sock_write_appends [OF appended_wf [OF b] w(3)])
    have d: "appended sc (ld_val u) s1" by (rule sock_write_appends [OF appended_wf [OF c] w(4)])
    from appended_trans [OF a appended_trans [OF b appended_trans [OF c d]]] show ?thesis
      by (simp add: set_bytes_def)
  qed
  ultimately show thesis using that t r by blast
qed

lemma pend_drop:
  assumes "load_good K this u" "load_good K this u'" "load_pend K u' = drop j (load_pend K u)"
  shows "rcvd u \<le> rcvd u'"
proof -
  have "K - rcvd u' = K - rcvd u - j" using arg_cong [OF assms(3), of length] by (simp add: load_pend_def)
  moreover have "rcvd u \<le> K" "rcvd u' \<le> K" using assms(1,2) by (simp_all add: load_good_def)
  ultimately show ?thesis by linarith
qed

lemma load_send_inv:
  assumes inv: "load_inv K (s, u)" and send: "load_send i q ks ws (s, u) wire = Inr (s', u', ks', ws', wire')"
    and bound: "\<not> q \<Longrightarrow> unat (ld_notify u) * Suc K < 2 ^ 64"
  shows "load_inv (if q then K else Suc K) (s', u') \<and> rcvd u \<le> rcvd u' \<and> self s' = self s \<and>
    wire' @ contents (wbuf s') = wire @ contents (wbuf s) @ set_bytes u i (\<not> q)"
proof -
  have v: "sock_inv s" "load_good K (self s) u" "in_order SIZE (contents (rx_cbs s)) (load_pend K u)"
    using inv by (simp_all add: load_inv_def)
  obtain s1 s2 where st: "appended s (set_bytes u i (\<not> q)) s1"
    "try_tx no_tx_callback ws (s1, u) wire = Inr (s2, u, ws', wire')"
    "if q then (s', u') = (s2, u) else sock_read load_recv ks (s2, u)
       \<lparr>hdrlen = SIZE, hdrcb = Some (), bodylen = 0, bodycb = None, rxdata = 0\<rparr> = Inr (s', u', ks')"
    by (rule load_send_steps [OF send v(1)])
  have s1: "sock_inv s1" "rx_cbs s1 = rx_cbs s" "self s1 = self s"
    "contents (wbuf s1) = contents (wbuf s) @ set_bytes u i (\<not> q)"
    using appended_inv [OF v(1) st(1)] appended_frame [OF st(1)] st(1) by (auto simp: appended_def)
  from try_tx_frame [OF no_tx_keeps [of "\<lambda>u v. True"] s1(1) st(2)]
  have s2: "sock_inv s2" "rx_cbs s2 = rx_cbs s" "self s2 = self s"
    "wire' @ contents (wbuf s2) = wire @ contents (wbuf s) @ set_bytes u i (\<not> q)"
    using s1 by auto
  show ?thesis
  proof (cases q)
    case True
    with st(3) s2 v(2,3) show ?thesis by (simp add: load_inv_def)
  next
    case False
    then have rd: "sock_read load_recv ks (s2, u)
       \<lparr>hdrlen = SIZE, hdrcb = Some (), bodylen = 0, bodycb = None, rxdata = 0\<rparr> = Inr (s', u', ks')"
      using st(3) by simp
    have "rcvd u \<le> K" using v(2) by (simp add: load_good_def)
    then have pend: "load_pend (Suc K) u = load_pend K u @ [0]"
      by (simp add: load_pend_def Suc_diff_le replicate_append_same)
    have good: "load_good (Suc K) (self s) u" using v(2) bound [OF False] by (simp add: load_good_def)
    have ord: "in_order SIZE (contents (rx_cbs s2)) (load_pend K u)" using v(3) s2(2) by simp
    from ld.read_in_order [OF s2(1,3) good ord pend, where ks = ks and
      r = "\<lparr>hdrlen = SIZE, hdrcb = Some (), bodylen = 0, bodycb = None, rxdata = 0\<rparr>"] rd
    obtain j where r: "sock_inv s'" "self s' = self s" "load_good (Suc K) (self s) u'"
      "in_order SIZE (contents (rx_cbs s')) (load_pend (Suc K) u')" "load_pend (Suc K) u' = drop j (load_pend (Suc K) u)"
      by auto
    moreover have "wbuf s' = wbuf s2" by (rule sock_read_wbuf [OF s2(1) rd])
    ultimately show ?thesis using False s2(4) pend_drop [OF good r(3,5)] by (simp add: load_inv_def)
  qed
qed

lemma set_bytes_cong:
  "ld_keysize u = ld_keysize v \<Longrightarrow> ld_valsize u = ld_valsize v \<Longrightarrow> ld_val u = ld_val v \<Longrightarrow> set_bytes u i l = set_bytes v i l"
  by (simp add: set_bytes_def next_key_def)

definition same_load :: "loader \<Rightarrow> loader \<Rightarrow> bool" where
  "same_load u0 u \<longleftrightarrow> ld_toload u = ld_toload u0 \<and> ld_notify u = ld_notify u0 \<and> ld_batch u = ld_batch u0 \<and>
     ld_keysize u = ld_keysize u0 \<and> ld_valsize u = ld_valsize u0 \<and> ld_val u = ld_val u0"

text \<open>Where a run that started in \<open>u0\<close> with \<open>out\<close> already handed to the socket is after \<open>sent_\<close> sets.\<close>

definition load_at :: "loader \<Rightarrow> byte list \<Rightarrow> (unit, unit, nat) Sock \<times> loader \<Rightarrow> byte list \<Rightarrow> bool" where
  "load_at u0 out = (\<lambda>(s, u) wire.
     let n = unat (ld_notify u0); t = unat (ld_toload u0); k = unat (ld_sent u) in
     same_load u0 u \<and> ld_seqid u = ld_seqid u0 + ld_sent u \<and> k \<le> t \<and> load_inv (louds n t k) (s, u) \<and>
     k \<le> unat (ld_recv u) + unat (ld_batch u0) \<and>
     wire @ contents (wbuf s) = out @ concat (map (\<lambda>j. set_bytes u0 (ld_seqid u0 + word_of_nat j)
       (Suc j mod n = 0 \<or> Suc j = t)) [0..<k]))"

lemma recv_le_sent:
  assumes "load_inv (louds (unat (ld_notify u)) t k) (s, u)" "k < t"
  shows "unat (ld_recv u) \<le> k"
proof -
  let ?n = "unat (ld_notify u)"
  have "unat (ld_recv u) = ?n * rcvd u" "rcvd u \<le> louds ?n t k"
    using assms(1) by (auto simp: load_inv_def load_good_def)
  then have "unat (ld_recv u) \<le> ?n * louds ?n t k" by simp
  with louds_before_end [OF assms(2), of ?n] show ?thesis by linarith
qed

lemma load_fill_at:
  assumes "load_fill ks ws (s, u) wire = Inr ((s', u'), ks', ws', wire')" "load_at u0 out (s, u) wire"
    and "unat (ld_toload u0) + unat (ld_notify u0) < 2 ^ 64"
  shows "load_at u0 out (s', u') wire' \<and> \<not> (ld_sent u' < ld_toload u' \<and> ld_onwire u' < ld_batch u') \<and> self s' = self s"
  using assms(1,2)
proof (induction ks ws "(s, u)" wire arbitrary: s u rule: load_fill.induct)
  case (1 ks ws s u wire)
  let ?n = "unat (ld_notify u0)" and ?t = "unat (ld_toload u0)" and ?k = "unat (ld_sent u)"
  have at: "same_load u0 u" "ld_seqid u = ld_seqid u0 + ld_sent u" "?k \<le> ?t" "load_inv (louds ?n ?t ?k) (s, u)"
    "?k \<le> unat (ld_recv u) + unat (ld_batch u0)"
    "wire @ contents (wbuf s) = out @ concat (map (\<lambda>j. set_bytes u0 (ld_seqid u0 + word_of_nat j)
       (Suc j mod ?n = 0 \<or> Suc j = ?t)) [0..<?k])"
    using "1.prems"(2) by (simp_all add: load_at_def Let_def)
  note same = at(1) [unfolded same_load_def]
  show ?case
  proof (cases "ld_sent u < ld_toload u \<and> ld_onwire u < ld_batch u")
    case False
    with "1.prems" show ?thesis by (auto simp: load_fill.simps [of ks ws s u])
  next
    case True
    let ?loud = "(ld_sent u + 1) mod ld_notify u = 0 \<or> ld_sent u = ld_toload u - 1"
    let ?u = "u\<lparr>ld_seqid := ld_seqid u + 1\<rparr>"
    have n: "ld_notify u \<noteq> 0" "0 < ?n" using at(4) same by (auto simp: load_inv_def load_good_def unat_gt_0)
    have kt: "?k < ?t" using True same by (simp add: word_less_nat_alt)
    have k1: "unat (ld_sent u + 1) = Suc ?k" using unat_Suc_less [of "ld_sent u" "ld_toload u"] True by blast
    have loud: "?loud \<longleftrightarrow> Suc ?k mod ?n = 0 \<or> Suc ?k = ?t"
    proof -
      have "(ld_sent u + 1) mod ld_notify u = 0 \<longleftrightarrow> Suc ?k mod ?n = 0"
        using same k1 by (simp add: unat_eq_0 [symmetric] unat_mod_distrib)
      moreover have "ld_sent u = ld_toload u - 1 \<longleftrightarrow> Suc ?k = ?t"
        using same k1 by (metis diff_add_cancel add_diff_cancel_right' word_unat_eq_iff)
      ultimately show ?thesis by simp
    qed
    obtain s1 u1 ks1 ws1 wire1 where st: "load_send (ld_seqid u) (\<not> ?loud) ks ws (s, ?u) wire = Inr (s1, u1, ks1, ws1, wire1)"
      "load_fill ks1 ws1 (s1, u1\<lparr>ld_sent := ld_sent u1 + 1, ld_onwire := ld_onwire u1 + 1\<rparr>) wire1 = Inr ((s', u'), ks', ws', wire')"
      using "1.prems"(1) True n(1) by (auto simp: load_fill.simps [of ks ws s u] Let_def rbind_eq_Inr)
    let ?u1 = "u1\<lparr>ld_sent := ld_sent u1 + 1, ld_onwire := ld_onwire u1 + 1\<rparr>"
    have inv: "load_inv (louds ?n ?t ?k) (s, ?u)"
      using at(4) by (simp add: load_inv_def load_good_def load_pend_def rcvd_def)
    have K: "louds ?n ?t (Suc ?k) = (if ?loud then Suc (louds ?n ?t ?k) else louds ?n ?t ?k)"
      using louds_Suc [OF kt n(2)] loud by simp
    have bound: "unat (ld_notify ?u) * Suc (louds ?n ?t ?k) < 2 ^ 64" if "\<not> \<not> ?loud"
      using louds_upper [OF n(2), of "Suc ?k" ?t] kt K that assms(3) same by simp
    note S = load_send_inv [OF inv st(1) bound]
    note fr = loader_same [OF load_send_frame [OF st(1)]]
    have "load_at u0 out (s1, ?u1) wire1"
      unfolding load_at_def Let_def split
    proof (intro conjI)
      show "same_load u0 ?u1" using at(1) fr by (simp add: same_load_def)
      show "ld_seqid ?u1 = ld_seqid u0 + ld_sent ?u1" using fr at(2) by simp
      show "unat (ld_sent ?u1) \<le> ?t" using kt k1 fr by simp
      have "load_inv (louds ?n ?t (Suc ?k)) (s1, u1)"
        using S K by (cases ?loud) (simp_all only: if_True if_False simp_thms)
      then show "load_inv (louds ?n ?t (unat (ld_sent ?u1))) (s1, ?u1)"
        using k1 fr by (simp add: load_inv_def load_good_def load_pend_def rcvd_def)
      have rle: "unat (ld_recv u) \<le> ?k"
        using recv_le_sent [OF _ kt, of u s] at(4) same by simp
      have "unat (ld_onwire u) = ?k - unat (ld_recv u)"
        using at(4) rle by (simp add: load_inv_def load_good_def unat_sub word_le_nat_alt)
      then have "?k - unat (ld_recv u) < unat (ld_batch u0)" using True same by (simp add: word_less_nat_alt)
      moreover have "unat (ld_recv u) \<le> unat (ld_recv u1)"
      proof -
        have "rcvd u \<le> rcvd u1" using S by (simp add: rcvd_def)
        moreover have "unat (ld_recv u1) = ?n * rcvd u1" "unat (ld_recv u) = ?n * rcvd u"
          using S at(4) fr same by (auto simp: load_inv_def load_good_def split: if_splits)
        ultimately show ?thesis by simp
      qed
      ultimately show "unat (ld_sent ?u1) \<le> unat (ld_recv ?u1) + unat (ld_batch u0)"
        using rle k1 fr by simp
      have "set_bytes ?u (ld_seqid u) ?loud = set_bytes u0 (ld_seqid u0 + word_of_nat ?k) (Suc ?k mod ?n = 0 \<or> Suc ?k = ?t)"
        using same at(2) loud by (auto intro: set_bytes_cong)
      then show "wire1 @ contents (wbuf s1) = out @ concat (map (\<lambda>j. set_bytes u0 (ld_seqid u0 + word_of_nat j)
       (Suc j mod ?n = 0 \<or> Suc j = ?t)) [0..<unat (ld_sent ?u1)])"
        using S at(6) k1 fr by simp
    qed
    from "1.hyps" [OF True n(1) refl refl st(1) refl refl refl refl st(2) this] S show ?thesis by simp
  qed
qed

lemma events_at:
  assumes "load_events evs ks ws (s, u) wire = Inr ((s', u'), ks', ws', wire')" "load_at u0 out (s, u) wire"
  shows "load_at u0 out (s', u') wire'"
  using assms
proof (induction evs arbitrary: ks ws s u wire)
  case (Cons e evs)
  obtain ev so where e: "e = (ev, so)" by (cases e)
  from Cons.prems(1) obtain s1 u1 ks1 ws1 wire1 where st:
    "sock_run_io load_recv no_tx_callback ks ws so ev (s, u) wire = Inr (s1, u1, ks1, ws1, wire1)"
    "load_events evs ks1 ws1 (s1, u1) wire1 = Inr ((s', u'), ks', ws', wire')"
    by (auto simp: e rbind_eq_Inr)
  let ?n = "unat (ld_notify u0)" and ?t = "unat (ld_toload u0)" and ?k = "unat (ld_sent u)"
  let ?K = "louds ?n ?t ?k"
  have at: "same_load u0 u" "ld_seqid u = ld_seqid u0 + ld_sent u" "?k \<le> ?t" "load_inv ?K (s, u)"
    "?k \<le> unat (ld_recv u) + unat (ld_batch u0)"
    "wire @ contents (wbuf s) = out @ concat (map (\<lambda>j. set_bytes u0 (ld_seqid u0 + word_of_nat j)
       (Suc j mod ?n = 0 \<or> Suc j = ?t)) [0..<?k])"
    using Cons.prems(2) by (simp_all add: load_at_def Let_def)
  have v: "sock_inv s" "load_good ?K (self s) u" "in_order SIZE (contents (rx_cbs s)) (load_pend ?K u)"
    using at(4) by (simp_all add: load_inv_def)
  have "tx_keeps no_tx_callback (\<lambda>u v. load_pend ?K v = load_pend ?K u \<and> (load_good ?K (self s) u \<longrightarrow> load_good ?K (self s) v))"
    by (rule no_tx_keeps) simp_all
  from ld.run_io_in_order [OF this v(1) refl v(2,3) st(1)] obtain j where
    r: "load_inv ?K (s1, u1)" "load_good ?K (self s) u1" "load_pend ?K u1 = drop j (load_pend ?K u)"
    by (auto simp: load_inv_def)
  have fr: "u1\<lparr>ld_recv := 0, ld_onwire := 0\<rparr> = u\<lparr>ld_recv := 0, ld_onwire := 0\<rparr>"
    by (rule run_io_user [OF load_recv_keeps no_tx_keeps st(1)]) simp_all
  note fr = loader_same [OF this]
  have "unat (ld_recv u) \<le> unat (ld_recv u1)"
    using pend_drop [OF v(2) r(2,3)] v(2) r(2) fr by (simp add: load_good_def)
  moreover have "wire1 @ contents (wbuf s1) = wire @ contents (wbuf s)"
    by (rule run_io_wire [OF v(1) st(1)])
  ultimately have "load_at u0 out (s1, u1) wire1"
    using at r(1) fr by (auto simp: load_at_def Let_def same_load_def)
  from Cons.IH [OF st(2) this] show ?case .
qed simp

lemma load_run_at:
  assumes "load_run wakes ks ws (s, u) wire = Inr (fin, (s', u'), wire')" "load_at u0 out (s, u) wire"
    and "unat (ld_toload u0) + unat (ld_notify u0) < 2 ^ 64"
  shows "load_at u0 out (s', u') wire' \<and> \<not> (ld_sent u' < ld_toload u' \<and> ld_onwire u' < ld_batch u') \<and>
    fin = (ld_toload u' \<le> ld_recv u')"
  using assms(1,2)
proof (induction wakes arbitrary: ks ws s u wire)
  case Nil
  then obtain s1 u1 ks1 ws1 wire1 where f: "load_fill ks ws (s, u) wire = Inr ((s1, u1), ks1, ws1, wire1)"
    "fin = (ld_toload u1 \<le> ld_recv u1)" "s1 = s'" "u1 = u'" "wire1 = wire'"
    by (auto simp: load_run.simps [of "[]"] rbind_eq_Inr split: if_splits)
  with load_fill_at [OF f(1) Nil.prems(2) assms(3)] show ?case by simp
next
  case (Cons w wakes)
  then obtain s1 u1 ks1 ws1 wire1 where f: "load_fill ks ws (s, u) wire = Inr ((s1, u1), ks1, ws1, wire1)"
    by (auto simp: load_run.simps [of "w # wakes"] rbind_eq_Inr)
  note F = load_fill_at [OF f Cons.prems(2) assms(3)]
  show ?case
  proof (cases "ld_toload u1 \<le> ld_recv u1")
    case True
    with Cons.prems(1) f F show ?thesis by (auto simp: load_run.simps [of "w # wakes"])
  next
    case False
    with Cons.prems(1) f obtain evs s2 u2 ks2 ws2 wire2 where w:
      "load_events evs ks1 ws1 (s1, u1) wire1 = Inr ((s2, u2), ks2, ws2, wire2)"
      "load_run wakes ks2 ws2 (s2, u2) wire2 = Inr (fin, (s', u'), wire')"
      by (auto simp: load_run.simps [of "w # wakes"] rbind_eq_Inr split: wake.splits)
    from Cons.IH [OF w(2) events_at [OF w(1)]] F show ?thesis by simp
  qed
qed

lemma awaiting_pend: "load_inv K (s, u) \<Longrightarrow> awaiting (contents (rx_cbs s)) = load_pend K u"
  by (simp add: load_inv_def in_order_def)

text \<open>What the exit condition and the bound on the sets under way say about the loud sets.\<close>

lemma load_at_outcome:
  assumes "load_at u0 out (s, u) wire" "\<not> (ld_sent u < ld_toload u \<and> ld_onwire u < ld_batch u)"
    and "ld_notify u0 \<le> ld_batch u0"
  shows "if ld_toload u \<le> ld_recv u then ld_sent u = ld_toload u \<and> awaiting (contents (rx_cbs s)) = []
    else awaiting (contents (rx_cbs s)) \<noteq> []"
proof -
  let ?n = "unat (ld_notify u0)" and ?t = "unat (ld_toload u0)" and ?k = "unat (ld_sent u)"
  let ?K = "louds ?n ?t ?k"
  have at: "same_load u0 u" "?k \<le> ?t" "load_inv ?K (s, u)"
    using assms(1) by (simp_all add: load_at_def Let_def)
  have same: "ld_toload u = ld_toload u0" "ld_notify u = ld_notify u0" "ld_batch u = ld_batch u0"
    using at(1) by (simp_all add: same_load_def)
  have g: "ld_notify u0 \<noteq> 0" "unat (ld_recv u) = ?n * rcvd u" "rcvd u \<le> ?K" "ld_onwire u = ld_sent u - ld_recv u"
    using at(3) same by (simp_all add: load_inv_def load_good_def)
  then have n: "0 < ?n" by (simp add: unat_gt_0)
  show ?thesis
  proof (cases "ld_toload u \<le> ld_recv u")
    case True
    then have r: "?t \<le> ?n * rcvd u" using same g(2) by (simp add: word_le_nat_alt)
    have "?k = ?t"
    proof (rule ccontr)
      assume "?k \<noteq> ?t"
      then have "?k < ?t" using at(2) by simp
      then have "?n * ?K \<le> ?k" by (rule louds_before_end)
      moreover have "?n * rcvd u \<le> ?n * ?K" using g(3) by simp
      ultimately show False using r \<open>?k < ?t\<close> by linarith
    qed
    moreover from this have "?K \<le> rcvd u" using louds_all [OF n, of "rcvd u" ?t] r by simp
    moreover have "ld_sent u = ld_toload u" using \<open>?k = ?t\<close> same by (simp add: word_unat_eq_iff)
    ultimately show ?thesis using True awaiting_pend [OF at(3)] by (simp add: load_pend_def)
  next
    case False
    then have r: "?n * rcvd u < ?t" using same g(2) by (simp add: word_le_nat_alt)
    have "rcvd u < ?K"
    proof (cases "?k = ?t")
      case True
      with louds_all [OF n] r show ?thesis by simp
    next
      case neq: False
      then have kt: "?k < ?t" using at(2) by simp
      then have "unat (ld_batch u0) \<le> unat (ld_onwire u)" using assms(2) same by (simp add: word_less_nat_alt not_less)
      moreover have rs: "unat (ld_recv u) \<le> ?k"
        using recv_le_sent [OF _ kt, of u s] at(3) same by simp
      ultimately have "?n * rcvd u + ?n \<le> ?k"
        using g(2,4) assms(3) by (simp add: unat_sub word_le_nat_alt)
      then show ?thesis by (rule louds_room [OF n])
    qed
    with False show ?thesis using awaiting_pend [OF at(3)] by (simp add: load_pend_def)
  qed
qed

subsection \<open>Sending on a socket that is not ready\<close>

lemma write_emplace_head: "write_emplace s t = Inr s' \<Longrightarrow> head (wbuf s') = head (wbuf s)"
  by (auto simp: write_emplace_def write_commit_def queue_commit_def set_wmem_def Let_def res_simps split: if_splits)

lemma no_straddle:
  "wf_buffer b \<Longrightarrow> head b = 0 \<Longrightarrow> used b + n \<le> length (buf b) \<Longrightarrow> 0 < n \<Longrightarrow> \<not> straddles b n"
  by (auto simp: straddles_def wf_buffer_def ring_ix_def bufcap_def)

lemma appended_used: "appended s data s' \<Longrightarrow>
    used (wbuf s') = used (wbuf s) + length data \<and> length (buf (wbuf s')) = length (buf (wbuf s))"
  by (auto simp: appended_def) (metis length_append length_contents)

lemma load_send_ok:
  assumes "sock_inv s" "\<not> tx_rdy s" "\<not> rx_rdy s" "used (rx_cbs s) < length (buf (rx_cbs s))" "head (wbuf s) = 0"
    and "0 < unat (ld_keysize u)" "ld_val u \<noteq> []"
    and "used (wbuf s) + (32 + unat (ld_keysize u) + length (ld_val u)) \<le> length (buf (wbuf s))"
  shows "\<exists>s'. load_send i q ks ws (s, u) wire = Inr (s', u, ks, ws, wire)"
proof -
  let ?h = "header_bytes (header Request (if q then Setq else Set) 8 (ucast (ld_keysize u)) (ucast (ld_valsize u)))"
  let ?k = "chars (next_key u i)"
  have h: "length ?h = 24" "?h \<noteq> []" "extras_set_bytes \<noteq> []"
    using length_header_bytes by (auto simp: SIZE_def simp flip: length_0_conv)
  have k: "length ?k = unat (ld_keysize u)" "?k \<noteq> []"
    using assms(6) by (simp_all add: next_key_def snprintf_def flip: length_0_conv)
  note wf = sock_inv_wbuf [OF assms(1)]
  have "SIZE \<le> length (buf (wbuf s)) - used (wbuf s)" "\<not> straddles (wbuf s) 24"
    using no_straddle [OF wf assms(5), of 24] assms(8) by (simp_all add: SIZE_def)
  then obtain s1 where s1: "write_emplace s ?h = Inr s1" "appended s ?h s1"
    using write_emplace_cases [OF wf h(2)] h by (auto simp: space_def buffer_size_def)
  note u1 = appended_used [OF s1(2)]
  have "8 \<le> space (wbuf s1)" "\<not> straddles (wbuf s1) 8"
    using u1 h assms(5,8) write_emplace_head [OF s1(1)] no_straddle [OF appended_wf [OF s1(2)], of 8]
    by (simp_all add: space_def buffer_size_def SIZE_def)
  then obtain s2 where s2: "write_emplace s1 extras_set_bytes = Inr s2" "appended s1 extras_set_bytes s2"
    using write_emplace_cases [OF appended_wf [OF s1(2)] h(3)] by auto
  note u2 = appended_used [OF s2(2)]
  have "length ?k \<le> space (wbuf s2)"
    using u1 u2 k(1) assms(8) by (simp add: space_def buffer_size_def SIZE_def)
  from sock_write_ok [OF appended_wf [OF s2(2)] k(2) this]
  obtain s3 where s3: "sock_write s2 ?k = Inr s3" "appended s2 ?k s3" by auto
  note u3 = appended_used [OF s3(2)]
  have "length (ld_val u) \<le> space (wbuf s3)"
    using u1 u2 u3 k(1) assms(8) by (simp add: space_def buffer_size_def SIZE_def)
  from sock_write_ok [OF appended_wf [OF s3(2)] assms(7) this]
  obtain s4 where s4: "sock_write s3 (ld_val u) = Inr s4" "appended s3 (ld_val u) s4" by auto
  have fr: "rx_cbs s4 = rx_cbs s" "tx_rdy s4 = tx_rdy s" "rx_rdy s4 = rx_rdy s"
    using s1(2) s2(2) s3(2) s4(2) by (auto simp: appended_def)
  have "wf_buffer (rx_cbs s4)" using assms(1) fr by (simp add: sock_inv_def rx_ok_def)
  with queue_one [of "rx_cbs s4"] assms(4) fr obtain t where
    "queue (rx_cbs s4) 1 = Inr (tail (rx_cbs s4), 1, (rx_cbs s4)\<lparr>tail := t, used := used (rx_cbs s4) + 1\<rparr>)" by auto
  with s1(1) s2(1) s3(1) s4(1) assms(2,3) fr show ?thesis
    by (simp add: load_send_def next_val_def try_tx_def sock_read_def Let_def)
qed

subsection \<open>Properties\<close>

lemma connect_wbuf: "sock_connect k s = Inr s' \<Longrightarrow> wbuf s' = wbuf s \<and> tx_rdy s' = tx_rdy s \<and> rx_rdy s' = rx_rdy s"
  by (auto simp: sock_connect_def res_simps Let_def split: if_splits)

lemma loader_new_fields:
  assumes "loader_new ep k ctl cfg s0 = Inr (s, u)"
  shows "sock_connect k s0 = Inr s \<and> u = \<lparr>ld_sock = self s0, ld_toload = lc_keys cfg, ld_sent = 0, ld_recv = 0,
    ld_keysize = lc_keyn cfg, ld_valsize = lc_valn cfg, ld_val = replicate (unat (lc_valn cfg)) 97,
    ld_seqid = lc_start cfg, ld_batch = lc_batch cfg, ld_onwire = 0, ld_notify = min (lc_notify cfg) (lc_batch cfg)\<rparr>"
  using assms by (auto simp: loader_new_def Let_def rbind_eq_Inr split: if_splits)

lemma loader_new_at:
  assumes "0 < nreqs" "0 < nchars" "loader_new ep k ctl cfg (sock_new nreqs nchars this 0) = Inr (s, u)"
    and "lc_notify cfg \<noteq> 0" "lc_batch cfg \<noteq> 0" "unat (lc_keys cfg) + unat (lc_notify cfg) < 2 ^ 64"
  shows "load_at u [] (s, u) [] \<and> unat (ld_toload u) + unat (ld_notify u) < 2 ^ 64 \<and> ld_notify u \<le> ld_batch u \<and>
    ld_notify u \<noteq> 0"
proof -
  let ?s0 = "sock_new nreqs nchars this 0 :: (unit, unit, nat) Sock"
  note f = loader_new_fields [OF assms(3)]
  have s: "sock_inv s" "rx_cbs s = rx_cbs ?s0" "self s = self ?s0" "wbuf s = wbuf ?s0"
    using connect_inv [OF sock_new_inv [OF assms(1,2)] conjunct1 [OF f]] connect_frame [OF conjunct1 [OF f]]
      connect_wbuf [OF conjunct1 [OF f]] by simp_all
  have c: "contents (rx_cbs s) = []" "contents (wbuf s) = []"
    using s by (simp_all add: sock_new_def contents_def slots_def buffer_new_def)
  have "unat (ld_notify u) \<le> unat (lc_notify cfg)" using f by (simp add: min_def word_le_nat_alt)
  moreover have "ld_notify u \<noteq> 0" using f assms(4,5) by (simp add: min_def)
  moreover have "load_at u [] (s, u) []"
    unfolding load_at_def Let_def split
    using f s c calculation(2)
    by (simp add: same_load_def load_inv_def load_good_def load_pend_def rcvd_def)
  ultimately show ?thesis using f assms(6) by simp
qed

text \<open>C19: A loader waits in \<open>epoll_wait\<close> only while the response to a loud set is outstanding, and it is finished
  exactly when all sets were sent and every loud one was answered, for any number of keys, batch and notify window
  above 0 (and counters that cannot wrap), however the responses arrive.\<close>

theorem loader_outcome:
  assumes "0 < nreqs" "0 < nchars" "loader_new ep k ctl cfg (sock_new nreqs nchars this 0) = Inr (s, u)"
    and "lc_notify cfg \<noteq> 0" "lc_batch cfg \<noteq> 0" "unat (lc_keys cfg) + unat (lc_notify cfg) < 2 ^ 64"
    and "load_run wakes ks ws (s, u) [] = Inr (fin, (s', u'), wire)"
  shows "(fin \<longleftrightarrow> ld_sent u' = lc_keys cfg \<and> awaiting (contents (rx_cbs s')) = []) \<and>
    (\<not> fin \<longrightarrow> awaiting (contents (rx_cbs s')) \<noteq> []) \<and>
    unat (ld_sent u') \<le> unat (ld_recv u') + unat (lc_batch cfg)"
proof -
  note at = loader_new_at [OF assms(1-6)]
  note f = loader_new_fields [OF assms(3)]
  from load_run_at [OF assms(7)] at have r: "load_at u [] (s', u') wire"
    "\<not> (ld_sent u' < ld_toload u' \<and> ld_onwire u' < ld_batch u')" "fin = (ld_toload u' \<le> ld_recv u')" by auto
  have "same_load u u'" "unat (ld_sent u') \<le> unat (ld_recv u') + unat (ld_batch u)"
    using r(1) by (simp_all add: load_at_def Let_def)
  with load_at_outcome [OF r(1,2)] at r(3) f show ?thesis by (auto simp: same_load_def split: if_splits)
qed

text \<open>C20: What the loader hands to the socket is, in order, one well-formed set for each consecutive sequence number
  from the start number, with the padded number as key, and the loud ones are every \<open>notify_\<close>-th and the last.\<close>

theorem loader_stream:
  assumes "0 < nreqs" "0 < nchars" "loader_new ep k ctl cfg (sock_new nreqs nchars this 0) = Inr (s, u)"
    and "lc_notify cfg \<noteq> 0" "lc_batch cfg \<noteq> 0" "unat (lc_keys cfg) + unat (lc_notify cfg) < 2 ^ 64"
    and "load_run wakes ks ws (s, u) [] = Inr (fin, (s', u'), wire)"
  shows "wire @ contents (wbuf s') = concat (map (\<lambda>j.
    header_bytes (header Request
      (if Suc j mod unat (min (lc_notify cfg) (lc_batch cfg)) = 0 \<or> Suc j = unat (lc_keys cfg) then Set else Setq)
      8 (ucast (lc_keyn cfg)) (ucast (lc_valn cfg))) @
    extras_set_bytes @ chars (key_text (unat (lc_keyn cfg)) (unat (lc_start cfg + word_of_nat j))) @
    replicate (unat (lc_valn cfg)) 97) [0..<unat (ld_sent u')])"
proof -
  note at = loader_new_at [OF assms(1-6)]
  note f = loader_new_fields [OF assms(3)]
  from load_run_at [OF assms(7)] at have "load_at u [] (s', u') wire" by auto
  then have "wire @ contents (wbuf s') = concat (map (\<lambda>j. set_bytes u (ld_seqid u + word_of_nat j)
       (Suc j mod unat (ld_notify u) = 0 \<or> Suc j = unat (ld_toload u))) [0..<unat (ld_sent u')])"
    by (simp add: load_at_def Let_def)
  then show ?thesis using f by (simp add: set_bytes_def next_key_def key_text_def)
qed

text \<open>C40: The check of the key size is off by one: \<open>10 ^ k\<close> keys of size \<open>k\<close> are accepted, but the last key has
  \<open>k + 1\<close> digits and is cut to the key of \<open>10 ^ (k - 1)\<close>, which it overwrites.\<close>

theorem loader_keys_collide:
  assumes "rnd (10 ^ k) = 10 ^ k" "rnd (real k) = real k" "0 < k" "k \<le> 19"
    and "run_options (load_option prog) opts load_default = Inr cfg" "lc_keys cfg = 10 ^ k" "lc_keyn cfg = of_nat k"
    and "scan_addr 255 ADDR_SIZE arg = Inr (Some (a, p))"
  shows "load_config prog rnd opts (arg # args) = Inr (cfg\<lparr>lc_addr := a, lc_port := p\<rparr>) \<and>
    (ld_keysize u = of_nat k \<longrightarrow> next_key u (10 ^ k) = next_key u (10 ^ (k - 1)))"
proof -
  have k64: "unat (of_nat k :: 64 word) = k"
    using assms(4) by (simp add: unat_of_nat take_bit_nat_eq_self)
  have ten: "unat (10 ^ j :: 64 word) = 10 ^ j" if "j \<le> 19" for j
  proof -
    have "(10 :: nat) ^ j \<le> 10 ^ 19" using that by (intro power_increasing) auto
    then have "(10 :: nat) ^ j < 2 ^ 64" by (rule le_less_trans) simp
    moreover have "(10 ^ j :: 64 word) = of_nat (10 ^ j)" by simp
    ultimately show ?thesis by (simp only: unat_of_nat) simp
  qed
  have "log10_len rnd (10 ^ k) = Inr (of_nat k)"
  proof -
    have "(10 ^ k :: 64 word) \<noteq> 0" using ten [OF assms(4)] by (metis power_not_zero unat_0 zero_neq_numeral)
    moreover have "log 10 (10 ^ k) = real k" by simp
    ultimately show ?thesis using ten [OF assms(4)] assms(1,2,4) by (simp add: log10_len_def to_uint64_def Let_def)
  qed
  then have "load_config prog rnd opts (arg # args) = Inr (cfg\<lparr>lc_addr := a, lc_port := p\<rparr>)"
    using assms(5-8) by (simp add: load_config_def or_usage_def)
  moreover have "next_key u (10 ^ k) = next_key u (10 ^ (k - 1))" if "ld_keysize u = of_nat k"
  proof -
    obtain j where j: "k = Suc j" using assms(3) by (cases k) auto
    have s: "show_nat (10 ^ k) = show_nat (10 ^ j) @ [digit 0]"
      by (subst show_nat.simps) (simp add: j)
    have "length (show_nat (10 ^ j)) = k"
      using length_show_le [of "10 ^ j" k] length_show_gt [of j "10 ^ j"] by (simp add: j)
    then show ?thesis
      using that k64 ten [of k] ten [of "k - 1"] assms(4) s by (simp add: next_key_def snprintf_def pad_nat_def j)
  qed
  ultimately show ?thesis by blast
qed

text \<open>With a notify window of 0 the loader divides by zero at its first key; with a batch of 0 it sends
  nothing and waits for a response to nothing.\<close>

theorem loader_zero_windows:
  assumes "loader_new ep k ctl cfg (sock_new nreqs nchars this 0) = Inr (s, u)" "lc_keys cfg \<noteq> 0"
  shows "(lc_notify cfg = 0 \<and> lc_batch cfg \<noteq> 0 \<longrightarrow>
      load_run wakes ks ws (s, u) [] = Inl (Undefined_behaviour ''division by zero'')) \<and>
    (lc_batch cfg = 0 \<longrightarrow> load_run [] ks ws (s, u) [] = Inr (False, (s, u), []) \<and> contents (rx_cbs s) = [])"
proof -
  note f = loader_new_fields [OF assms(1)]
  have "rx_cbs s = rx_cbs (sock_new nreqs nchars this 0 :: (unit, unit, nat) Sock)" using connect_frame [OF conjunct1 [OF f]] by simp
  then have c: "contents (rx_cbs s) = []" by (simp add: sock_new_def contents_def slots_def buffer_new_def)
  have "0 < lc_keys cfg" using assms(2) by (simp add: word_neq_0_conv)
  moreover have "0 < lc_batch cfg" if "lc_batch cfg \<noteq> 0" using that by (simp add: word_neq_0_conv)
  ultimately show ?thesis using f c by (auto simp: load_run.simps load_fill.simps not_le)
qed

subsection \<open>Witnesses\<close>

definition demo_connect :: connect_env where
  "demo_connect = \<lparr>sys_socket = (3, 0), sys_getfl = (2, 0), sys_setfl = (0, 0),
     sys_connect = (-1, EINPROGRESS), sys_nodelay = (0, 0)\<rparr>"

definition demo_load :: "64 word \<Rightarrow> 64 word \<Rightarrow> LoadConfig" where
  "demo_load batch notify = load_default\<lparr>lc_keys := 1, lc_keyn := 1, lc_valn := 1, lc_batch := batch, lc_notify := notify\<rparr>"

definition demo_loader :: "64 word \<Rightarrow> 64 word \<Rightarrow> loader" where
  "demo_loader batch notify = \<lparr>ld_sock = 9, ld_toload = 1, ld_sent = 0, ld_recv = 0, ld_keysize = 1, ld_valsize = 1,
     ld_val = [97], ld_seqid = 1, ld_batch = batch, ld_onwire = 0, ld_notify = min notify batch\<rparr>"

lemma demo_loader_new:
  "loader_new (4, 0) demo_connect (0, 0) (demo_load batch notify) (sock_new 2 40 9 0) =
    Inr ((sock_new 2 40 9 0)\<lparr>fd := 3\<rparr>, demo_loader batch notify)"
  using length_keyfmt [of 1]
  by (simp add: loader_new_def demo_connect_def demo_load_def demo_loader_def load_default_def system_call_def
      sock_connect_def epoll_watch_def Let_def LOAD_KEYFMT_SIZE_def KEYFMT_SIZE_def sock_new_def)

lemma demo_sent: "\<exists>s'. load_run [] [] [] ((sock_new 2 40 9 0)\<lparr>fd := 3\<rparr>, demo_loader 1 1) [] =
    Inr (False, (s', (demo_loader 1 1)\<lparr>ld_sent := 1, ld_onwire := 1, ld_seqid := 2\<rparr>), [])"
proof -
  let ?s = "(sock_new 2 40 9 0)\<lparr>fd := 3\<rparr> :: (unit, unit, nat) Sock"
  have "sock_inv ?s" using sock_new_inv [of 2 40 9 "0 :: nat"] by (simp add: sock_inv_def rx_ok_def tx_inv_def tx_ok_def)
  then obtain s' where "load_send 1 False [] [] (?s, (demo_loader 1 1)\<lparr>ld_seqid := 2\<rparr>) [] =
      Inr (s', (demo_loader 1 1)\<lparr>ld_seqid := 2\<rparr>, [], [], [])"
    using load_send_ok [of ?s "(demo_loader 1 1)\<lparr>ld_seqid := 2\<rparr>" 1 False "[]" "[]" "[]"]
    by (auto simp: sock_new_def buffer_new_def demo_loader_def)
  then show ?thesis by (auto simp: load_run.simps [of "[]"] load_fill.simps demo_loader_def Let_def)
qed

theorem loader_outcome_witness:
  "\<exists>s' u'. load_run [] [] [] ((sock_new 2 40 9 0)\<lparr>fd := 3\<rparr>, demo_loader 1 1) [] = Inr (False, (s', u'), []) \<and>
    awaiting (contents (rx_cbs s')) \<noteq> []"
proof -
  obtain s' where r: "load_run [] [] [] ((sock_new 2 40 9 0)\<lparr>fd := 3\<rparr>, demo_loader 1 1) [] =
    Inr (False, (s', (demo_loader 1 1)\<lparr>ld_sent := 1, ld_onwire := 1, ld_seqid := 2\<rparr>), [])" using demo_sent by blast
  from loader_outcome [OF _ _ demo_loader_new _ _ _ r] r show ?thesis
    by (auto simp: demo_load_def load_default_def)
qed

theorem loader_stream_witness:
  "\<exists>s' u'. load_run [] [] [] ((sock_new 2 40 9 0)\<lparr>fd := 3\<rparr>, demo_loader 1 1) [] = Inr (False, (s', u'), []) \<and>
    contents (wbuf s') = header_bytes (header Request Set 8 1 1) @ extras_set_bytes @ chars (key_text 1 1) @ [97]"
proof -
  obtain s' where r: "load_run [] [] [] ((sock_new 2 40 9 0)\<lparr>fd := 3\<rparr>, demo_loader 1 1) [] =
    Inr (False, (s', (demo_loader 1 1)\<lparr>ld_sent := 1, ld_onwire := 1, ld_seqid := 2\<rparr>), [])" using demo_sent by blast
  from loader_stream [OF _ _ demo_loader_new _ _ _ r] r show ?thesis
    by (auto simp: demo_load_def load_default_def)
qed

definition demo_ten :: "(char \<times> string) list" where
  "demo_ten = [(CHR ''z'', ''10''), (CHR ''k'', ''1'')]"

theorem loader_keys_collide_witness:
  "(\<exists>cfg. load_config ''load'' (\<lambda>x. x) demo_ten [''h:80''] = Inr cfg \<and> lc_keys cfg = 10 \<and> lc_keyn cfg = 1) \<and>
   next_key ((demo_loader 1 1)\<lparr>ld_keysize := 1\<rparr>) 10 = next_key ((demo_loader 1 1)\<lparr>ld_keysize := 1\<rparr>) 1"
proof -
  have o: "run_options (load_option ''load'') demo_ten load_default = Inr (load_default\<lparr>lc_keys := 10, lc_keyn := 1\<rparr>)"
    by (simp add: demo_ten_def load_option_def atoi_def ato_def is_space_def is_digit_def less_eq_char_def
      dec_def digit_val_def Let_def)
  have a: "scan_addr 255 ADDR_SIZE ''h:80'' = Inr (Some (''h'', 80))"
    by (simp add: scan_addr_def ADDR_SIZE_def scan_hu_def is_space_def is_digit_def less_eq_char_def
      dec_def digit_val_def Let_def)
  from loader_keys_collide [OF _ _ _ _ o _ _ a, of "\<lambda>x. x" 1 "[]" "(demo_loader 1 1)\<lparr>ld_keysize := 1\<rparr>"]
  show ?thesis by simp
qed

theorem loader_zero_windows_witness:
  "load_run [] [] [] ((sock_new 2 40 9 0)\<lparr>fd := 3\<rparr>, demo_loader 5 0) [] = Inl (Undefined_behaviour ''division by zero'') \<and>
   load_run [] [] [] ((sock_new 2 40 9 0)\<lparr>fd := 3\<rparr>, demo_loader 0 5) [] =
     Inr (False, ((sock_new 2 40 9 0)\<lparr>fd := 3\<rparr>, demo_loader 0 5), [])"
  using loader_zero_windows [OF demo_loader_new [of 5 0], of "[]" "[]" "[]"]
    loader_zero_windows [OF demo_loader_new [of 0 5], of "[]" "[]" "[]"]
  by (simp add: demo_load_def load_default_def)

end
