(* ===== verification/Schedule.thy ===== *)
theory Schedule
  imports Options Accumulator Sock_Buf
begin

section \<open>The schedule of requests (client/client.cc)\<close>

text \<open>
  \<open>setup_deadlines\<close>: the times, in nanoseconds from the start, at which requests are to be sent, for the
  warm-up, the measurement and the cool-down; the timer that waits for the next one; and the file of
  inter-arrival times. The samples of the exponential distribution are a sequence \<open>draw\<close>; doubles are reals, rounded
  by \<open>rnd\<close> after every operation. The loops of warm-up and cool-down have no bound in the code: they are
  partial functions, and \<open>None\<close> means that the loop does not end. A \<open>duration\<close> is a signed 64-bit number;
  arithmetic that leaves its range is undefined, a converted \<open>uint64_t\<close> wraps.
\<close>

subsection \<open>Durations\<close>

definition dur :: "int \<Rightarrow> int res" where
  "dur x = (if - (2 ^ 63) \<le> x \<and> x < 2 ^ 63 then Inr x else Inl (Undefined_behaviour ''signed overflow''))"

text \<open>\<open>duration(uint64_t(ceil(accum)))\<close>\<close>

definition ceil_ns :: "real \<Rightarrow> int res" where
  "ceil_ns x = rbind (to_uint64 (of_int \<lceil>x\<rceil>)) (\<lambda>w. Inr (sint w))"

text \<open>\<open>std::chrono::seconds(n)\<close>, as it is compared with nanoseconds.\<close>

definition seconds :: "64 word \<Rightarrow> int res" where
  "seconds n = dur (sint n * 10 ^ 9)"

subsection \<open>The loops\<close>

text \<open>Sequencing computations that may not end.\<close>

definition obind :: "'a res option \<Rightarrow> ('a \<Rightarrow> 'b res option) \<Rightarrow> 'b res option" where
  "obind m f = (case m of None \<Rightarrow> None | Some (Inl e) \<Rightarrow> Some (Inl e) | Some (Inr a) \<Rightarrow> f a)"

partial_function (option) fill_until :: "(real \<Rightarrow> real) \<Rightarrow> (nat \<Rightarrow> real) \<Rightarrow> int \<Rightarrow> 64 word \<Rightarrow>
    real \<Rightarrow> nat \<Rightarrow> int list \<Rightarrow> (real \<times> nat \<times> int list) res option" where
  "fill_until rnd draw start limit accum pos deadlines =
     (case rbind (ceil_ns accum) (\<lambda>t. rbind (dur (t - start)) (\<lambda>d. rbind (seconds limit) (\<lambda>l. Inr (d < l)))) of
        Inl e \<Rightarrow> Some (Inl e)
      | Inr go \<Rightarrow>
          if go then
            (case ceil_ns (rnd (accum + draw pos)) of
               Inl e \<Rightarrow> Some (Inl e)
             | Inr t \<Rightarrow> fill_until rnd draw start limit (rnd (accum + draw pos)) (Suc pos) (deadlines @ [t]))
          else Some (Inr (accum, pos, deadlines)))"

fun fill_count :: "(real \<Rightarrow> real) \<Rightarrow> (nat \<Rightarrow> real) \<Rightarrow> nat \<Rightarrow> real \<Rightarrow> nat \<Rightarrow> int list \<Rightarrow> (real \<times> nat \<times> int list) res" where
  "fill_count rnd draw 0 accum pos deadlines = Inr (accum, pos, deadlines)"
| "fill_count rnd draw (Suc n) accum pos deadlines =
     rbind (ceil_ns (rnd (accum + draw pos))) (\<lambda>t.
     fill_count rnd draw n (rnd (accum + draw pos)) (Suc pos) (deadlines @ [t]))"

text \<open>The deadlines and the numbers of requests before, in and after the measurement.\<close>

definition setup_deadlines :: "(real \<Rightarrow> real) \<Rightarrow> (nat \<Rightarrow> real) \<Rightarrow> Config \<Rightarrow> (int list \<times> nat \<times> nat \<times> nat) res option" where
  "setup_deadlines rnd draw cfg =
     obind (fill_until rnd draw 0 (warmup_seconds cfg) 0 0 []) (\<lambda>(accum, pos, deadlines).
     let pre = pos in
     obind (Some (fill_count rnd draw (unat (nsamples cfg)) accum pos deadlines)) (\<lambda>(accum, pos, deadlines).
     let meas = unat (nsamples cfg) in
     obind (Some (ceil_ns accum)) (\<lambda>coolstart.
     obind (fill_until rnd draw coolstart (cooldown_seconds cfg) accum pos deadlines) (\<lambda>(accum, pos, deadlines).
     Some (Inr (deadlines, pre, meas, pos - pre - meas))))))"

subsection \<open>The file of inter-arrival times\<close>

fun iatimes :: "int \<Rightarrow> int list \<Rightarrow> int list" where
  "iatimes prev [] = []"
| "iatimes prev (t # ts) = (if prev = 0 then iatimes t ts else (t - prev) # iatimes t ts)"

definition record_iatimes :: "Config \<Rightarrow> int list \<Rightarrow> (string \<times> int list) option" where
  "record_iatimes cfg deadlines =
     (case save_iatimes cfg of None \<Rightarrow> None | Some file \<Rightarrow> Some (file, iatimes 0 deadlines))"

subsection \<open>The timer\<close>

definition trunc :: "real \<Rightarrow> int" where
  "trunc x = (if 0 \<le> x then \<lfloor>x\<rfloor> else \<lceil>x\<rceil>)"

text \<open>The seconds and nanoseconds the timer is set to, both computed with doubles.\<close>

definition timer_value :: "(real \<Rightarrow> real) \<Rightarrow> int \<Rightarrow> int \<times> int" where
  "timer_value rnd deadline =
     (let tv_sec = trunc (rnd (rnd (of_int deadline) / NSEC));
          tv_nsec = trunc (rnd (rnd (of_int deadline) - rnd (rnd (of_int tv_sec) * NSEC)))
      in (tv_sec, tv_nsec))"

definition timer_arm :: "(real \<Rightarrow> real) \<Rightarrow> (int \<times> int \<Rightarrow> int \<times> int) \<Rightarrow> int \<Rightarrow> (int \<times> int) res" where
  "timer_arm rnd settime deadline =
     (let itval = timer_value rnd deadline; (st, errno) = settime itval in
      rbind (system_call st errno ''Client::timer_arm: timerfd_settime()'') (\<lambda>_. Inr itval))"

subsection \<open>What the loops add\<close>

lemma obind_eq: "obind m f = Some (Inr b) \<longleftrightarrow> (\<exists>a. m = Some (Inr a) \<and> f a = Some (Inr b))"
  by (auto simp: obind_def split: option.splits sum.splits)

lemma dur_Inr [simp]: "dur x = Inr y \<longleftrightarrow> y = x \<and> - (2 ^ 63) \<le> x \<and> x < 2 ^ 63"
  by (auto simp: dur_def)

lemma ceil_ns_Inr:
  assumes "ceil_ns x = Inr t"
  shows "0 \<le> \<lceil>x\<rceil> \<and> \<lceil>x\<rceil> < 2 ^ 64 \<and> t = sint (word_of_int \<lceil>x\<rceil> :: 64 word)"
  using assms by (auto simp: ceil_ns_def to_uint64_def Let_def rbind_eq_Inr split: if_splits)

lemma sint_64:
  assumes "0 \<le> i" "i < 2 ^ 64"
  shows "sint (word_of_int i :: 64 word) = (if i < 2 ^ 63 then i else i - 2 ^ 64)"
proof -
  have "sint (word_of_int i :: 64 word) = signed_take_bit 63 i" by (simp add: signed_of_int)
  also have "\<dots> = (i + 2 ^ 63) mod 2 ^ 64 - 2 ^ 63" by (simp add: signed_take_bit_eq_take_bit_shift take_bit_eq_mod)
  also have "\<dots> = (if i < 2 ^ 63 then i else i - 2 ^ 64)"
  proof (cases "i < 2 ^ 63")
    case False
    then have "(i + 2 ^ 63) mod 2 ^ 64 = (i + 2 ^ 63 - 2 ^ 64) mod 2 ^ 64" by (simp only: minus_mod_self2)
    also have "\<dots> = i + 2 ^ 63 - 2 ^ 64" using False assms by (intro mod_pos_pos_trivial) auto
    finally show ?thesis using False by simp
  qed (use assms in \<open>simp add: mod_pos_pos_trivial\<close>)
  finally show ?thesis .
qed

lemma ceil_ns_nonneg: "ceil_ns x = Inr t \<Longrightarrow> 0 \<le> t \<longleftrightarrow> t = \<lceil>x\<rceil>"
  using ceil_ns_Inr [of x t] sint_64 [of "\<lceil>x\<rceil>"] by (auto split: if_splits)

lemma ceil_ns_mono: "ceil_ns x = Inr t \<Longrightarrow> ceil_ns y = Inr t' \<Longrightarrow> x \<le> y \<Longrightarrow> 0 \<le> t \<Longrightarrow> 0 \<le> t' \<Longrightarrow> t \<le> t'"
  using ceil_ns_nonneg [of x t] ceil_ns_nonneg [of y t'] ceiling_mono [of x y] by auto

text \<open>A rounding that rounds once.\<close>

definition rounds_once :: "(real \<Rightarrow> real) \<Rightarrow> bool" where
  "rounds_once rnd \<longleftrightarrow> float_rounding rnd \<and> (\<forall>x. rnd (rnd x) = rnd x)"

lemma rounds_once_step:
  assumes "rounds_once rnd" "rnd accum = accum" "0 \<le> d"
  shows "accum \<le> rnd (accum + d) \<and> rnd (rnd (accum + d)) = rnd (accum + d)"
  using assms monoD [of rnd accum "accum + d"] by (auto simp: rounds_once_def float_rounding_def)

text \<open>What a loop adds to the schedule: \<open>new\<close>, from the time \<open>t0\<close> the schedule has reached.\<close>

definition extends :: "real \<Rightarrow> nat \<Rightarrow> int list \<Rightarrow> int \<Rightarrow> int list \<Rightarrow> real \<times> nat \<times> int list \<Rightarrow> (real \<Rightarrow> real) \<Rightarrow> bool" where
  "extends accum pos ds t0 new res rnd \<longleftrightarrow> (case res of (accum', pos', ds') \<Rightarrow>
     ds' = ds @ new \<and> pos' = pos + length new \<and> rnd accum' = accum' \<and> accum \<le> accum' \<and>
     ceil_ns accum' = Inr (last (t0 # new)) \<and>
     ((\<forall>t \<in> set (t0 # new). 0 \<le> t) \<longrightarrow> sorted (t0 # new)))"

lemma extends_Nil: "rnd accum = accum \<Longrightarrow> ceil_ns accum = Inr t0 \<Longrightarrow> extends accum pos ds t0 [] (accum, pos, ds) rnd"
  by (simp add: extends_def)

lemma extends_Cons:
  assumes "ceil_ns accum = Inr t0" "ceil_ns a1 = Inr t1" "accum \<le> a1"
    and "extends a1 (Suc pos) (ds @ [t1]) t1 new res rnd"
  shows "extends accum pos ds t0 (t1 # new) res rnd"
proof -
  obtain accum' pos' ds' where res: "res = (accum', pos', ds')" by (cases res)
  have "t0 \<le> t1" if "0 \<le> t0" "0 \<le> t1" using ceil_ns_mono [OF assms(1-3) that] .
  with assms(3,4) show ?thesis by (auto simp: extends_def res)
qed

lemma fill_count_extends:
  assumes "rounds_once rnd" "\<forall>i. 0 \<le> draw i"
  shows "fill_count rnd draw n accum pos ds = Inr res \<Longrightarrow> rnd accum = accum \<Longrightarrow> ceil_ns accum = Inr t0 \<Longrightarrow>
    \<exists>new. extends accum pos ds t0 new res rnd \<and> length new = n"
proof (induction n arbitrary: accum pos ds t0)
  case 0
  then show ?case using extends_Nil by auto
next
  case (Suc n)
  let ?a = "rnd (accum + draw pos)"
  from Suc.prems(1) obtain t1 where t1: "ceil_ns ?a = Inr t1" "fill_count rnd draw n ?a (Suc pos) (ds @ [t1]) = Inr res"
    by (auto simp: res_simps)
  have a: "accum \<le> ?a" "rnd ?a = ?a" using rounds_once_step [OF assms(1) Suc.prems(2)] assms(2) by auto
  from Suc.IH [OF t1(2) a(2) t1(1)] obtain new where
    "extends ?a (Suc pos) (ds @ [t1]) t1 new res rnd" "length new = n" by blast
  with extends_Cons [OF Suc.prems(3) t1(1) a(1)] show ?case by (metis length_Cons)
qed

text \<open>The loop bounded by a time, as a relation between its variables and those it ends with.\<close>

inductive fills :: "(real \<Rightarrow> real) \<Rightarrow> (nat \<Rightarrow> real) \<Rightarrow> int \<Rightarrow> 64 word \<Rightarrow> real \<Rightarrow> nat \<Rightarrow> int list \<Rightarrow>
    real \<times> nat \<times> int list \<Rightarrow> bool" for rnd draw start limit where
  fills_done: "ceil_ns accum = Inr t \<Longrightarrow> sint limit * 10 ^ 9 \<le> t - start \<Longrightarrow>
    fills rnd draw start limit accum pos ds (accum, pos, ds)"
| fills_more: "ceil_ns accum = Inr t \<Longrightarrow> t - start < sint limit * 10 ^ 9 \<Longrightarrow>
    ceil_ns (rnd (accum + draw pos)) = Inr t1 \<Longrightarrow>
    fills rnd draw start limit (rnd (accum + draw pos)) (Suc pos) (ds @ [t1]) res \<Longrightarrow>
    fills rnd draw start limit accum pos ds res"

lemma fill_until_fills:
  "fill_until rnd draw start limit accum pos ds = Some r \<Longrightarrow>
    case r of Inl e \<Rightarrow> True | Inr res \<Rightarrow> fills rnd draw start limit accum pos ds res"
proof (erule fill_until.raw_induct [where P = "\<lambda>rnd draw start limit accum pos ds r.
    case r of Inl e \<Rightarrow> True | Inr res \<Rightarrow> fills rnd draw start limit accum pos ds res", rotated])
  fix loop :: "(real \<Rightarrow> real) \<Rightarrow> (nat \<Rightarrow> real) \<Rightarrow> int \<Rightarrow> 64 word \<Rightarrow> real \<Rightarrow> nat \<Rightarrow> int list \<Rightarrow> (real \<times> nat \<times> int list) res option"
  fix rnd draw start limit accum pos ds r
  assume IH: "\<And>rnd draw start limit accum pos ds r. loop rnd draw start limit accum pos ds = Some r \<Longrightarrow>
      case r of Inl e \<Rightarrow> True | Inr res \<Rightarrow> fills rnd draw start limit accum pos ds res"
  assume body: "(case rbind (ceil_ns accum) (\<lambda>t. rbind (dur (t - start)) (\<lambda>d. rbind (seconds limit) (\<lambda>l. Inr (d < l)))) of
        Inl e \<Rightarrow> Some (Inl e)
      | Inr go \<Rightarrow>
          if go then
            (case ceil_ns (rnd (accum + draw pos)) of
               Inl e \<Rightarrow> Some (Inl e)
             | Inr t \<Rightarrow> loop rnd draw start limit (rnd (accum + draw pos)) (Suc pos) (ds @ [t]))
          else Some (Inr (accum, pos, ds))) = Some r"
  show "case r of Inl e \<Rightarrow> True | Inr res \<Rightarrow> fills rnd draw start limit accum pos ds res"
  proof (cases r)
    case (Inr res)
    from body [unfolded Inr] obtain t where t: "ceil_ns accum = Inr t"
      "if t - start < sint limit * 10 ^ 9
       then \<exists>t1. ceil_ns (rnd (accum + draw pos)) = Inr t1 \<and>
         loop rnd draw start limit (rnd (accum + draw pos)) (Suc pos) (ds @ [t1]) = Some (Inr res)
       else res = (accum, pos, ds)"
      by (auto simp: seconds_def res_simps split: sum.splits if_splits)
    then show ?thesis using IH [of rnd draw start limit "rnd (accum + draw pos)" "Suc pos" _ "Inr res"]
      by (auto simp: Inr intro: fills_done [OF t(1)] fills_more [OF t(1)] split: if_splits)
  qed simp
qed

lemma fills_extends:
  assumes "rounds_once rnd" "\<forall>i. 0 \<le> draw i"
  shows "fills rnd draw start limit accum pos ds res \<Longrightarrow> rnd accum = accum \<Longrightarrow> ceil_ns accum = Inr t0 \<Longrightarrow>
    \<exists>new. extends accum pos ds t0 new res rnd \<and>
      (\<forall>t \<in> set (butlast (t0 # new)). t - start < sint limit * 10 ^ 9) \<and>
      sint limit * 10 ^ 9 \<le> last (t0 # new) - start"
proof (induction arbitrary: t0 rule: fills.induct)
  case (fills_done accum t pos ds)
  then show ?case by (intro exI [of _ "[]"]) (auto intro: extends_Nil)
next
  case (fills_more accum t pos t1 ds res)
  have a: "accum \<le> rnd (accum + draw pos)" "rnd (rnd (accum + draw pos)) = rnd (accum + draw pos)"
    using rounds_once_step [OF assms(1) fills_more.prems(1)] assms(2) by auto
  from fills_more.IH [OF a(2) fills_more.hyps(3)] obtain new where
    new: "extends (rnd (accum + draw pos)) (Suc pos) (ds @ [t1]) t1 new res rnd"
      "\<forall>t \<in> set (butlast (t1 # new)). t - start < sint limit * 10 ^ 9" "sint limit * 10 ^ 9 \<le> last (t1 # new) - start"
    by blast
  have "t = t0" using fills_more.hyps(1) fills_more.prems(2) by simp
  with new extends_Cons [OF fills_more.prems(2) fills_more.hyps(3) a(1) new(1)] fills_more.hyps(2) show ?case
    by (intro exI [of _ "t1 # new"]) auto
qed

subsection \<open>Whether the loops end\<close>

text \<open>Again and again a sample moves the schedule on by at least \<open>\<delta>\<close> nanoseconds, from any time below \<open>2 ^ 64\<close> that can be
  represented. (A time of \<open>2 ^ 64\<close> or more does not fit the duration, so that the loops end there.)\<close>

definition moves_on :: "(real \<Rightarrow> real) \<Rightarrow> (nat \<Rightarrow> real) \<Rightarrow> real \<Rightarrow> bool" where
  "moves_on rnd draw \<delta> \<longleftrightarrow> rounds_once rnd \<and> (\<forall>i. 0 \<le> draw i) \<and> 0 < \<delta> \<and>
     (\<forall>n. \<exists>i \<ge> n. \<forall>a. rnd a = a \<and> 0 \<le> a \<and> a < 2 ^ 64 \<longrightarrow> a + \<delta> \<le> rnd (a + draw i))"

lemma moves_on_step:
  assumes "moves_on rnd draw \<delta>" "rnd a = a" "0 \<le> a"
  shows "a \<le> rnd (a + draw i)" "rnd (rnd (a + draw i)) = rnd (a + draw i)" "0 \<le> rnd (a + draw i)"
  using assms rounds_once_step [of rnd a "draw i"] by (auto simp: moves_on_def)

lemma fill_until_past: "2 ^ 64 \<le> accum \<Longrightarrow> \<exists>r. fill_until rnd draw start limit accum pos ds = Some r"
proof -
  assume "2 ^ 64 \<le> accum"
  then have "2 ^ 64 \<le> \<lceil>accum\<rceil>" by (simp add: le_ceiling_iff)
  then show ?thesis by (subst fill_until.simps) (simp add: ceil_ns_def to_uint64_def)
qed

lemma fill_until_ends:
  assumes "moves_on rnd draw \<delta>"
  shows "2 ^ 64 \<le> accum + real n * \<delta> \<Longrightarrow> rnd accum = accum \<Longrightarrow> 0 \<le> accum \<Longrightarrow>
    \<exists>r. fill_until rnd draw start limit accum pos ds = Some r"
proof (induction n arbitrary: accum pos ds)
  case 0
  then show ?case by (intro fill_until_past) simp
next
  case (Suc n)
  obtain i where i: "pos \<le> i" "\<And>a. rnd a = a \<Longrightarrow> 0 \<le> a \<Longrightarrow> a < 2 ^ 64 \<Longrightarrow> a + \<delta> \<le> rnd (a + draw i)"
    using assms unfolding moves_on_def by blast
  have "\<exists>r. fill_until rnd draw start limit accum pos ds = Some r"
    if "2 ^ 64 \<le> accum + real (Suc n) * \<delta>" "rnd accum = accum" "0 \<le> accum" "pos + m = i" for m accum pos ds
    using that
  proof (induction m arbitrary: accum pos ds)
    case (0 accum pos ds)
    show ?case
    proof (cases "2 ^ 64 \<le> accum")
      case False
      then have "accum + \<delta> \<le> rnd (accum + draw pos)" using i(2) 0 by simp
      moreover have "2 ^ 64 \<le> accum + \<delta> + real n * \<delta>" using 0(1) by (simp add: algebra_simps)
      ultimately have "2 ^ 64 \<le> rnd (accum + draw pos) + real n * \<delta>" by linarith
      from Suc.IH [OF this moves_on_step(2,3) [OF assms 0(2,3)]] show ?thesis
        by (subst fill_until.simps) (auto split: sum.splits)
    qed (rule fill_until_past)
  next
    case (Suc m accum pos ds)
    note step = moves_on_step [OF assms Suc.prems(2,3), of pos]
    have "2 ^ 64 \<le> rnd (accum + draw pos) + real (Suc n) * \<delta>" using Suc.prems(1) step(1) by linarith
    from Suc.IH [OF this step(2,3)] Suc.prems(4) show ?case
      by (subst fill_until.simps) (auto split: sum.splits)
  qed
  from this [OF Suc.prems, of pos "i - pos" ds] i(1) show ?case by simp
qed

lemma fill_until_total:
  assumes "moves_on rnd draw \<delta>" "rnd accum = accum" "0 \<le> accum"
  shows "\<exists>r. fill_until rnd draw start limit accum pos ds = Some r"
proof -
  have "0 < \<delta>" using assms(1) by (simp add: moves_on_def)
  then obtain n where "2 ^ 64 < real n * \<delta>" using reals_Archimedean3 by blast
  then have "2 ^ 64 \<le> accum + real n * \<delta>" using assms(3) by linarith
  from fill_until_ends [OF assms(1) this assms(2,3)] show ?thesis .
qed

lemma fill_until_stuck:
  assumes "fill_until rnd draw start limit accum pos ds = Some r"
  shows "\<not> ((\<forall>i. draw i = 0) \<and> rnd 0 = 0 \<and> 0 < sint limit \<and> sint limit * 10 ^ 9 < 2 ^ 63 \<and> start = 0 \<and> accum = 0)"
  using assms
proof (rule fill_until.raw_induct [where P = "\<lambda>rnd draw start limit accum pos ds r.
    \<not> ((\<forall>i. draw i = 0) \<and> rnd 0 = 0 \<and> 0 < sint limit \<and> sint limit * 10 ^ 9 < 2 ^ 63 \<and> start = 0 \<and> accum = 0)", rotated])
  fix loop :: "(real \<Rightarrow> real) \<Rightarrow> (nat \<Rightarrow> real) \<Rightarrow> int \<Rightarrow> 64 word \<Rightarrow> real \<Rightarrow> nat \<Rightarrow> int list \<Rightarrow> (real \<times> nat \<times> int list) res option"
  fix rnd draw start limit accum pos ds r
  assume IH: "\<And>rnd draw start limit accum pos ds r. loop rnd draw start limit accum pos ds = Some r \<Longrightarrow>
     \<not> ((\<forall>i. draw i = 0) \<and> rnd 0 = 0 \<and> 0 < sint limit \<and> sint limit * 10 ^ 9 < 2 ^ 63 \<and> start = 0 \<and> accum = 0)"
  assume body: "(case rbind (ceil_ns accum) (\<lambda>t. rbind (dur (t - start)) (\<lambda>d. rbind (seconds limit) (\<lambda>l. Inr (d < l)))) of
        Inl e \<Rightarrow> Some (Inl e)
      | Inr go \<Rightarrow>
          if go then
            (case ceil_ns (rnd (accum + draw pos)) of
               Inl e \<Rightarrow> Some (Inl e)
             | Inr t \<Rightarrow> loop rnd draw start limit (rnd (accum + draw pos)) (Suc pos) (ds @ [t]))
          else Some (Inr (accum, pos, ds))) = Some r"
  have c: "ceil_ns 0 = Inr 0" by (simp add: ceil_ns_def to_uint64_def)
  show "\<not> ((\<forall>i. draw i = 0) \<and> rnd 0 = 0 \<and> 0 < sint limit \<and> sint limit * 10 ^ 9 < 2 ^ 63 \<and> start = 0 \<and> accum = 0)"
  proof
    assume a: "(\<forall>i. draw i = 0) \<and> rnd 0 = 0 \<and> 0 < sint limit \<and> sint limit * 10 ^ 9 < 2 ^ 63 \<and> start = 0 \<and> accum = 0"
    then have "loop rnd draw start limit (rnd (accum + draw pos)) (Suc pos) (ds @ [0]) = Some r"
      using body c by (simp add: seconds_def dur_def)
    from IH [OF this] a show False by simp
  qed
qed

subsection \<open>The timer's arithmetic\<close>

lemma trunc_of_int [simp]: "trunc (of_int i) = i"
  by (simp add: trunc_def)

lemma timer_value_exact:
  assumes "0 \<le> d"
  shows "timer_value (\<lambda>x. x) d = (d div 10 ^ 9, d mod 10 ^ 9)"
proof -
  have "\<lfloor>real_of_int d / 10 ^ 9\<rfloor> = d div 10 ^ 9" using floor_divide_of_int_eq [of d "10 ^ 9"] by simp
  with assms have t: "trunc (real_of_int d / NSEC) = d div 10 ^ 9" by (simp add: trunc_def NSEC_def)
  have "real_of_int (d mod 10 ^ 9) = real_of_int (d - d div 10 ^ 9 * 10 ^ 9)"
    by (simp only: minus_div_mult_eq_mod)
  then have m: "real_of_int d - real_of_int (d div 10 ^ 9) * NSEC = real_of_int (d mod 10 ^ 9)"
    by (simp add: NSEC_def)
  show ?thesis by (simp only: timer_value_def Let_def t m trunc_of_int)
qed

subsection \<open>Inter-arrival times\<close>

lemma iatimes_pos:
  "0 < prev \<Longrightarrow> \<forall>t \<in> set ts. 0 < t \<Longrightarrow> length (iatimes prev ts) = length ts \<and>
    (\<forall>i < length ts. ts ! i = prev + sum_list (take (Suc i) (iatimes prev ts)))"
proof (induction ts arbitrary: prev)
  case (Cons t ts)
  have "length (iatimes t ts) = length ts \<and> (\<forall>i < length ts. ts ! i = t + sum_list (take (Suc i) (iatimes t ts)))"
    using Cons.IH [of t] Cons.prems by simp
  then show ?case using Cons.prems(1) by (auto simp: nth_Cons split: nat.splits)
qed simp

subsection \<open>The whole schedule\<close>

lemma sorted_chain: "sorted (x # ys) \<Longrightarrow> sorted (last (x # ys) # zs) \<Longrightarrow> sorted (x # ys @ (zs :: int list))"
proof (induction ys arbitrary: x)
  case (Cons y ys)
  have "sorted (y # ys @ zs)" by (rule Cons.IH) (use Cons.prems in auto)
  moreover have "x \<le> y" using Cons.prems(1) by simp
  ultimately show ?case by (auto intro: order_trans)
qed simp

lemma setup_deadlines_phases:
  assumes "setup_deadlines rnd draw cfg = Some (Inr (ds, pre, meas, post))"
    and "rounds_once rnd" "\<forall>i. 0 \<le> draw i"
  obtains warm mid cool where
    "ds = warm @ mid @ cool" "pre = length warm" "length mid = meas" "post = length cool"
    "meas = unat (nsamples cfg)"
    "(\<forall>t \<in> set (0 # ds). 0 \<le> t) \<longrightarrow> sorted (0 # ds)"
    "\<forall>t \<in> set (butlast (0 # warm)). t < sint (warmup_seconds cfg) * 10 ^ 9"
    "sint (warmup_seconds cfg) * 10 ^ 9 \<le> last (0 # warm)"
    "\<forall>t \<in> set (butlast (last (0 # warm @ mid) # cool)).
       t - last (0 # warm @ mid) < sint (cooldown_seconds cfg) * 10 ^ 9"
    "sint (cooldown_seconds cfg) * 10 ^ 9 \<le> last (last (0 # warm @ mid) # cool) - last (0 # warm @ mid)"
proof -
  from assms(1) obtain a1 p1 ds1 a2 p2 ds2 start a3 p3 where run:
    "fill_until rnd draw 0 (warmup_seconds cfg) 0 0 [] = Some (Inr (a1, p1, ds1))"
    "fill_count rnd draw (unat (nsamples cfg)) a1 p1 ds1 = Inr (a2, p2, ds2)"
    "ceil_ns a2 = Inr start"
    "fill_until rnd draw start (cooldown_seconds cfg) a2 p2 ds2 = Some (Inr (a3, p3, ds))"
    "pre = p1" "meas = unat (nsamples cfg)" "post = p3 - p1 - unat (nsamples cfg)"
    by (auto simp: setup_deadlines_def obind_eq Let_def)
  have r0: "rnd 0 = 0" using assms(2) float_rounding_nat [of rnd 0] by (simp add: rounds_once_def)
  have c0: "ceil_ns 0 = Inr 0" by (simp add: ceil_ns_def to_uint64_def)
  have "fills rnd draw 0 (warmup_seconds cfg) 0 0 [] (a1, p1, ds1)" using fill_until_fills [OF run(1)] by simp
  from fills_extends [OF assms(2,3) this r0 c0] obtain warm where
    warm: "extends 0 0 [] 0 warm (a1, p1, ds1) rnd"
      "\<forall>t \<in> set (butlast (0 # warm)). t < sint (warmup_seconds cfg) * 10 ^ 9"
      "sint (warmup_seconds cfg) * 10 ^ 9 \<le> last (0 # warm)" by auto
  then have w: "ds1 = warm" "p1 = length warm" "rnd a1 = a1" "ceil_ns a1 = Inr (last (0 # warm))"
    by (auto simp: extends_def)
  from fill_count_extends [OF assms(2,3) run(2) w(3,4)] obtain mid where
    mid: "extends a1 p1 ds1 (last (0 # warm)) mid (a2, p2, ds2) rnd" "length mid = unat (nsamples cfg)" by blast
  then have m: "ds2 = warm @ mid" "p2 = length warm + length mid" "rnd a2 = a2" "ceil_ns a2 = Inr (last (0 # warm @ mid))"
    using w by (auto simp: extends_def)
  then have start: "start = last (0 # warm @ mid)" using run(3) by simp
  have "fills rnd draw start (cooldown_seconds cfg) a2 p2 ds2 (a3, p3, ds)" using fill_until_fills [OF run(4)] by simp
  from fills_extends [OF assms(2,3) this m(3,4)] obtain cool where
    cool: "extends a2 p2 ds2 (last (0 # warm @ mid)) cool (a3, p3, ds) rnd"
      "\<forall>t \<in> set (butlast (last (0 # warm @ mid) # cool)). t - start < sint (cooldown_seconds cfg) * 10 ^ 9"
      "sint (cooldown_seconds cfg) * 10 ^ 9 \<le> last (last (0 # warm @ mid) # cool) - start" by blast
  then have c: "ds = warm @ mid @ cool" "p3 = length warm + length mid + length cool" using m by (auto simp: extends_def)
  have "sorted (0 # ds)" if "\<forall>t \<in> set (0 # ds). 0 \<le> t"
  proof -
    have nn: "0 \<le> last (0 # warm)" "0 \<le> last (0 # warm @ mid)"
      using that last_in_set [of "0 # warm"] last_in_set [of "0 # warm @ mid"] c(1) by auto
    have "sorted (0 # warm)" "sorted (last (0 # warm) # mid)" "sorted (last (0 # warm @ mid) # cool)"
      using warm(1) mid(1) cool(1) that c(1) nn unfolding extends_def by auto
    from sorted_chain [OF sorted_chain [OF this(1,2)], of cool] this(3) c(1) show ?thesis by simp
  qed
  with warm(2,3) cool(2,3) c w m run(5-7) mid(2) show ?thesis
    by (intro that [of warm mid cool]) (auto simp: start)
qed


lemma fills_fixed:
  assumes "moves_on rnd draw \<delta>"
  shows "fills rnd draw start limit accum pos ds res \<Longrightarrow> rnd accum = accum \<Longrightarrow> 0 \<le> accum \<Longrightarrow>
    rnd (fst res) = fst res \<and> 0 \<le> fst res"
proof (induction rule: fills.induct)
  case (fills_more accum t pos t1 ds res)
  then show ?case using moves_on_step(2,3) [OF assms fills_more.prems] by blast
qed simp

lemma fill_count_fixed:
  assumes "moves_on rnd draw \<delta>"
  shows "fill_count rnd draw n accum pos ds = Inr res \<Longrightarrow> rnd accum = accum \<Longrightarrow> 0 \<le> accum \<Longrightarrow>
    rnd (fst res) = fst res \<and> 0 \<le> fst res"
proof (induction n arbitrary: accum pos ds)
  case (Suc n)
  then show ?case using moves_on_step(2,3) [OF assms Suc.prems(2,3), of pos] by (fastforce simp: res_simps)
qed auto

lemma setup_deadlines_ends:
  assumes "moves_on rnd draw \<delta>"
  shows "\<exists>r. setup_deadlines rnd draw cfg = Some r"
proof -
  note total = fill_until_total [OF assms]
  have r0: "rnd 0 = 0" using assms float_rounding_nat [of rnd 0] by (simp add: moves_on_def rounds_once_def)
  obtain r1 where 1: "fill_until rnd draw 0 (warmup_seconds cfg) 0 0 [] = Some r1" using total [OF r0] by blast
  show ?thesis
  proof (cases r1)
    case (Inl e)
    with 1 show ?thesis by (simp add: setup_deadlines_def obind_def)
  next
    case (Inr x)
    obtain a1 p1 ds1 where x: "r1 = Inr (a1, p1, ds1)" using Inr by (cases x) auto
    have a1: "rnd a1 = a1 \<and> 0 \<le> a1"
      using fills_fixed [OF assms, of 0 "warmup_seconds cfg" 0 0 "[]" "(a1, p1, ds1)"] fill_until_fills [OF 1] x r0 by simp
    show ?thesis
    proof (cases "fill_count rnd draw (unat (nsamples cfg)) a1 p1 ds1")
      case (Inl e)
      with 1 x show ?thesis by (simp add: setup_deadlines_def obind_def)
    next
      case (Inr y)
      obtain a2 p2 ds2 where y: "y = (a2, p2, ds2)" by (cases y)
      have "rnd a2 = a2 \<and> 0 \<le> a2" using fill_count_fixed [OF assms Inr] a1 y by simp
      then have e: "\<exists>r. fill_until rnd draw start (cooldown_seconds cfg) a2 p2 ds2 = Some r" for start using total by blast
      show ?thesis
      proof (cases "ceil_ns a2")
        case Inl2: (Inl e)
        with 1 x Inr y show ?thesis by (simp add: setup_deadlines_def obind_def Let_def)
      next
        case Inr2: (Inr start)
        obtain r3 where "fill_until rnd draw start (cooldown_seconds cfg) a2 p2 ds2 = Some r3" using e by blast
        with 1 x Inr y Inr2 show ?thesis
          by (cases r3) (simp_all add: setup_deadlines_def obind_def Let_def split: prod.splits)
      qed
    qed
  qed
qed

lemma timer_value_rounded:
  assumes "float_rounding rnd" "0 \<le> d" "d < 2 ^ 52" "rnd (of_int d / NSEC) < of_int (d div 10 ^ 9) + 1"
  shows "timer_value rnd d = (d div 10 ^ 9, d mod 10 ^ 9)"
proof -
  have nat: "rnd (of_int i) = of_int i" if "0 \<le> i" "i < 2 ^ 52" for i
  proof -
    have "real (nat i) = of_int i" "nat i \<le> 2 ^ 53" using that by (simp_all add: nat_le_iff)
    then show ?thesis using float_rounding_nat [OF assms(1), of "nat i"] by simp
  qed
  let ?s = "d div 10 ^ 9"
  have s: "0 \<le> ?s" "?s * 10 ^ 9 \<le> d" "?s \<le> d"
    using assms(2) pos_imp_zdiv_nonneg_iff [of "10 ^ 9" d] div_mult_mod_eq [of d "10 ^ 9"] pos_mod_sign [of "10 ^ 9" d] by simp_all
  have n: "0 \<le> d mod 10 ^ 9" "d mod 10 ^ 9 \<le> d" using assms(2) by (simp_all add: zmod_le_nonneg_dividend)
  have "of_int ?s \<le> (of_int d / NSEC :: real)"
    using s(2) by (simp add: NSEC_def field_simps flip: of_int_le_iff)
  then have "rnd (of_int ?s) \<le> rnd (of_int d / NSEC)" using assms(1) by (simp add: float_rounding_def monoD)
  then have "of_int ?s \<le> rnd (of_int d / NSEC)" using nat [of ?s] s assms(3) by simp
  then have f: "\<lfloor>rnd (of_int d / NSEC)\<rfloor> = ?s" "0 \<le> rnd (of_int d / NSEC)"
    using assms(4) s(1) by (simp_all add: floor_unique)
  have t: "trunc (rnd (rnd (of_int d) / NSEC)) = ?s" using f nat assms(2,3) by (simp add: trunc_def)
  have p: "rnd (rnd (of_int ?s) * NSEC) = of_int (?s * 10 ^ 9)"
    using nat [of ?s] nat [of "?s * 10 ^ 9"] s assms(3) by (simp add: NSEC_def)
  have "rnd (of_int d) - rnd (rnd (of_int ?s) * NSEC) = of_int (d - ?s * 10 ^ 9)"
    using nat assms(2,3) p by simp
  also have "d - ?s * 10 ^ 9 = d mod 10 ^ 9" by (simp only: minus_div_mult_eq_mod)
  finally have "rnd (rnd (of_int d) - rnd (rnd (of_int ?s) * NSEC)) = of_int (d mod 10 ^ 9)"
    using nat [of "d mod 10 ^ 9"] n assms(3) by simp
  then show ?thesis by (simp only: timer_value_def Let_def t trunc_of_int)
qed

subsection \<open>Properties\<close>

text \<open>C16: The schedule has three phases. Deadlines never decrease; the requests of the warm-up run up to the
  first deadline that is not before the end of the warm-up, then come exactly as many as samples were asked for, then those of the
  cool-down, up to the first deadline that is as far behind the last measured one as the cool-down is long (as long as no
  deadline leaves the range of a signed number of nanoseconds).\<close>

theorem schedule_phases:
  assumes "setup_deadlines rnd draw cfg = Some (Inr (ds, pre, meas, post))"
    and "rounds_once rnd" "\<forall>i. 0 \<le> draw i" "\<forall>t \<in> set ds. 0 \<le> t"
  shows "sorted ds \<and> length ds = pre + meas + post \<and> meas = unat (nsamples cfg) \<and>
    (let warmup = sint (warmup_seconds cfg) * 10 ^ 9; cooldown = sint (cooldown_seconds cfg) * 10 ^ 9;
         start = last (0 # take (pre + meas) ds)
     in (\<forall>t \<in> set (butlast (0 # take pre ds)). t < warmup) \<and> warmup \<le> last (0 # take pre ds) \<and>
        (\<forall>t \<in> set (butlast (start # drop (pre + meas) ds)). t - start < cooldown) \<and>
        cooldown \<le> last (start # drop (pre + meas) ds) - start)"
proof -
  obtain warm mid cool where s: "ds = warm @ mid @ cool" "pre = length warm" "length mid = meas" "post = length cool"
    "meas = unat (nsamples cfg)" "(\<forall>t \<in> set (0 # ds). 0 \<le> t) \<longrightarrow> sorted (0 # ds)"
    "\<forall>t \<in> set (butlast (0 # warm)). t < sint (warmup_seconds cfg) * 10 ^ 9"
    "sint (warmup_seconds cfg) * 10 ^ 9 \<le> last (0 # warm)"
    "\<forall>t \<in> set (butlast (last (0 # warm @ mid) # cool)).
       t - last (0 # warm @ mid) < sint (cooldown_seconds cfg) * 10 ^ 9"
    "sint (cooldown_seconds cfg) * 10 ^ 9 \<le> last (last (0 # warm @ mid) # cool) - last (0 # warm @ mid)"
    using setup_deadlines_phases [OF assms(1-3)] by metis
  have "take pre ds = warm" "take (pre + meas) ds = warm @ mid" "drop (pre + meas) ds = cool" using s(1-3) by auto
  moreover have "sorted ds" using s(6) assms(4) by simp
  ultimately show ?thesis using s by (simp only: Let_def length_append add.assoc simp_thms)
qed

text \<open>C29: Computing the schedule ends if samples come again and again that move it on by some least time from every
  representable time below \<open>2 ^ 64\<close> (beyond which the time no longer fits its type, and the loop ends too). Nothing in
  the code makes sure of that: with inter-arrival times that are all zero the warm-up never ends.\<close>

theorem schedule_termination:
  "(rounds_once rnd \<and> (\<forall>i. 0 \<le> draw i) \<and> 0 < \<delta> \<and>
      (\<forall>n. \<exists>i \<ge> n. \<forall>a. rnd a = a \<and> 0 \<le> a \<and> a < 2 ^ 64 \<longrightarrow> a + \<delta> \<le> rnd (a + draw i)) \<longrightarrow>
      (\<exists>r. setup_deadlines rnd draw cfg = Some r)) \<and>
   ((\<forall>i. draw i = 0) \<and> rnd 0 = 0 \<and> 0 < sint (warmup_seconds cfg) \<and> sint (warmup_seconds cfg) * 10 ^ 9 < 2 ^ 63 \<longrightarrow>
      setup_deadlines rnd draw cfg = None)"
proof (intro conjI impI)
  show "\<exists>r. setup_deadlines rnd draw cfg = Some r"
    if "rounds_once rnd \<and> (\<forall>i. 0 \<le> draw i) \<and> 0 < \<delta> \<and>
      (\<forall>n. \<exists>i \<ge> n. \<forall>a. rnd a = a \<and> 0 \<le> a \<and> a < 2 ^ 64 \<longrightarrow> a + \<delta> \<le> rnd (a + draw i))"
  proof (rule setup_deadlines_ends)
    show "moves_on rnd draw \<delta>" unfolding moves_on_def by (rule that)
  qed
  assume a: "(\<forall>i. draw i = 0) \<and> rnd 0 = 0 \<and> 0 < sint (warmup_seconds cfg) \<and> sint (warmup_seconds cfg) * 10 ^ 9 < 2 ^ 63"
  have "fill_until rnd draw 0 (warmup_seconds cfg) 0 0 [] = None"
    using fill_until_stuck [of rnd draw 0 "warmup_seconds cfg" 0 0 "[]"] a
    by (cases "fill_until rnd draw 0 (warmup_seconds cfg) 0 0 []") auto
  then show "setup_deadlines rnd draw cfg = None" by (simp add: setup_deadlines_def obind_def)
qed


lemma rounds_once_id: "rounds_once (\<lambda>x. x)"
  by (simp add: rounds_once_def float_rounding_def mono_def)

definition demo_schedule :: Config where
  "demo_schedule = config_default\<lparr>nsamples := 2, warmup_seconds := 1, cooldown_seconds := 1\<rparr>"

lemma fill_count_2: "fill_count rnd draw 2 accum pos ds =
    rbind (ceil_ns (rnd (accum + draw pos))) (\<lambda>t.
    rbind (ceil_ns (rnd (rnd (accum + draw pos) + draw (Suc pos)))) (\<lambda>t'.
    Inr (rnd (rnd (accum + draw pos) + draw (Suc pos)), Suc (Suc pos), (ds @ [t]) @ [t'])))"
  by (simp add: numeral_2_eq_2)

lemma demo_deadlines: "setup_deadlines (\<lambda>x. x) (\<lambda>i. 500000000) demo_schedule =
    Some (Inr ([500000000, 1000000000, 1500000000, 2000000000, 2500000000, 3000000000], 2, 2, 2))"
  by (simp add: setup_deadlines_def obind_def fill_until.simps ceil_ns_def to_uint64_def seconds_def dur_def
      demo_schedule_def config_default_def fill_count_2)

theorem schedule_phases_witness:
  "setup_deadlines (\<lambda>x. x) (\<lambda>i. 500000000) demo_schedule =
     Some (Inr ([500000000, 1000000000, 1500000000, 2000000000, 2500000000, 3000000000], 2, 2, 2)) \<and>
   sorted [500000000, 1000000000, 1500000000, 2000000000, 2500000000, 3000000000 :: int]"
  using demo_deadlines schedule_phases [OF demo_deadlines rounds_once_id] by simp

text \<open>A rounding of finite precision: above \<open>2 ^ 53\<close> the numbers are \<open>2 ^ 11\<close> apart, and \<open>2 ^ 70\<close> is the largest.\<close>

definition coarse :: "real \<Rightarrow> real" where
  "coarse x = (if x < 2 ^ 53 then x else if x < 2 ^ 70 then 2048 * of_int \<lfloor>x / 2048\<rfloor> else 2 ^ 70)"

lemma coarse_grid:
  assumes "2 ^ 53 \<le> x"
  shows "2 ^ 53 \<le> 2048 * (of_int \<lfloor>x / 2048\<rfloor> :: real)" "2048 * (of_int \<lfloor>x / 2048\<rfloor> :: real) \<le> x"
    "x < 2048 * of_int \<lfloor>x / 2048\<rfloor> + 2048"
proof -
  have "(2 :: int) ^ 42 \<le> \<lfloor>x / 2048\<rfloor>" using assms by (simp add: le_floor_iff)
  then have "(2 :: real) ^ 42 \<le> of_int \<lfloor>x / 2048\<rfloor>" by (metis of_int_le_iff of_int_numeral of_int_power)
  then show "2 ^ 53 \<le> 2048 * (of_int \<lfloor>x / 2048\<rfloor> :: real)" by simp
  show "2048 * (of_int \<lfloor>x / 2048\<rfloor> :: real) \<le> x" using of_int_floor_le [of "x / 2048"] by simp
  show "x < 2048 * of_int \<lfloor>x / 2048\<rfloor> + 2048" using floor_correct [of "x / 2048"] by linarith
qed

lemma coarse_rounds: "rounds_once coarse"
proof -
  have "coarse x \<le> coarse y" if "x \<le> y" for x y
  proof -
    consider "y < 2 ^ 53" | "x < 2 ^ 53" "2 ^ 53 \<le> y" "y < 2 ^ 70" | "2 ^ 53 \<le> x" "y < 2 ^ 70" | "2 ^ 70 \<le> y"
      by linarith
    then show ?thesis
    proof cases
      case 2
      with coarse_grid(1) [of y] have "x \<le> 2048 * of_int \<lfloor>y / 2048\<rfloor>" by linarith
      with 2 show ?thesis by (simp add: coarse_def)
    next
      case 3
      have "(of_int \<lfloor>x / 2048\<rfloor> :: real) \<le> of_int \<lfloor>y / 2048\<rfloor>" using that by (intro of_int_le_iff [THEN iffD2] floor_mono) simp
      with 3 that show ?thesis by (simp add: coarse_def)
    next
      case 4
      have "2048 * of_int \<lfloor>x / 2048\<rfloor> \<le> (2 :: real) ^ 70" if "2 ^ 53 \<le> x" "x < 2 ^ 70"
        using coarse_grid(2) [OF that(1)] that(2) by linarith
      with 4 show ?thesis by (simp add: coarse_def)
    qed (use that in \<open>simp add: coarse_def\<close>)
  qed
  then have "mono coarse" by (rule monoI)
  moreover have "coarse (real n / 2 ^ k) = real n / 2 ^ k" if "n \<le> 2 ^ 53" for n k
  proof -
    have "real n / 2 ^ k \<le> real n / 1" by (intro divide_left_mono) simp_all
    moreover have "real n \<le> 2 ^ 53" using that by (metis of_nat_le_iff of_nat_numeral of_nat_power)
    ultimately have "real n / 2 ^ k < 2 ^ 53 \<or> real n / 2 ^ k = 2 ^ 53" by linarith
    moreover have "coarse (2 ^ 53) = 2 ^ 53" by (simp add: coarse_def)
    ultimately show ?thesis by (elim disjE) (simp add: coarse_def, simp only:)
  qed
  moreover have "coarse (coarse x) = coarse x" for x
    using coarse_grid [of x] by (auto simp: coarse_def)
  ultimately show ?thesis by (simp add: rounds_once_def float_rounding_def)
qed

lemma coarse_step: "0 \<le> a \<Longrightarrow> a < 2 ^ 64 \<Longrightarrow> a + 1 \<le> coarse (a + 500000000)"
  using coarse_grid [of "a + 500000000"] by (auto simp: coarse_def)

theorem schedule_termination_witness:
  "(\<exists>r. setup_deadlines coarse (\<lambda>i. 500000000) demo_schedule = Some r) \<and>
   setup_deadlines (\<lambda>x. x) (\<lambda>i. 0) demo_schedule = None"
proof -
  have "\<exists>r. setup_deadlines coarse (\<lambda>i. 500000000) demo_schedule = Some r"
    using schedule_termination [of coarse "\<lambda>i. 500000000" 1 demo_schedule] coarse_rounds coarse_step by auto
  moreover have "setup_deadlines (\<lambda>x. x) (\<lambda>i. 0) demo_schedule = None"
    using schedule_termination [of "\<lambda>x. x" "\<lambda>i. 0" 1 demo_schedule] by (simp add: demo_schedule_def)
  ultimately show ?thesis ..
qed


end
