(* ===== verification/Gen_Exit.thy ===== *)
theory Gen_Exit
  imports Gen_Base
begin

section \<open>How a call of a generator can end the program\<close>

text \<open>
  \<open>exit\<close> is called in one place only, the client's callback for a response. To show that the
  program exits only there, the exceptions of every operation of buffers and sockets are followed: they are no exits
  (\<open>no_exit\<close>), except for those that a callback of the owner throws. \<open>E u e\<close> says that the callbacks can throw \<open>e\<close>
  from the owner's state \<open>u\<close> on.
\<close>

definition no_exit :: "exn \<Rightarrow> bool" where
  "no_exit e \<longleftrightarrow> (\<forall>n out. e \<noteq> Exit n out)"

lemma no_exit_simps [simp]:
  "no_exit (Invalid_argument m)" "no_exit (System_error n m)" "no_exit (Runtime_error m)" "no_exit Bad_function_call"
  "no_exit (Undefined_behaviour m)" "\<not> no_exit (Exit n out)"
  by (simp_all add: no_exit_def)

named_theorems exits

subsection \<open>Buffers\<close>

lemma queue_prep_exits [exits]: "queue_prep b n = Inl e \<Longrightarrow> no_exit e"
  by (auto simp: queue_prep_def Let_def split: if_splits)

lemma queue_commit_exits [exits]: "queue_commit b n = Inl e \<Longrightarrow> no_exit e"
  by (auto simp: queue_commit_def Let_def split: if_splits)

lemma queue_exits [exits]: "queue b n = Inl e \<Longrightarrow> no_exit e"
  by (auto simp: queue_def Let_def rbind_eq_Inl dest: exits split: if_splits prod.splits)

lemma queue_emplace_exits [exits]: "queue_emplace b x = Inl e \<Longrightarrow> no_exit e"
  by (auto simp: queue_emplace_def rbind_eq_Inl dest: exits split: prod.splits)

lemma peek_exits [exits]: "peek b n = Inl e \<Longrightarrow> no_exit e"
  by (auto simp: peek_def Let_def split: if_splits)

lemma drop_items_exits [exits]: "drop_items b n = Inl e \<Longrightarrow> no_exit e"
  by (auto simp: drop_items_def Let_def split: if_splits)

lemma dequeue_one_exits [exits]: "dequeue_one b = Inl e \<Longrightarrow> no_exit e"
  by (auto simp: dequeue_one_def dequeue_def Let_def rbind_eq_Inl dest: exits split: if_splits prod.splits)

subsection \<open>Writing\<close>

lemma write_prepare_exits [exits]: "write_prepare s n = Inl e \<Longrightarrow> no_exit e"
  by (auto simp: write_prepare_def dest: exits)

lemma write_commit_exits [exits]: "write_commit s n = Inl e \<Longrightarrow> no_exit e"
  by (auto simp: write_commit_def rbind_eq_Inl dest: exits)

lemma object_bytes_exits [exits]: "object_bytes t i k = Inl e \<Longrightarrow> no_exit e"
  by (auto simp: object_bytes_def split: if_splits)

lemma sock_write_exits [exits]: "sock_write s d = Inl e \<Longrightarrow> no_exit e"
  by (auto simp: sock_write_def Let_def rbind_eq_Inl dest: exits split: if_splits option.splits prod.splits)

lemma write_emplace_exits [exits]: "write_emplace s t = Inl e \<Longrightarrow> no_exit e"
  by (auto simp: write_emplace_def Let_def rbind_eq_Inl dest: exits split: if_splits option.splits prod.splits)

lemma write_cb_point_exits [exits]: "write_cb_point s cb d = Inl e \<Longrightarrow> no_exit e"
  by (auto simp: write_cb_point_def Let_def rbind_eq_Inl dest: exits split: if_splits)

subsection \<open>Receiving\<close>

definition rx_fails :: "('c, 'd, 'u) rx_handler \<Rightarrow> ('u \<Rightarrow> 'u \<Rightarrow> bool) \<Rightarrow> ('u \<Rightarrow> exn \<Rightarrow> bool) \<Rightarrow> bool" where
  "rx_fails h P E \<longleftrightarrow> rx_keeps h P \<and> (\<forall>u v e. P u v \<longrightarrow> E v e \<longrightarrow> E u e) \<and> (\<forall>u e. no_exit e \<longrightarrow> E u e) \<and>
     (\<forall>cb this d s1 s2 u e. h cb this d s1 s2 0 u = Inl e \<longrightarrow> E u e)"

lemma rx_failsD:
  assumes "rx_fails h P E"
  shows "rx_keeps h P" "P u v \<Longrightarrow> E v e \<Longrightarrow> E u e" "no_exit e \<Longrightarrow> E u e" "h cb this d s1 s2 0 u = Inl e \<Longrightarrow> E u e"
  using assms unfolding rx_fails_def by blast+

lemma rx_hdr_fails: "rx_fails h P E \<Longrightarrow> rx_hdr h i (s, u) = Inl e \<Longrightarrow> E u e"
  by (auto simp: rx_hdr_def segments_def Let_def rbind_eq_Inl intro: rx_failsD dest: exits
      split: if_splits option.splits prod.splits)

lemma rx_body_fails: "rx_fails h P E \<Longrightarrow> rx_body h i (s, u) = Inl e \<Longrightarrow> E u e"
  by (auto simp: rx_body_def segments_def Let_def rbind_eq_Inl intro: rx_failsD dest: exits
      split: if_splits option.splits prod.splits)

lemma rx_items_fails: "rx_fails h P E \<Longrightarrow> rx_items h is (s, u) d = Inl e \<Longrightarrow> E u e"
proof (induction "is" arbitrary: s u d)
  case (Cons i js)
  note f = Cons.prems(1)
  show ?case
  proof (cases "rx_hdr h i (s, u)")
    case (Inl e')
    with Cons.prems(2) rx_hdr_fails [OF f Inl] show ?thesis by (simp add: rx_items.simps)
  next
    case (Inr fl)
    note 1 = rx_hdr_user [OF rx_failsD(1) [OF f] Inr]
    show ?thesis
    proof (cases fl)
      case (Break x)
      with Cons.prems(2) Inr show ?thesis by (simp add: rx_items.simps)
    next
      case (Next x)
      obtain s1 u1 where x: "x = (s1, u1)" by (cases x)
      have p1: "P u u1" using 1 Next x by simp
      show ?thesis
      proof (cases "rx_body h i (s1, u1)")
        case Inl2: (Inl e')
        with Cons.prems(2) Inr Next x rx_body_fails [OF f Inl2] rx_failsD(2) [OF f p1] show ?thesis
          by (simp add: rx_items.simps)
      next
        case Inr2: (Inr fl2)
        note 2 = rx_body_user [OF rx_failsD(1) [OF f] Inr2]
        show ?thesis
        proof (cases fl2)
          case (Break y)
          with Cons.prems(2) Inr Next x Inr2 show ?thesis by (simp add: rx_items.simps)
        next
          case Next2: (Next y)
          obtain s2 u2 where y: "y = (s2, u2)" by (cases y)
          with Cons.prems(2) Inr Next x Inr2 Next2 have "rx_items h js (s2, u2) (Suc d) = Inl e" by (simp add: rx_items.simps)
          from Cons.IH [OF f this] 2 Next2 y p1 show ?thesis using rx_failsD(2) [OF f] by simp
        qed
      qed
    qed
  qed
qed (simp add: rx_items.simps)

lemma rx_deliver_fails:
  assumes "rx_fails h P E" "rx_deliver h (s, u) = Inl e"
  shows "E u e"
proof -
  have "no_exit e \<or> (\<exists>is. rx_items h is (s, u) 0 = Inl e)"
    using assms(2) by (auto simp: rx_deliver_def rbind_eq_Inl dest: exits split: option.splits)
  then show ?thesis using rx_failsD(3) [OF assms(1)] rx_items_fails [OF assms(1)] by blast
qed

lemma rx_deliver_user: "rx_keeps h P \<Longrightarrow> rx_deliver h (s, u) = Inr (s', u') \<Longrightarrow> P u u'"
  by (auto simp: rx_deliver_def rbind_eq_Inr dest: rx_items_user split: option.splits)

lemma sock_rx_fails: "rx_fails h P E \<Longrightarrow> sock_rx h ks (s, u) = Inl e \<Longrightarrow> E u e"
proof (induction ks arbitrary: s u)
  case Nil
  then show ?case by (auto simp: rbind_eq_Inl intro: rx_failsD(3) dest: exits split: if_splits prod.splits)
next
  case (Cons k ks)
  note f = Cons.prems(1)
  obtain d n where k: "k = RdRet d n" by (cases k)
  have "no_exit e \<or> (\<exists>rb. rx_deliver h (s\<lparr>rbuf := rb\<rparr>, u) = Inl e \<or>
      (\<exists>s1 u1. rx_deliver h (s\<lparr>rbuf := rb\<rparr>, u) = Inr (s1, u1) \<and> sock_rx h ks (s1, u1) = Inl e))"
    using Cons.prems(2) by (auto simp: k rbind_eq_Inl Let_def dest: exits split: if_splits option.splits prod.splits)
  then show ?case
  proof (elim disjE exE conjE)
    assume "no_exit e"
    then show ?thesis by (rule rx_failsD(3) [OF f])
  next
    fix rb assume "rx_deliver h (s\<lparr>rbuf := rb\<rparr>, u) = Inl e"
    then show ?thesis by (rule rx_deliver_fails [OF f])
  next
    fix rb s1 u1
    assume d: "rx_deliver h (s\<lparr>rbuf := rb\<rparr>, u) = Inr (s1, u1)" "sock_rx h ks (s1, u1) = Inl e"
    from rx_failsD(2) [OF f rx_deliver_user [OF rx_failsD(1) [OF f] d(1)] Cons.IH [OF f d(2)]] show ?thesis .
  qed
qed

lemma sock_read_fails:
  fixes s :: "('c, 't, 'd) Sock"
  assumes "rx_fails h P E" "sock_read h ks (s, u) r = Inl e"
  shows "E u e"
proof -
  have "no_exit e \<or> (\<exists>s1 :: ('c, 't, 'd) Sock. sock_rx h ks (s1, u) = Inl e)"
    using assms(2) by (auto simp: sock_read_def Let_def rbind_eq_Inl dest: exits split: if_splits prod.splits)
  then show ?thesis using rx_failsD(3) [OF assms(1)] sock_rx_fails [OF assms(1)] by blast
qed

subsection \<open>Transmitting\<close>

definition tx_fails :: "('t, 'd, 'u) tx_handler \<Rightarrow> bool" where
  "tx_fails h \<longleftrightarrow> (\<forall>cb this d st u e. h cb this d st u = Inl e \<longrightarrow> no_exit e)"

lemma tx_fire_exits: "tx_fails h \<Longrightarrow> tx_fire h is n (s, u) d = Inl e \<Longrightarrow> no_exit e"
proof (induction "is" arbitrary: n s u d)
  case (Cons i js)
  show ?case
  proof (cases "txlen (txcb_at s i) > n")
    case True
    with Cons.prems(2) show ?thesis by (simp add: Let_def)
  next
    case False
    with Cons.prems show ?thesis
      by (auto simp: Let_def rbind_eq_Inl tx_fails_def split: option.splits intro: Cons.IH [OF Cons.prems(1)])
  qed
qed simp

lemma tx_callbacks_exits: "tx_fails h \<Longrightarrow> tx_callbacks h n (s, u) = Inl e \<Longrightarrow> no_exit e"
  by (auto simp: tx_callbacks_def rbind_eq_Inl dest: exits tx_fire_exits split: option.splits)

lemma sock_tx_exits: "tx_fails h \<Longrightarrow> sock_tx h ws (s, u) wire = Inl e \<Longrightarrow> no_exit e"
proof (induction ws arbitrary: s u wire)
  case Nil
  then show ?case by (auto simp: rbind_eq_Inl dest: exits split: if_splits prod.splits)
next
  case (Cons w ws)
  obtain r n where w: "w = WrRet r n" by (cases w)
  show ?case using Cons.prems(2)
    by (auto simp: w rbind_eq_Inl Let_def dest: exits tx_callbacks_exits [OF Cons.prems(1)] Cons.IH [OF Cons.prems(1)]
        split: if_splits option.splits prod.splits)
qed

lemma try_tx_exits: "tx_fails h \<Longrightarrow> try_tx h ws (s, u) wire = Inl e \<Longrightarrow> no_exit e"
  by (auto simp: try_tx_def dest: sock_tx_exits split: if_splits)

lemma run_io_fails:
  fixes s :: "('c, 't, 'd) Sock"
  assumes "rx_fails hr P E" "tx_fails ht" "sock_run_io hr ht ks ws so_error events (s, u) wire = Inl e"
  shows "E u e"
proof -
  have "no_exit e \<or> (\<exists>s1 :: ('c, 't, 'd) Sock. sock_rx hr ks (s1, u) = Inl e) \<or>
    (\<exists>(s1 :: ('c, 't, 'd) Sock) u1. sock_tx ht ws (s1, u1) wire = Inl e)"
    using assms(3) by (auto simp: sock_run_io_def rbind_eq_Inl socket_check_connected_def split: if_splits prod.splits)
  then show ?thesis
    using rx_failsD(3) [OF assms(1)] sock_rx_fails [OF assms(1)] sock_tx_exits [OF assms(2)] by blast
qed

end
