(* ===== verification/Client_Core.thy ===== *)
theory Client_Core
  imports Schedule Gen_Exit
begin

section \<open>The client and its samples (client/client.hh, client/client.cc)\<close>

text \<open>
  \<open>Client\<close> without its connections' own state: the counters, the results, the schedule, the pool of connections and
  the reference counts of the generators, by address. \<open>record_sample\<close> is the callback that every response runs;
  with the last response it prints the summary and ends the program with \<open>exit\<close>. Counters are natural numbers; the
  clock, the kernel's answers and the random choice of a connection are the environment's, indexed by a counter that
  never repeats.
\<close>

record client =
  results :: Results
  sent_count :: nat
  rcvd_count :: nat
  measure_count :: nat
  pre_samples :: nat
  post_samples :: nat
  measure_samples :: nat
  total_samples :: nat
  exp_start_time :: int
  schedule :: "int list"
  missed_threshold :: int
  missed_send :: nat
  conns :: "nat list"
  rr_idx :: int
  refs :: "nat \<Rightarrow> gen_ref"

record 'i client_env =
  c_rnd :: "real \<Rightarrow> real"
  c_start :: "nat \<Rightarrow> int"
  c_end :: "nat \<Rightarrow> int"
  c_conn :: "nat \<Rightarrow> int"
  c_watch :: "nat \<Rightarrow> int \<times> int"
  c_timer :: "nat \<Rightarrow> int \<times> int \<Rightarrow> int \<times> int"
  c_new :: "nat \<Rightarrow> 'i"
  c_input :: "nat \<Rightarrow> 'i"

definition client_watch :: "int \<times> int \<Rightarrow> unit res" where
  "client_watch = (\<lambda>(st, errno). rbind (system_call st errno ''Client::epoll_watch: epoll_ctl()'') (\<lambda>_. Inr ()))"

text \<open>The distribution \<open>conn_dist_{0, (int)conn_cnt - 1}\<close> is made before the kernel is called, and must not be empty.\<close>

definition no_conn_range :: "Config \<Rightarrow> bool" where
  "no_conn_range cfg \<longleftrightarrow> sint (ucast (conn_cnt cfg) :: 32 word) < 1"

text \<open>The threshold is computed with unsigned numbers.\<close>

definition client_new :: "int \<times> int \<Rightarrow> int \<times> int \<Rightarrow> int \<times> int \<Rightarrow> Config \<Rightarrow> client res" where
  "client_new ep tm watch cfg =
     (if no_conn_range cfg then Inl (Undefined_behaviour ''uniform_int_distribution: empty range'')
      else
     rbind (system_call (fst ep) (snd ep) ''Client::Client: epoll_create1()'') (\<lambda>_.
     rbind (system_call (fst tm) (snd tm) ''Client::Client: timefd_create()'') (\<lambda>_.
     rbind (client_watch watch) (\<lambda>_.
     Inr \<lparr>results = results_new (unat (nsamples cfg)), sent_count = 0, rcvd_count = 0, measure_count = 0,
          pre_samples = 0, post_samples = 0, measure_samples = 0, total_samples = 0, exp_start_time = 0,
          schedule = [], missed_threshold = sint (- missed_window_us cfg * 1000), missed_send = 0, conns = [],
          rr_idx = 0, refs = (\<lambda>_. \<lparr>ref_cnt = 0, freed = True\<rparr>)\<rparr>))))"

subsection \<open>References to generators\<close>

definition get_ref :: "nat \<Rightarrow> client \<Rightarrow> client res" where
  "get_ref a c = rbind (gen_get (refs c a)) (\<lambda>g. Inr (c\<lparr>refs := (refs c)(a := g)\<rparr>))"

definition put_ref :: "nat \<Rightarrow> client \<Rightarrow> client res" where
  "put_ref a c = rbind (gen_put (refs c a)) (\<lambda>g. Inr (c\<lparr>refs := (refs c)(a := g)\<rparr>))"

subsection \<open>The summary\<close>

text \<open>One row of the summary: the arguments of one \<open>printf\<close>, taken from left to right (their order is not specified; the ordered queries
  sort the samples).\<close>

definition accum_row :: "(real \<Rightarrow> real) \<Rightarrow> Accum \<Rightarrow> row res" where
  "accum_row rnd a =
     rbind (accum_min a) (\<lambda>(mn, a).
     let m = mean rnd a; sd = stddev rnd a in
     rbind (percentile rnd (rnd (99 / 100)) a) (\<lambda>(p, a).
     rbind (percentile rnd (rnd (999 / 1000)) a) (\<lambda>(pp, a).
     rbind (accum_max a) (\<lambda>(mx, a). Inr (mn, m, sd, p, pp, mx)))))"

definition MB :: real where "MB = 1024 * 1024"

definition print_summary :: "(real \<Rightarrow> real) \<Rightarrow> Config \<Rightarrow> client \<Rightarrow> report res" where
  "print_summary rnd cfg c =
     (let r = results c in
      if machine_readable cfg then Inr (Machine_readable (reqps r) (print_samples (service_acc r)))
      else
        rbind (accum_row rnd (service_acc r)) (\<lambda>srv.
        rbind (accum_row rnd (queue_acc r)) (\<lambda>que.
        rbind (if protocol cfg = SYNTHETIC then rbind (accum_row rnd (wait_acc r)) (\<lambda>w. Inr (Some w)) else Inr None) (\<lambda>wai.
        rbind (running_time r) (\<lambda>t.
        let time_s = rnd (rnd (real t) / NSEC);
            rx_mbs = rnd (rnd (real (unat (rx_bytes r))) / MB);
            tx_mbs = rnd (rnd (real (unat (tx_bytes r))) / MB)
        in Inr (Human_readable
             \<lparr>hit_rate = reqps r, target_rate = req_s cfg, service_row = srv, buffer_row = que, wait_row = wai,
              rx_rate = rnd (rx_mbs / time_s), rx_mbytes = rx_mbs, tx_rate = rnd (tx_mbs / time_s), tx_mbytes = tx_mbs,
              missed_sent = (missed_send c, sent_count c),
              missed_percent = rnd (rnd (rnd (real (missed_send c)) / rnd (real (sent_count c))) * 100)\<rparr>))))))"

subsection \<open>Recording a response\<close>

definition record_measured :: "('i, 'z) client_env_scheme \<Rightarrow> nat \<Rightarrow> nat \<Rightarrow> nat \<Rightarrow> nat \<Rightarrow> client \<Rightarrow> client res" where
  "record_measured env queue_us srv_us wait_us bytes c0 =
     (let c = c0\<lparr>measure_count := measure_count c0 + 1,
                 results := results_add_sample queue_us srv_us wait_us (word_of_nat bytes) (results c0)\<rparr> in
      if measure_count c = measure_samples c then
        rbind (end_measurements (c_rnd env) (c_end env (rcvd_count c)) (results c)) (\<lambda>r. Inr (c\<lparr>results := r\<rparr>))
      else Inr c)"

definition record_sample :: "('i, 'z) client_env_scheme \<Rightarrow> Config \<Rightarrow> nat \<Rightarrow> nat \<Rightarrow> nat \<Rightarrow> nat \<Rightarrow> nat \<Rightarrow> bool \<Rightarrow>
    client \<Rightarrow> client res" where
  "record_sample env cfg conn queue_us srv_us wait_us bytes meas c =
     rbind (if meas then record_measured env queue_us srv_us wait_us bytes c else Inr c) (\<lambda>c.
     rbind (put_ref conn c) (\<lambda>c.
     let c = c\<lparr>rcvd_count := rcvd_count c + 1\<rparr> in
     if total_samples c \<le> rcvd_count c then
       rbind (print_summary (c_rnd env) cfg c) (\<lambda>report.
       Inl (Exit EXIT_SUCCESS (Summary report (record_iatimes cfg (schedule c)))))
     else Inr c))"

subsection \<open>What a response changes\<close>

text \<open>The fields of a response: latencies, bytes, whether it is measured.\<close>

type_synonym response = "nat \<times> nat \<times> nat \<times> nat \<times> bool"

definition recorded :: "('i, 'z) client_env_scheme \<Rightarrow> Config \<Rightarrow> nat \<Rightarrow> response \<Rightarrow> client \<Rightarrow> client res" where
  "recorded env cfg a = (\<lambda>(q, s, w, n, m). record_sample env cfg a q s w n m)"

definition is_measured :: "response \<Rightarrow> bool" where
  "is_measured = (\<lambda>(q, s, w, n, m). m)"

text \<open>What no response changes.\<close>

definition same_plan :: "client \<Rightarrow> client \<Rightarrow> bool" where
  "same_plan c d \<longleftrightarrow> sent_count d = sent_count c \<and> pre_samples d = pre_samples c \<and>
     post_samples d = post_samples c \<and> measure_samples d = measure_samples c \<and> total_samples d = total_samples c \<and>
     exp_start_time d = exp_start_time c \<and> schedule d = schedule c \<and> missed_threshold d = missed_threshold c \<and>
     missed_send d = missed_send c \<and> conns d = conns c \<and> rr_idx d = rr_idx c"

lemma same_plan_refl [simp]: "same_plan c c"
  by (simp add: same_plan_def)

lemma same_plan_trans: "same_plan c d \<Longrightarrow> same_plan d e \<Longrightarrow> same_plan c e"
  by (simp add: same_plan_def)

lemma put_ref_Inr:
  "put_ref a c = Inr d \<Longrightarrow> \<exists>g. gen_put (refs c a) = Inr g \<and> d = c\<lparr>refs := (refs c)(a := g)\<rparr>"
  by (auto simp: put_ref_def res_simps)

lemma get_ref_Inr:
  "get_ref a c = Inr d \<Longrightarrow> \<exists>g. gen_get (refs c a) = Inr g \<and> d = c\<lparr>refs := (refs c)(a := g)\<rparr>"
  by (auto simp: get_ref_def res_simps)

text \<open>Every measured response is in each of the three accumulators.\<close>

definition samples_ok :: "client \<Rightarrow> bool" where
  "samples_ok c \<longleftrightarrow> length (samples (service_acc (results c))) = measure_count c \<and>
     length (samples (queue_acc (results c))) = measure_count c \<and> length (samples (wait_acc (results c))) = measure_count c"

lemma record_measured_frame:
  "record_measured env q sv w n c = Inr d \<Longrightarrow> same_plan c d \<and> refs d = refs c \<and> rcvd_count d = rcvd_count c \<and>
    measure_count d = measure_count c + 1 \<and> (samples_ok c \<longrightarrow> samples_ok d)"
  by (auto simp: record_measured_def Let_def same_plan_def rbind_eq_Inr samples_ok_def results_add_sample_def add_sample_def
      end_measurements_def split: if_splits)

lemma measured_frame:
  assumes "(if m then record_measured env q sv w n c else Inr c) = Inr d"
  shows "same_plan c d \<and> refs d = refs c \<and> rcvd_count d = rcvd_count c \<and>
    measure_count d = measure_count c + (if m then 1 else 0) \<and> (samples_ok c \<longrightarrow> samples_ok d)"
  using assms record_measured_frame [of env q sv w n c d] by (cases m) simp_all

lemma recorded_steps:
  assumes "recorded env cfg a s c = Inr d"
  obtains g where "gen_put (refs c a) = Inr g" "refs d = (refs c)(a := g)" "same_plan c d"
    "rcvd_count d = rcvd_count c + 1" "rcvd_count d < total_samples d"
    "measure_count d = measure_count c + (if is_measured s then 1 else 0)" "samples_ok c \<longrightarrow> samples_ok d"
proof -
  obtain q sv w n m where s: "s = (q, sv, w, n, m)" by (cases s)
  from assms obtain c1 c2 where 1: "(if m then record_measured env q sv w n c else Inr c) = Inr c1"
    "put_ref a c1 = Inr c2" "d = c2\<lparr>rcvd_count := rcvd_count c2 + 1\<rparr>" "\<not> total_samples c2 \<le> rcvd_count c2 + 1"
    by (auto simp: recorded_def record_sample_def s Let_def rbind_eq_Inr split: if_splits)
  note 2 = measured_frame [OF 1(1)]
  obtain g where "gen_put (refs c1 a) = Inr g" "c2 = c1\<lparr>refs := (refs c1)(a := g)\<rparr>" using put_ref_Inr [OF 1(2)] by blast
  with 1 2 show ?thesis by (intro that [of g]) (auto simp: same_plan_def samples_ok_def is_measured_def s)
qed

text \<open>A generator's call runs the callback for a sequence of responses.\<close>

fun answered :: "('i, 'z) client_env_scheme \<Rightarrow> Config \<Rightarrow> nat \<Rightarrow> response list \<Rightarrow> client \<Rightarrow> client res" where
  "answered env cfg a [] c = Inr c"
| "answered env cfg a (s # ss) c = rbind (recorded env cfg a s c) (answered env cfg a ss)"

lemma answered_append: "answered env cfg a (xs @ ys) c = rbind (answered env cfg a xs c) (answered env cfg a ys)"
  by (induction xs arbitrary: c) (auto simp: rbind_assoc intro!: rbind_cong)

lemma gen_put_Inr:
  "gen_put g = Inr h \<Longrightarrow> \<not> freed g \<and> ref_cnt h = ref_cnt g - 1 \<and> 0 \<le> ref_cnt h \<and> freed h = (ref_cnt h = 0)"
  by (auto simp: gen_put_def Let_def split: if_splits)

lemma gen_put_live: "\<not> freed g \<Longrightarrow> 0 < ref_cnt g \<Longrightarrow> \<exists>h. gen_put g = Inr h"
  by (cases "ref_cnt g = 1") (auto simp: gen_put_def Let_def)

lemma gen_get_Inr: "gen_get g = Inr h \<Longrightarrow> \<not> freed g \<and> h = g\<lparr>ref_cnt := ref_cnt g + 1\<rparr>"
  by (auto simp: gen_get_def split: if_splits)

lemma answered_Inr:
  assumes "answered env cfg a ss c = Inr d"
  shows "same_plan c d \<and> rcvd_count d = rcvd_count c + length ss \<and> (ss \<noteq> [] \<longrightarrow> rcvd_count d < total_samples d) \<and>
    ref_cnt (refs d a) = ref_cnt (refs c a) - int (length ss) \<and> (\<forall>b. b \<noteq> a \<longrightarrow> refs d b = refs c b) \<and>
    (ss \<noteq> [] \<longrightarrow> freed (refs d a) = (ref_cnt (refs d a) = 0)) \<and> (ss = [] \<longrightarrow> d = c) \<and>
    measure_count d = measure_count c + count_list (map is_measured ss) True \<and> (samples_ok c \<longrightarrow> samples_ok d)"
  using assms
proof (induction ss arbitrary: c)
  case (Cons s ss)
  from Cons.prems obtain c1 where c1: "recorded env cfg a s c = Inr c1" "answered env cfg a ss c1 = Inr d"
    by (auto simp: rbind_eq_Inr)
  from recorded_steps [OF c1(1)] obtain g where g: "gen_put (refs c a) = Inr g" "refs c1 = (refs c)(a := g)"
    "same_plan c c1" "rcvd_count c1 = rcvd_count c + 1" "rcvd_count c1 < total_samples c1"
    "measure_count c1 = measure_count c + (if is_measured s then 1 else 0)" "samples_ok c \<longrightarrow> samples_ok c1" .
  from Cons.IH [OF c1(2)] g gen_put_Inr [OF g(1)] same_plan_trans [OF g(3)] show ?case
    by (cases "ss = []") auto
qed simp

subsection \<open>The end of the program\<close>

lemma accum_exits [exits]:
  "accum_min a = Inl e \<Longrightarrow> no_exit e" "accum_max a = Inl e \<Longrightarrow> no_exit e" "percentile rnd p a = Inl e \<Longrightarrow> no_exit e"
  by (auto simp: accum_min_def accum_max_def percentile_def sample_at_def Let_def rbind_eq_Inl split: if_splits)

lemma accum_row_exits [exits]: "accum_row rnd a = Inl e \<Longrightarrow> no_exit e"
  by (auto simp: accum_row_def Let_def rbind_eq_Inl dest: exits split: prod.splits)

lemma running_time_exits [exits]: "running_time r = Inl e \<Longrightarrow> no_exit e"
  by (auto simp: running_time_def Let_def split: if_splits)

lemma print_summary_exits [exits]: "print_summary rnd cfg c = Inl e \<Longrightarrow> no_exit e"
  by (auto simp: print_summary_def Let_def rbind_eq_Inl dest: exits split: if_splits)

lemma gen_refs_exits [exits]: "gen_put g = Inl e \<Longrightarrow> no_exit e" "gen_get g = Inl e \<Longrightarrow> no_exit e"
  by (auto simp: gen_put_def gen_get_def Let_def split: if_splits)

lemma refs_exits [exits]: "put_ref a c = Inl e \<Longrightarrow> no_exit e" "get_ref a c = Inl e \<Longrightarrow> no_exit e"
  by (auto simp: put_ref_def get_ref_def rbind_eq_Inl dest: exits)

lemma record_measured_exits [exits]: "record_measured env q s w n c = Inl e \<Longrightarrow> no_exit e"
  by (auto simp: record_measured_def end_measurements_def Let_def rbind_eq_Inl dest: exits split: if_splits)

text \<open>The program exits with the last response that is expected, and only then; it has printed the summary.\<close>

lemma recorded_exit:
  assumes "recorded env cfg a s c = Inl (Exit n out)"
  shows "n = 0 \<and> (\<exists>d r. out = Summary r (record_iatimes cfg (schedule c)) \<and> print_summary (c_rnd env) cfg d = Inr r \<and>
    same_plan c d \<and> rcvd_count d = rcvd_count c + 1 \<and> total_samples c \<le> rcvd_count d \<and>
    measure_count d = measure_count c + (if is_measured s then 1 else 0) \<and> (samples_ok c \<longrightarrow> samples_ok d))"
proof -
  obtain q sv w k m where s: "s = (q, sv, w, k, m)" by (cases s)
  have not: "\<not> no_exit (Exit n out)" by simp
  from assms obtain c1 c2 r where 1: "(if m then record_measured env q sv w k c else Inr c) = Inr c1" "put_ref a c1 = Inr c2"
    "total_samples c2 \<le> rcvd_count c2 + 1" "n = EXIT_SUCCESS"
    "print_summary (c_rnd env) cfg (c2\<lparr>rcvd_count := rcvd_count c2 + 1\<rparr>) = Inr r"
    "out = Summary r (record_iatimes cfg (schedule c2))"
    using not by (auto simp: recorded_def record_sample_def s Let_def rbind_eq_Inl dest: exits split: if_splits)
  note 2 = measured_frame [OF 1(1)]
  obtain g where "c2 = c1\<lparr>refs := (refs c1)(a := g)\<rparr>" using put_ref_Inr [OF 1(2)] by blast
  with 1(3-6) 2 show ?thesis
    by (intro conjI exI [of _ "c2\<lparr>rcvd_count := rcvd_count c2 + 1\<rparr>"] exI [of _ r])
      (auto simp: same_plan_def EXIT_SUCCESS_def samples_ok_def is_measured_def s)
qed

text \<open>A call made from the client's state \<open>c\<close> for outstanding requests with the flags \<open>fs\<close> ends the program: after the responses to
  some of them, in order.\<close>

definition ends :: "('i, 'z) client_env_scheme \<Rightarrow> Config \<Rightarrow> nat \<Rightarrow> bool list \<Rightarrow> client \<Rightarrow> exn \<Rightarrow> bool" where
  "ends env cfg a fs c e \<longleftrightarrow> no_exit e \<or>
     (\<exists>ss s c1 rest. answered env cfg a ss c = Inr c1 \<and> recorded env cfg a s c1 = Inl e \<and>
        fs = map is_measured ss @ is_measured s # rest)"

subsection \<open>The summary of a finished measurement\<close>

definition accum_ready :: "nat \<Rightarrow> Accum \<Rightarrow> bool" where
  "accum_ready n a \<longleftrightarrow> accum_inv a \<and> length (samples a) = n \<and> n \<le> 2 ^ 53"

definition client_ok :: "client \<Rightarrow> bool" where
  "client_ok c \<longleftrightarrow> accum_ready (measure_count c) (service_acc (results c)) \<and>
     accum_ready (measure_count c) (queue_acc (results c)) \<and> accum_ready (measure_count c) (wait_acc (results c)) \<and>
     measure_count c \<le> measure_samples c \<and> measure_samples c \<le> 2 ^ 53 \<and>
     (0 < measure_samples c \<and> measure_count c = measure_samples c \<longrightarrow> measure_start (results c) < measure_end (results c))"

lemma fraction_range:
  assumes "float_rounding rnd" "1 / 2 \<le> p" "p \<le> 1"
  shows "1 / 2 ^ 1000 \<le> rnd p \<and> rnd p \<le> 1"
proof -
  have m: "mono rnd" using assms(1) by (simp add: float_rounding_def)
  have dy: "rnd (real n / 2 ^ k) = real n / 2 ^ k" if "n \<le> 2 ^ 53" "k \<le> 1000" for n k
    using assms(1) that unfolding float_rounding_def by blast
  have "rnd (1 / 2) = 1 / 2" "rnd 1 = 1" using dy [of 1 1] dy [of 1 0] by simp_all
  with monoD [OF m assms(2)] monoD [OF m assms(3)] have "1 / 2 \<le> rnd p" "rnd p \<le> 1" by simp_all
  moreover have "(1 :: real) / 2 ^ 1000 \<le> 1 / 2 ^ 1" by (intro divide_left_mono power_increasing) auto
  ultimately show ?thesis by simp
qed

text \<open>The sample a percentile reads.\<close>

definition ranked :: "(real \<Rightarrow> real) \<Rightarrow> nat list \<Rightarrow> real \<Rightarrow> nat" where
  "ranked rnd xs p = sort xs ! nat (\<lceil>rnd (real (length xs) * rnd p)\<rceil> - 1)"

lemma percentile_ready:
  assumes "float_rounding rnd" "accum_ready n a" "0 < n" "1 / 2 \<le> p" "p \<le> 1"
  shows "percentile rnd (rnd p) a = Inr (ranked rnd (samples a) p, sort_samples a)"
proof -
  have "0 \<le> \<lceil>rnd (real n * rnd p)\<rceil> - 1 \<and> nat (\<lceil>rnd (real n * rnd p)\<rceil> - 1) < n"
    using percentile_index [OF assms(1,3), of "rnd p"] fraction_range [OF assms(1,4,5)] assms(2)
    by (simp add: accum_ready_def)
  with percentile_ok [of a rnd "rnd p"] assms(2) show ?thesis
    by (simp add: accum_ready_def ranked_def accum_size_def)
qed

lemma accum_row_ready:
  assumes "float_rounding rnd" "accum_ready n a" "0 < n"
  shows "accum_row rnd a = Inr (Min (set (samples a)), mean rnd (sort_samples a), stddev rnd (sort_samples a),
    ranked rnd (samples a) (99 / 100), ranked rnd (samples a) (999 / 1000), Max (set (samples a)))"
proof -
  let ?b = "sort_samples a"
  have a: "accum_inv a" "samples a \<noteq> []" using assms(2,3) by (auto simp: accum_ready_def)
  have b: "accum_inv ?b" "samples ?b \<noteq> []" "sort_samples ?b = ?b" "set (samples ?b) = set (samples a)"
    "sort (samples ?b) = sort (samples a)" "length (samples ?b) = length (samples a)"
    using sorted_keeps(1) [OF a(1)] a(2) sort_samples_eq [OF a(1)]
    by (simp_all add: sort_samples_def accum_inv_def sorted_sort_id [OF sorted_sort]) (metis set_empty set_sort)
  then have r: "accum_ready n ?b" "ranked rnd (samples ?b) p = ranked rnd (samples a) p" for p
    using assms(2) by (simp_all add: accum_ready_def ranked_def)
  show ?thesis
    using percentile_ready [OF assms(1) r(1) assms(3)] b r(2)
    by (simp add: accum_row_def accum_min_ok [OF a] accum_max_ok [OF b(1,2)] Let_def)
qed

lemma print_summary_ready:
  assumes "float_rounding rnd" "client_ok c" "0 < measure_samples c" "measure_count c = measure_samples c"
  shows "\<exists>r. print_summary rnd cfg c = Inr r"
proof -
  have n: "0 < measure_count c" using assms(3,4) by simp
  have r: "accum_ready (measure_count c) (service_acc (results c))" "accum_ready (measure_count c) (queue_acc (results c))"
    "accum_ready (measure_count c) (wait_acc (results c))" "measure_start (results c) < measure_end (results c)"
    using assms(2-4) by (auto simp: client_ok_def)
  note rows = accum_row_ready [OF assms(1) r(1) n] accum_row_ready [OF assms(1) r(2) n] accum_row_ready [OF assms(1) r(3) n]
  have "running_time (results c) = Inr (nat (measure_end (results c) - measure_start (results c)))"
    using r(4) by (simp add: running_time_def)
  with rows show ?thesis by (simp add: print_summary_def Let_def)
qed

lemma record_measured_ok:
  assumes "client_ok c" "measure_count c < measure_samples c" "measure_start (results c) < c_end env (rcvd_count c)"
  shows "\<exists>c'. record_measured env q s w n c = Inr c' \<and> client_ok c' \<and> measure_count c' = measure_count c + 1 \<and>
    samples (service_acc (results c')) = samples (service_acc (results c)) @ [s] \<and>
    samples (queue_acc (results c')) = samples (queue_acc (results c)) @ [q] \<and>
    samples (wait_acc (results c')) = samples (wait_acc (results c)) @ [w]"
proof -
  have le: "measure_count c + 1 \<le> 2 ^ 53" using assms(1,2) by (auto simp: client_ok_def)
  with assms show ?thesis
    by (auto simp: record_measured_def Let_def end_measurements_def running_time_def results_add_sample_def
        client_ok_def accum_ready_def accum_inv_def add_sample_def)
qed

lemma client_ok_cong:
  "measure_count d = measure_count c \<Longrightarrow> results d = results c \<Longrightarrow> measure_samples d = measure_samples c \<Longrightarrow>
    client_ok d = client_ok c"
  by (simp add: client_ok_def)

subsection \<open>Properties\<close>

text \<open>C17: A response is recorded and its reference given back: in the client \<open>d\<close> that results one more response is counted, the
  samples have its latencies at the end if it is measured, the count of the connection's references is one less, the
  other references and the plan are unchanged. With the last response expected the summary of \<open>d\<close> is printed
  and the program ends with status 0; else \<open>d\<close> goes on. There is no other outcome, as long as the generator is alive, a measured
  response comes later than the start of the measurement, and all measured responses are in by the last one.\<close>

theorem response_outcome:
  assumes "float_rounding (c_rnd env)" "client_ok c" "\<not> freed (refs c a)" "0 < ref_cnt (refs c a)"
    and "meas \<longrightarrow> measure_count c < measure_samples c \<and> measure_start (results c) < c_end env (rcvd_count c)"
    and "total_samples c \<le> rcvd_count c + 1 \<longrightarrow>
      0 < measure_samples c \<and> measure_count c + (if meas then 1 else 0) = measure_samples c"
  shows "\<exists>d. client_ok d \<and> same_plan c d \<and> rcvd_count d = rcvd_count c + 1 \<and>
      measure_count d = measure_count c + (if meas then 1 else 0) \<and>
      samples (service_acc (results d)) = samples (service_acc (results c)) @ (if meas then [s] else []) \<and>
      samples (queue_acc (results d)) = samples (queue_acc (results c)) @ (if meas then [q] else []) \<and>
      samples (wait_acc (results d)) = samples (wait_acc (results c)) @ (if meas then [w] else []) \<and>
      ref_cnt (refs d a) = ref_cnt (refs c a) - 1 \<and> freed (refs d a) = (ref_cnt (refs c a) = 1) \<and>
      (\<forall>b. b \<noteq> a \<longrightarrow> refs d b = refs c b) \<and>
      (if total_samples c \<le> rcvd_count c + 1
       then \<exists>r. print_summary (c_rnd env) cfg d = Inr r \<and>
         record_sample env cfg a q s w n meas c = Inl (Exit 0 (Summary r (record_iatimes cfg (schedule c))))
       else record_sample env cfg a q s w n meas c = Inr d)"
proof -
  obtain c1 where c1: "(if meas then record_measured env q s w n c else Inr c) = Inr c1" "client_ok c1"
    "measure_count c1 = measure_count c + (if meas then 1 else 0)"
    "samples (service_acc (results c1)) = samples (service_acc (results c)) @ (if meas then [s] else [])"
    "samples (queue_acc (results c1)) = samples (queue_acc (results c)) @ (if meas then [q] else [])"
    "samples (wait_acc (results c1)) = samples (wait_acc (results c)) @ (if meas then [w] else [])"
    using record_measured_ok [OF assms(2), of env q s w n] assms(2,5) by (cases meas) auto
  have f: "same_plan c c1" "refs c1 = refs c" "rcvd_count c1 = rcvd_count c"
    using c1(1) record_measured_frame [of env q s w n c c1] by (auto split: if_splits)
  obtain g where g: "gen_put (refs c a) = Inr g" using gen_put_live [OF assms(3,4)] by auto
  then have put: "put_ref a c1 = Inr (c1\<lparr>refs := (refs c1)(a := g)\<rparr>)" using f(2) by (simp add: put_ref_def)
  let ?d = "c1\<lparr>refs := (refs c1)(a := g), rcvd_count := rcvd_count c + 1\<rparr>"
  have d: "client_ok ?d" "measure_count ?d = measure_count c1" "measure_samples ?d = measure_samples c1"
    using c1(2) client_ok_cong [of ?d c1] by simp_all
  have plan: "same_plan c ?d" using f(1) by (simp add: same_plan_def)
  have refs: "ref_cnt (refs ?d a) = ref_cnt (refs c a) - 1" "freed (refs ?d a) = (ref_cnt (refs c a) = 1)"
    "\<forall>b. b \<noteq> a \<longrightarrow> refs ?d b = refs c b"
    using gen_put_Inr [OF g] f(2) by auto
  have out: "if total_samples c \<le> rcvd_count c + 1
       then \<exists>r. print_summary (c_rnd env) cfg ?d = Inr r \<and>
         record_sample env cfg a q s w n meas c = Inl (Exit 0 (Summary r (record_iatimes cfg (schedule c))))
       else record_sample env cfg a q s w n meas c = Inr ?d"
  proof (cases "total_samples c \<le> rcvd_count c + 1")
    case True
    have "measure_samples c1 = measure_samples c" "total_samples c1 = total_samples c" "schedule c1 = schedule c" using f(1) by (simp_all add: same_plan_def)
    moreover from this have "0 < measure_samples ?d" "measure_count ?d = measure_samples ?d"
      using c1(3) assms(6) True by auto
    from print_summary_ready [OF assms(1) d(1) this] obtain r where "print_summary (c_rnd env) cfg ?d = Inr r" by blast
    ultimately show ?thesis using True c1(1) put f(3) by (simp add: record_sample_def Let_def EXIT_SUCCESS_def)
  next
    case False
    with c1(1) put f show ?thesis by (simp add: record_sample_def same_plan_def Let_def)
  qed
  from c1 d plan refs out show ?thesis by (intro exI [of _ ?d]) simp
qed

text \<open>The rows of the summary: smallest and largest sample, mean and deviation, and the samples at the ranks of the 99th and
  99.9th percentile; there is no access outside the samples however the ranks are rounded.\<close>

theorem summary_row:
  assumes "float_rounding rnd" "accum_inv a" "samples a \<noteq> []" "length (samples a) \<le> 2 ^ 53"
  shows "\<exists>m sd p pp. accum_row rnd a = Inr (Min (set (samples a)), m, sd, p, pp, Max (set (samples a))) \<and>
    p \<in> set (samples a) \<and> pp \<in> set (samples a)"
proof -
  let ?n = "length (samples a)"
  have n: "0 < ?n" "accum_ready ?n a" using assms by (auto simp: accum_ready_def)
  have "ranked rnd (samples a) p \<in> set (samples a)" if "1 / 2 \<le> p" "p \<le> 1" for p
  proof -
    have "nat (\<lceil>rnd (real ?n * rnd p)\<rceil> - 1) < ?n"
      using percentile_index [OF assms(1) n(1) assms(4), of "rnd p"] fraction_range [OF assms(1) that] by simp
    then have "ranked rnd (samples a) p \<in> set (sort (samples a))" unfolding ranked_def by (intro nth_mem) simp
    then show ?thesis by simp
  qed
  with accum_row_ready [OF assms(1) n(2,1)] show ?thesis by auto
qed

text \<open>For the witnesses: a client that waits for one more response, the only measured one.\<close>

definition demo_client :: client where
  "demo_client = \<lparr>results = results_new 1, sent_count = 2, rcvd_count = 1, measure_count = 0, pre_samples = 1,
     post_samples = 0, measure_samples = 1, total_samples = 2, exp_start_time = 0, schedule = [10, 20],
     missed_threshold = -100000, missed_send = 0, conns = [0], rr_idx = 2, refs = (\<lambda>_. \<lparr>ref_cnt = 2, freed = False\<rparr>)\<rparr>"

definition demo_client_env :: "unit client_env" where
  "demo_client_env = \<lparr>c_rnd = (\<lambda>x. x), c_start = (\<lambda>_. 10), c_end = (\<lambda>_. 5000), c_conn = (\<lambda>_. 0), c_watch = (\<lambda>_. (0, 0)),
     c_timer = (\<lambda>_ _. (0, 0)), c_new = (\<lambda>_. ()), c_input = (\<lambda>_. ())\<rparr>"

theorem response_outcome_witness:
  "\<exists>d r. record_sample demo_client_env config_default 0 1 2 3 8 True demo_client = Inl (Exit 0 (Summary r None)) \<and>
    print_summary (\<lambda>x. x) config_default d = Inr r \<and> ref_cnt (refs d 0) = 1 \<and> samples (service_acc (results d)) = [2]"
proof -
  have "float_rounding (\<lambda>x. x)" using rounds_once_id by (simp add: rounds_once_def)
  then have "float_rounding (c_rnd demo_client_env)" "client_ok demo_client"
    by (simp_all add: demo_client_env_def demo_client_def client_ok_def accum_ready_def accum_inv_def results_new_def accum_new_def)
  from response_outcome [OF this, of 0 True 2 1 3 config_default 8] show ?thesis
    by (auto simp: demo_client_def demo_client_env_def results_new_def accum_new_def record_iatimes_def config_default_def)
qed

theorem summary_row_witness:
  "\<exists>m sd p pp. accum_row (\<lambda>x. x) \<lparr>samples = [30, 10, 20], is_sorted = False\<rparr> = Inr (10, m, sd, p, pp, 30)"
  using summary_row [of "\<lambda>x. x" "\<lparr>samples = [30, 10, 20], is_sorted = False\<rparr>"] rounds_once_id
  by (auto simp: rounds_once_def accum_inv_def)

end
