(* ===== verification/Client_Run.thy ===== *)
theory Client_Run
  imports Client_Core
begin

section \<open>The run of the client (client/client.cc)\<close>

text \<open>
  The experiment: connections, requests at their deadlines, events. A generator is a value at an address: \<open>gens\<close> holds
  those that exist, an address is the number of generators made before it. What the client calls of a generator
  (construction with \<open>connect\<close>, \<open>send_request\<close>, \<open>run_io\<close>, the destructor) is the record \<open>gen_ops\<close>; what it relies on
  is the locale \<open>client_generator\<close>, whose lemmas hold for every generator that keeps its laws. The loops that
  may not end are partial functions, where \<open>None\<close> means that they do not.
\<close>

record ('g, 'i) gen_ops =
  g_new :: "'i \<Rightarrow> nat \<Rightarrow> 'g res"
  g_send :: "'i \<Rightarrow> bool \<Rightarrow> 'g \<Rightarrow> client \<Rightarrow> (64 word \<times> 'g \<times> client) res"
  g_io :: "'i \<Rightarrow> 32 word \<Rightarrow> 'g \<Rightarrow> client \<Rightarrow> (unit \<times> 'g \<times> client) res"
  g_destroy :: "'g \<Rightarrow> unit res"

record 'g world =
  cl :: client
  gens :: "nat \<Rightarrow> 'g option"
  created :: nat
  armed :: "int option"

subsection \<open>Calls of a generator\<close>

text \<open>\<open>put\<close> as the last step of a call: with the last reference the generator is deleted.\<close>

definition put_gen :: "('g, 'i) gen_ops \<Rightarrow> nat \<Rightarrow> 'g world \<Rightarrow> 'g world res" where
  "put_gen ops a w =
     rbind (put_ref a (cl w)) (\<lambda>c.
     if freed (refs c a) then
       (case gens w a of
          None \<Rightarrow> Inl (Undefined_behaviour ''use of a deleted generator'')
        | Some g \<Rightarrow> rbind (g_destroy ops g) (\<lambda>_. Inr (w\<lparr>cl := c, gens := (gens w)(a := None)\<rparr>)))
     else Inr (w\<lparr>cl := c\<rparr>))"

text \<open>\<open>send_request\<close> and \<open>run_io\<close> bracket their work with \<open>get\<close> and \<open>put\<close>.\<close>

definition gen_call :: "('g, 'i) gen_ops \<Rightarrow> nat \<Rightarrow> ('g \<Rightarrow> client \<Rightarrow> ('x \<times> 'g \<times> client) res) \<Rightarrow> 'g world \<Rightarrow>
    ('x \<times> 'g world) res" where
  "gen_call ops a f w =
     (case gens w a of
        None \<Rightarrow> Inl (Undefined_behaviour ''use of a deleted generator'')
      | Some g \<Rightarrow>
          rbind (get_ref a (cl w)) (\<lambda>c.
          rbind (f g c) (\<lambda>(x, g, c).
          rbind (put_gen ops a (w\<lparr>cl := c, gens := (gens w)(a \<mapsto> g)\<rparr>)) (\<lambda>w. Inr (x, w)))))"

subsection \<open>Connections\<close>

definition new_connection :: "'i client_env \<Rightarrow> ('g, 'i) gen_ops \<Rightarrow> 'g world \<Rightarrow> (nat \<times> 'g world) res" where
  "new_connection env ops w =
     (let a = created w in
      rbind (g_new ops (c_new env a) a) (\<lambda>g.
      rbind (client_watch (c_watch env a)) (\<lambda>_.
      Inr (a, w\<lparr>gens := (gens w)(a \<mapsto> g), created := a + 1, cl := (cl w)\<lparr>refs := (refs (cl w))(a := gen_new)\<rparr>\<rparr>))))"

fun make_connections :: "'i client_env \<Rightarrow> ('g, 'i) gen_ops \<Rightarrow> nat \<Rightarrow> 'g world \<Rightarrow> 'g world res" where
  "make_connections env ops 0 w = Inr w"
| "make_connections env ops (Suc n) w =
     rbind (new_connection env ops w) (\<lambda>(a, w).
     make_connections env ops n (w\<lparr>cl := (cl w)\<lparr>conns := conns (cl w) @ [a]\<rparr>\<rparr>))"

definition setup_connections :: "'i client_env \<Rightarrow> Config \<Rightarrow> ('g, 'i) gen_ops \<Rightarrow> 'g world \<Rightarrow> 'g world res" where
  "setup_connections env cfg ops w =
     (if conn_mode cfg = PER_REQUEST then Inr w else make_connections env ops (unat (conn_cnt cfg)) w)"

text \<open>The connection of the pool that is next, or that is drawn. \<open>idx\<close> is a static \<open>int\<close> that only grows.\<close>

definition pool_connection :: "'i client_env \<Rightarrow> Config \<Rightarrow> client \<Rightarrow> (nat \<times> client) res" where
  "pool_connection env cfg c =
     (if conn_mode cfg = ROUND_ROBIN then
        let idx = rr_idx c in
        if idx = 2 ^ 31 - 1 then Inl (Undefined_behaviour ''signed overflow'')
        else if conns c = [] then Inl (Undefined_behaviour ''division by zero'')
        else Inr (conns c ! (nat idx mod length (conns c)), c\<lparr>rr_idx := idx + 1\<rparr>)
      else
        let i = c_conn env (sent_count c) in
        if 0 \<le> i \<and> nat i < length (conns c) then Inr (conns c ! nat i, c)
        else Inl (Undefined_behaviour ''vector index out of range''))"

definition get_connection :: "'i client_env \<Rightarrow> Config \<Rightarrow> ('g, 'i) gen_ops \<Rightarrow> 'g world \<Rightarrow> (nat \<times> 'g world) res" where
  "get_connection env cfg ops w =
     (if conn_mode cfg = PER_REQUEST then new_connection env ops w
      else
        rbind (pool_connection env cfg (cl w)) (\<lambda>(a, c).
        rbind (get_ref a c) (\<lambda>c. Inr (a, w\<lparr>cl := c\<rparr>))))"

subsection \<open>Sending\<close>

definition send_request :: "'i client_env \<Rightarrow> Config \<Rightarrow> ('g, 'i) gen_ops \<Rightarrow> 'g world \<Rightarrow> 'g world res" where
  "send_request env cfg ops w0 =
     (let c = cl w0; n = sent_count c;
          w = (if n = pre_samples c
               then w0\<lparr>cl := c\<lparr>results := start_measurements (c_start env n) (results c)\<rparr>\<rparr> else w0);
          meas = (pre_samples c \<le> n \<and> n < pre_samples c + measure_samples c) in
      rbind (get_connection env cfg ops w) (\<lambda>(a, w).
      rbind (gen_call ops a (g_send ops (c_input env n) meas) w) (\<lambda>(bytes, w).
      Inr (if meas then w\<lparr>cl := (cl w)\<lparr>results := sent_bytes bytes (results (cl w))\<rparr>\<rparr> else w))))"

definition count_sent :: "'g world \<Rightarrow> 'g world" where
  "count_sent w = w\<lparr>cl := (cl w)\<lparr>sent_count := sent_count (cl w) + 1\<rparr>\<rparr>"

definition count_missed :: "bool \<Rightarrow> 'g world \<Rightarrow> 'g world" where
  "count_missed late w = (if late then w\<lparr>cl := (cl w)\<lparr>missed_send := missed_send (cl w) + 1\<rparr>\<rparr> else w)"

text \<open>\<open>deadlines_[sent_count_]\<close>\<close>

definition next_deadline :: "client \<Rightarrow> int res" where
  "next_deadline c =
     (if sent_count c < length (schedule c) then Inr (schedule c ! sent_count c)
      else Inl (Undefined_behaviour ''vector index out of range''))"

definition arm_timer :: "'i client_env \<Rightarrow> int \<Rightarrow> 'g world \<Rightarrow> 'g world res" where
  "arm_timer env d w =
     rbind (timer_arm (c_rnd env) (c_timer env (sent_count (cl w))) d) (\<lambda>_. Inr (w\<lparr>armed := Some d\<rparr>))"

partial_function (option) timer_loop :: "'i client_env \<Rightarrow> Config \<Rightarrow> ('g, 'i) gen_ops \<Rightarrow> int \<Rightarrow> nat \<Rightarrow> 'g world \<Rightarrow>
    'g world res option" where
  "timer_loop env cfg ops now looped w =
     (case rbind (next_deadline (cl w)) (\<lambda>t. dur (t - now)) of
        Inl e \<Rightarrow> Some (Inl e)
      | Inr sleep \<Rightarrow>
          if 0 < sleep then Some (arm_timer env sleep w)
          else
            (case send_request env cfg ops
                    (count_missed (0 < looped \<and> sleep < missed_threshold (cl w)) w) of
               Inl e \<Rightarrow> Some (Inl e)
             | Inr w \<Rightarrow>
                 if total_samples (cl w) \<le> sent_count (cl (count_sent w)) then Some (Inr (count_sent w))
                 else timer_loop env cfg ops now (Suc looped) (count_sent w)))"

definition timer_handler :: "'i client_env \<Rightarrow> Config \<Rightarrow> ('g, 'i) gen_ops \<Rightarrow> int \<Rightarrow> 'g world \<Rightarrow> 'g world res option" where
  "timer_handler env cfg ops now_time w =
     obind (Some (dur (now_time - exp_start_time (cl w)))) (\<lambda>now_relative. timer_loop env cfg ops now_relative 0 w)"

definition busy_wait :: "int \<Rightarrow> client \<Rightarrow> int res" where
  "busy_wait now c =
     rbind (next_deadline c) (\<lambda>t. rbind (dur (t + exp_start_time c)) (\<lambda>t. dur (t - now)))"

partial_function (option) busy_loop :: "'i client_env \<Rightarrow> Config \<Rightarrow> ('g, 'i) gen_ops \<Rightarrow> int \<Rightarrow> int \<Rightarrow> 'g world \<Rightarrow>
    'g world res option" where
  "busy_loop env cfg ops now d w =
     (if d \<le> 0 \<and> sent_count (cl w) < total_samples (cl w) then
        (case send_request env cfg ops (count_missed (d < missed_threshold (cl w)) w) of
           Inl e \<Rightarrow> Some (Inl e)
         | Inr w \<Rightarrow>
             (case busy_wait now (cl (count_sent w)) of
                Inl e \<Rightarrow> Some (Inl e)
              | Inr d \<Rightarrow> busy_loop env cfg ops now d (count_sent w)))
      else Some (Inr w))"

definition busy_timer :: "'i client_env \<Rightarrow> Config \<Rightarrow> ('g, 'i) gen_ops \<Rightarrow> int \<Rightarrow> 'g world \<Rightarrow> 'g world res option" where
  "busy_timer env cfg ops now w = obind (Some (busy_wait now (cl w))) (\<lambda>d. busy_loop env cfg ops now d w)"

subsection \<open>The experiment\<close>

text \<open>\<open>draw\<close> are the samples of the inter-arrival times, \<open>start\<close> and \<open>now\<close> two readings of the clock.\<close>

definition setup_experiment :: "'i client_env \<Rightarrow> Config \<Rightarrow> ('g, 'i) gen_ops \<Rightarrow> (nat \<Rightarrow> real) \<Rightarrow> int \<Rightarrow> int \<Rightarrow>
    'g world \<Rightarrow> 'g world res option" where
  "setup_experiment env cfg ops draw start now w =
     obind (Some (setup_connections env cfg ops w)) (\<lambda>w.
     obind (setup_deadlines (c_rnd env) draw cfg) (\<lambda>(ds, pre, meas, post).
     let w = w\<lparr>cl := (cl w)\<lparr>schedule := ds, pre_samples := pre, measure_samples := meas, post_samples := post,
                           total_samples := length ds, exp_start_time := start\<rparr>\<rparr> in
     if \<not> use_busy_timer cfg then timer_handler env cfg ops now w else Some (Inr w)))"

text \<open>What \<open>epoll_wait\<close> returns: an error, or events (the timer's, with the reading of the clock in its handler; a
  socket's, with what the kernel will answer to it), and the reading of the clock in \<open>busy_timer\<close>.\<close>

datatype 'i event = Timer_event int | Socket_event nat "32 word" 'i

datatype 'i wakeup = Wait_error int | Woken "'i event list" int

fun handle_event :: "'i client_env \<Rightarrow> Config \<Rightarrow> ('g, 'i) gen_ops \<Rightarrow> 'i event \<Rightarrow> 'g world \<Rightarrow> 'g world res option" where
  "handle_event env cfg ops (Timer_event now) w =
     (if use_busy_timer cfg then Some (Inl (Runtime_error ''timer event when using busy timer''))
      else timer_handler env cfg ops now w)"
| "handle_event env cfg ops (Socket_event a events i) w =
     Some (rbind (gen_call ops a (g_io ops i events) w) (\<lambda>(_, w). Inr w))"

fun handle_events :: "'i client_env \<Rightarrow> Config \<Rightarrow> ('g, 'i) gen_ops \<Rightarrow> 'i event list \<Rightarrow> 'g world \<Rightarrow> 'g world res option" where
  "handle_events env cfg ops [] w = Some (Inr w)"
| "handle_events env cfg ops (e # es) w = obind (handle_event env cfg ops e w) (handle_events env cfg ops es)"

fun run_wakeup :: "'i client_env \<Rightarrow> Config \<Rightarrow> ('g, 'i) gen_ops \<Rightarrow> 'i wakeup \<Rightarrow> 'g world \<Rightarrow> 'g world res option" where
  "run_wakeup env cfg ops (Wait_error errno) w =
     Some (Inl (System_error errno
       (if use_epoll_spin cfg then ''Client::run: epoll_spin()'' else ''Client::run: epoll_wait()'')))"
| "run_wakeup env cfg ops (Woken es now) w =
     obind (handle_events env cfg ops es w) (\<lambda>w.
     if use_busy_timer cfg then busy_timer env cfg ops now w else Some (Inr w))"

fun run_loop :: "'i client_env \<Rightarrow> Config \<Rightarrow> ('g, 'i) gen_ops \<Rightarrow> 'i wakeup list \<Rightarrow> 'g world \<Rightarrow> 'g world res option" where
  "run_loop env cfg ops [] w = Some (Inr w)"
| "run_loop env cfg ops (x # xs) w = obind (run_wakeup env cfg ops x w) (run_loop env cfg ops xs)"

definition world_new :: "client \<Rightarrow> 'g world" where
  "world_new c = \<lparr>cl = c, gens = (\<lambda>_. None), created = 0, armed = None\<rparr>"

definition client_run :: "'i client_env \<Rightarrow> Config \<Rightarrow> ('g, 'i) gen_ops \<Rightarrow> (nat \<Rightarrow> real) \<Rightarrow> int \<Rightarrow> int \<Rightarrow>
    'i wakeup list \<Rightarrow> client \<Rightarrow> 'g world res option" where
  "client_run env cfg ops draw start now script c =
     obind (setup_experiment env cfg ops draw start now (world_new c)) (run_loop env cfg ops script)"

subsection \<open>What the client relies on\<close>

text \<open>A generator called for a request or an event runs the client's callback for some of its outstanding requests, once for
  each, oldest first, and does nothing else to the client; it does not end the program unless the callback does. \<open>ginv\<close> is the generator's
  own invariant, \<open>qs\<close> its outstanding requests: for each whether it is to be measured. (In send-only mode the callback runs
  although the request stays outstanding.)\<close>

locale client_generator =
  fixes env :: "'i client_env" and cfg :: Config and ops :: "('g, 'i) gen_ops"
    and ginv :: "nat \<Rightarrow> 'g \<Rightarrow> bool" and qs :: "'g \<Rightarrow> bool list"
  assumes new_law: "g_new ops i a = Inr g \<Longrightarrow> ginv a g \<and> qs g = []"
    and send_law: "\<not> send_only cfg \<Longrightarrow> ginv a g \<Longrightarrow> g_send ops i m g c = Inr (n, g', c') \<Longrightarrow>
      ginv a g' \<and> (\<exists>ss. answered env cfg a ss c = Inr c' \<and> map is_measured ss @ qs g' = qs g @ [m])"
    and io_law: "\<not> send_only cfg \<Longrightarrow> ginv a g \<Longrightarrow> g_io ops i ev g c = Inr (x, g', c') \<Longrightarrow>
      ginv a g' \<and> (\<exists>ss. answered env cfg a ss c = Inr c' \<and> map is_measured ss @ qs g' = qs g)"
    and send_end: "\<not> send_only cfg \<Longrightarrow> ginv a g \<Longrightarrow> g_send ops i m g c = Inl e \<Longrightarrow> ends env cfg a (qs g @ [m]) c e"
    and io_end: "\<not> send_only cfg \<Longrightarrow> ginv a g \<Longrightarrow> g_io ops i ev g c = Inl e \<Longrightarrow> ends env cfg a (qs g) c e"
    and new_end: "g_new ops i a = Inl e \<Longrightarrow> no_exit e"
    and destroy_end: "g_destroy ops g = Inl e \<Longrightarrow> no_exit e"

text \<open>The generators that exist are those that are referenced: by the pool, by each outstanding request, and, while a request
  is being sent, by that request (\<open>x\<close>).\<close>

definition world_ok :: "(nat \<Rightarrow> 'g \<Rightarrow> bool) \<Rightarrow> ('g \<Rightarrow> nat) \<Rightarrow> nat option \<Rightarrow> 'g world \<Rightarrow> bool" where
  "world_ok ginv outst x w \<longleftrightarrow>
     (\<forall>a g. gens w a = Some g \<longrightarrow> ginv a g \<and> a < created w \<and> \<not> freed (refs (cl w) a) \<and> 0 < ref_cnt (refs (cl w) a) \<and>
        ref_cnt (refs (cl w) a) =
          (if a \<in> set (conns (cl w)) then 1 else 0) + int (outst g) + (if x = Some a then 1 else 0)) \<and>
     (\<forall>a \<in> set (conns (cl w)). gens w a \<noteq> None) \<and> (\<forall>a. x = Some a \<longrightarrow> gens w a \<noteq> None)"

lemma world_okD:
  assumes "world_ok ginv outst x w"
  shows "gens w a = Some g \<Longrightarrow> ginv a g \<and> a < created w \<and> \<not> freed (refs (cl w) a) \<and> 0 < ref_cnt (refs (cl w) a) \<and>
      ref_cnt (refs (cl w) a) =
        (if a \<in> set (conns (cl w)) then 1 else 0) + int (outst g) + (if x = Some a then 1 else 0)"
    "a \<in> set (conns (cl w)) \<Longrightarrow> gens w a \<noteq> None" "x = Some a \<Longrightarrow> gens w a \<noteq> None"
  using assms unfolding world_ok_def by blast+

lemma world_ok_cong:
  "gens w' = gens w \<Longrightarrow> created w' = created w \<Longrightarrow> conns (cl w') = conns (cl w) \<Longrightarrow> refs (cl w') = refs (cl w) \<Longrightarrow>
    world_ok ginv outst x w' = world_ok ginv outst x w"
  by (simp only: world_ok_def)

definition outstanding :: "('g \<Rightarrow> nat) \<Rightarrow> 'g world \<Rightarrow> nat" where
  "outstanding outst w = (\<Sum>a<created w. case gens w a of None \<Rightarrow> 0 | Some g \<Rightarrow> outst g)"

definition balance :: "('g \<Rightarrow> nat) \<Rightarrow> 'g world \<Rightarrow> nat" where
  "balance outst w = rcvd_count (cl w) + outstanding outst w"

text \<open>How many of the first \<open>n\<close> requests are in the measurement phase. All of those that were sent are recorded or outstanding
  (\<open>counted\<close>).\<close>

definition in_phase :: "client \<Rightarrow> nat \<Rightarrow> bool" where
  "in_phase c i \<longleftrightarrow> pre_samples c \<le> i \<and> i < pre_samples c + measure_samples c"

definition measured_among :: "client \<Rightarrow> nat \<Rightarrow> nat" where
  "measured_among c n = length (filter (in_phase c) [0..<n])"

lemma measured_among_Suc: "measured_among c (Suc n) = measured_among c n + (if in_phase c n then 1 else 0)"
  by (simp add: measured_among_def)

lemma measured_among_all:
  assumes "pre_samples c + measure_samples c \<le> n"
  shows "measured_among c n = measure_samples c"
proof -
  have "{i. i < n \<and> in_phase c i} = {pre_samples c..<pre_samples c + measure_samples c}"
    using assms by (auto simp: in_phase_def)
  then show ?thesis by (simp add: measured_among_def length_filter_conv_card cong: conj_cong)
qed

definition tally :: "('g \<Rightarrow> bool list) \<Rightarrow> 'g world \<Rightarrow> nat \<Rightarrow> bool" where
  "tally qs w k \<longleftrightarrow> samples_ok (cl w) \<and> measure_count (cl w) + outstanding (\<lambda>g. count_list (qs g) True) w = k"

definition counted :: "('g \<Rightarrow> bool list) \<Rightarrow> 'g world \<Rightarrow> bool" where
  "counted qs w \<longleftrightarrow> tally qs w (measured_among (cl w) (sent_count (cl w)))"

lemma tally_cong:
  "gens w' = gens w \<Longrightarrow> created w' = created w \<Longrightarrow> measure_count (cl w') = measure_count (cl w) \<Longrightarrow>
    samples_ok (cl w') = samples_ok (cl w) \<Longrightarrow> tally qs w' = tally qs w"
  by (simp add: tally_def outstanding_def fun_eq_iff)

text \<open>The only exit of the program: status 0, from the callback for the last response, when all requests of the schedule were
  answered (the last one perhaps while it is being sent), with the summary of exactly the measured ones.\<close>

definition finished :: "client \<Rightarrow> client \<Rightarrow> bool" where
  "finished p c \<longleftrightarrow> rcvd_count c = total_samples p \<and> total_samples p \<le> sent_count c + 1 \<and> sent_count c \<le> total_samples p \<and>
     samples_ok c \<and> measure_count c = measured_among p (total_samples p)"

definition completes :: "'i client_env \<Rightarrow> Config \<Rightarrow> client \<Rightarrow> exn \<Rightarrow> bool" where
  "completes env cfg p e \<longleftrightarrow> no_exit e \<or>
     (\<exists>c r. e = Exit 0 (Summary r (record_iatimes cfg (schedule p))) \<and> print_summary (c_rnd env) cfg c = Inr r \<and> finished p c)"

text \<open>A result is a world that satisfies \<open>P\<close>, or an exception, which is no exit except for that one.\<close>

definition result_ok :: "'i client_env \<Rightarrow> Config \<Rightarrow> client \<Rightarrow> ('g world \<Rightarrow> bool) \<Rightarrow> 'g world res \<Rightarrow> bool" where
  "result_ok env cfg p P r \<longleftrightarrow> (case r of Inl e \<Rightarrow> completes env cfg p e | Inr w \<Rightarrow> P w)"

lemma result_ok_simps [simp]:
  "result_ok env cfg p P (Inr w) = P w" "result_ok env cfg p P (Inl e) = completes env cfg p e"
  "no_exit e \<Longrightarrow> completes env cfg p e"
  by (simp_all add: result_ok_def completes_def)

lemma result_ok_conj: "result_ok env cfg p (\<lambda>w. P w \<and> Q w) r \<Longrightarrow> result_ok env cfg p Q r"
  by (cases r) auto

definition same_course :: "client \<Rightarrow> client \<Rightarrow> bool" where
  "same_course c d \<longleftrightarrow> same_plan (c\<lparr>rr_idx := 0\<rparr>) (d\<lparr>rr_idx := 0\<rparr>)"

lemma same_course_plan: "same_plan c d \<Longrightarrow> same_course c d"
  by (simp add: same_course_def same_plan_def)

lemma same_course_trans: "same_course c d \<Longrightarrow> same_course d e \<Longrightarrow> same_course c e"
  by (simp add: same_course_def same_plan_def)

lemma outstanding_upd:
  assumes "gens w a = Some g" "a < created w" "created w' = created w" "gens w' = (gens w)(a := y)"
  shows "outstanding outst w' + outst g = outstanding outst w + (case y of None \<Rightarrow> 0 | Some g' \<Rightarrow> outst g')"
proof -
  let ?f = "\<lambda>w b. case gens w b of None \<Rightarrow> 0 | Some g \<Rightarrow> outst g"
  have s: "{..<created w} = insert a ({..<created w} - {a})" using assms(2) by auto
  have "(\<Sum>b \<in> {..<created w} - {a}. ?f w' b) = (\<Sum>b \<in> {..<created w} - {a}. ?f w b)"
    using assms(4) by (intro sum.cong) auto
  moreover have "outstanding outst w = ?f w a + (\<Sum>b \<in> {..<created w} - {a}. ?f w b)"
    unfolding outstanding_def by (subst s) (simp add: sum.insert_remove)
  moreover have "outstanding outst w' = ?f w' a + (\<Sum>b \<in> {..<created w} - {a}. ?f w' b)"
    unfolding outstanding_def assms(3) by (subst s) (simp add: sum.insert_remove)
  ultimately show ?thesis using assms(1,4) by simp
qed

text \<open>When all outstanding requests belong to one generator, so do the measured ones.\<close>

lemma outstanding_alone:
  assumes "gens w a = Some g" "a < created w" "outstanding f w \<le> f g" "\<And>g. h g \<le> f g"
  shows "outstanding f w = f g \<and> outstanding h w = h g"
proof -
  let ?s = "\<lambda>f :: 'a \<Rightarrow> nat. \<Sum>b \<in> {..<created w} - {a}. case gens w b of None \<Rightarrow> 0 | Some g \<Rightarrow> f g"
  have s: "outstanding f w = f g + ?s f" for f
    unfolding outstanding_def using assms(1,2) by (subst sum.remove [of _ a]) simp_all
  have "?s h \<le> ?s f" using assms(4) by (intro sum_mono) (simp split: option.splits)
  with s [of f] s [of h] assms(3) show ?thesis by simp
qed

lemma put_gen_steps:
  assumes "put_gen ops a w = Inr w'" "gens w a = Some g"
  obtains h where "gen_put (refs (cl w) a) = Inr h"
    "w' = w\<lparr>cl := (cl w)\<lparr>refs := (refs (cl w))(a := h)\<rparr>, gens := (if freed h then (gens w)(a := None) else gens w)\<rparr>"
proof -
  from assms(1) obtain c where c: "put_ref a (cl w) = Inr c" by (auto simp: put_gen_def rbind_eq_Inr)
  obtain h where h: "gen_put (refs (cl w) a) = Inr h" "c = (cl w)\<lparr>refs := (refs (cl w))(a := h)\<rparr>"
    using put_ref_Inr [OF c] by blast
  from assms c h(2) have "w' = w\<lparr>cl := c, gens := (if freed h then (gens w)(a := None) else gens w)\<rparr>"
    by (auto simp: put_gen_def rbind_eq_Inr split: if_splits)
  with h show ?thesis by (intro that [of h]) simp_all
qed

lemma gen_call_steps:
  assumes "gen_call ops a f w = Inr (x, w')"
  obtains g g' c' w1 where "gens w a = Some g" "\<not> freed (refs (cl w) a)"
    "f g ((cl w)\<lparr>refs := (refs (cl w))(a := (refs (cl w) a)\<lparr>ref_cnt := ref_cnt (refs (cl w) a) + 1\<rparr>)\<rparr>) = Inr (x, g', c')"
    "w1 = w\<lparr>cl := c', gens := (gens w)(a \<mapsto> g')\<rparr>" "put_gen ops a w1 = Inr w'"
proof -
  from assms obtain g c g' c' where 1: "gens w a = Some g" "get_ref a (cl w) = Inr c" "f g c = Inr (x, g', c')"
    "put_gen ops a (w\<lparr>cl := c', gens := (gens w)(a \<mapsto> g')\<rparr>) = Inr w'"
    by (auto simp: gen_call_def rbind_eq_Inr split: option.splits)
  obtain h where h: "gen_get (refs (cl w) a) = Inr h" "c = (cl w)\<lparr>refs := (refs (cl w))(a := h)\<rparr>"
    using get_ref_Inr [OF 1(2)] by blast
  from gen_get_Inr [OF h(1)] h(2) 1 show ?thesis by (intro that [of g]) auto
qed

text \<open>What changes only by requests: between \<open>w\<close> and \<open>w'\<close> \<open>k\<close> requests were sent.\<close>

definition same_times :: "client \<Rightarrow> client \<Rightarrow> bool" where
  "same_times c d \<longleftrightarrow> same_course (c\<lparr>sent_count := 0, missed_send := 0\<rparr>) (d\<lparr>sent_count := 0, missed_send := 0\<rparr>)"

lemma same_timesD:
  "same_times c d \<Longrightarrow> schedule d = schedule c \<and> total_samples d = total_samples c \<and> exp_start_time d = exp_start_time c \<and>
    missed_threshold d = missed_threshold c \<and> conns d = conns c \<and> pre_samples d = pre_samples c \<and>
    measure_samples d = measure_samples c"
  by (simp add: same_times_def same_course_def same_plan_def)

lemma same_times_trans: "same_times c d \<Longrightarrow> same_times d e \<Longrightarrow> same_times c e"
  by (simp add: same_times_def same_course_def same_plan_def)

lemma completes_cong: "same_times p q \<Longrightarrow> completes env cfg q e = completes env cfg p e"
  by (simp add: completes_def finished_def measured_among_def in_phase_def [abs_def] same_times_def same_course_def same_plan_def)

lemma result_ok_mono:
  "result_ok env cfg q P r \<Longrightarrow> same_times p q \<Longrightarrow> (\<And>w. P w \<Longrightarrow> Q w) \<Longrightarrow> result_ok env cfg p Q r"
  by (cases r) (auto simp: completes_cong)

definition advanced :: "(nat \<Rightarrow> 'g \<Rightarrow> bool) \<Rightarrow> ('g \<Rightarrow> bool list) \<Rightarrow> Config \<Rightarrow> nat \<Rightarrow> 'g world \<Rightarrow> 'g world \<Rightarrow> bool" where
  "advanced ginv qs cfg k w w' \<longleftrightarrow> world_ok ginv (\<lambda>g. length (qs g)) None w' \<and>
     balance (\<lambda>g. length (qs g)) w' = balance (\<lambda>g. length (qs g)) w + k \<and> (counted qs w \<longrightarrow> counted qs w') \<and>
     sent_count (cl w') = sent_count (cl w) + k \<and> same_times (cl w) (cl w') \<and>
     (rcvd_count (cl w') = rcvd_count (cl w) \<or> rcvd_count (cl w') < total_samples (cl w')) \<and>
     (conn_mode cfg = ROUND_ROBIN \<longrightarrow> rr_idx (cl w') = rr_idx (cl w) + int k \<and>
        (rr_idx (cl w) < 2 ^ 31 \<longrightarrow> rr_idx (cl w') < 2 ^ 31))"

lemma advanced_refl: "world_ok ginv (\<lambda>g. length (qs g)) None w \<Longrightarrow> advanced ginv qs cfg 0 w w"
  by (simp add: advanced_def same_times_def same_course_def)

lemma advanced_trans:
  "advanced ginv qs cfg j w w1 \<Longrightarrow> advanced ginv qs cfg k w1 w' \<Longrightarrow> advanced ginv qs cfg (j + k) w w'"
  by (auto simp: advanced_def same_times_def same_course_def same_plan_def)

text \<open>The timer handler sent the requests from \<open>s\<close> to before \<open>s'\<close>: those that were due; and set the timer for the next.\<close>

definition timer_outcome :: "(nat \<Rightarrow> 'g \<Rightarrow> bool) \<Rightarrow> ('g \<Rightarrow> bool list) \<Rightarrow> Config \<Rightarrow> int \<Rightarrow> nat \<Rightarrow> 'g world \<Rightarrow> 'g world \<Rightarrow> bool" where
  "timer_outcome ginv qs cfg now looped w w' \<longleftrightarrow>
     (let s = sent_count (cl w); s' = sent_count (cl w'); sch = schedule (cl w) in
      s \<le> s' \<and> s' \<le> length sch \<and> advanced ginv qs cfg (s' - s) w w' \<and> (\<forall>k \<in> {s..<s'}. sch ! k \<le> now) \<and>
      (if s' < length sch then now < sch ! s' \<and> armed w' = Some (sch ! s' - now) else s < s' \<and> armed w' = armed w) \<and>
      missed_send (cl w') = missed_send (cl w) +
        length (filter (\<lambda>k. (0 < looped \<or> s < k) \<and> sch ! k - now < missed_threshold (cl w)) [s..<s']))"

definition busy_outcome :: "(nat \<Rightarrow> 'g \<Rightarrow> bool) \<Rightarrow> ('g \<Rightarrow> bool list) \<Rightarrow> Config \<Rightarrow> int \<Rightarrow> 'g world \<Rightarrow> 'g world \<Rightarrow> bool" where
  "busy_outcome ginv qs cfg now w w' \<longleftrightarrow>
     (let s = sent_count (cl w); s' = sent_count (cl w'); sch = schedule (cl w); start = exp_start_time (cl w) in
      s \<le> s' \<and> s' < length sch \<and> advanced ginv qs cfg (s' - s) w w' \<and> (\<forall>k \<in> {s..<s'}. sch ! k + start \<le> now) \<and>
      now < sch ! s' + start \<and> armed w' = armed w \<and>
      missed_send (cl w') = missed_send (cl w) +
        length (filter (\<lambda>k. sch ! k + start - now < missed_threshold (cl w)) [s..<s']))"

text \<open>The next \<open>k\<close> requests one after the other, counted as missed where they are late, whatever is due.\<close>

fun send_next :: "'i client_env \<Rightarrow> Config \<Rightarrow> ('g, 'i) gen_ops \<Rightarrow> int \<Rightarrow> nat \<Rightarrow> 'g world \<Rightarrow> 'g world res" where
  "send_next env cfg ops now 0 w = Inr w"
| "send_next env cfg ops now (Suc k) w =
     rbind (dur (schedule (cl w) ! sent_count (cl w) + exp_start_time (cl w))) (\<lambda>t.
     rbind (dur (t - now)) (\<lambda>d.
     rbind (send_request env cfg ops (count_missed (d < missed_threshold (cl w)) w)) (\<lambda>w.
     send_next env cfg ops now k (count_sent w))))"

text \<open>The plan of the experiment: the schedule, its phases, the start and the pool.\<close>

definition planned :: "Config \<Rightarrow> int list \<times> nat \<times> nat \<times> nat \<Rightarrow> int \<Rightarrow> client \<Rightarrow> bool" where
  "planned cfg = (\<lambda>(ds, pre, meas, post) start p. schedule p = ds \<and> total_samples p = length ds \<and> pre_samples p = pre \<and>
     measure_samples p = meas \<and> post_samples p = post \<and> exp_start_time p = start \<and>
     conns p = (if conn_mode cfg = PER_REQUEST then [] else [0..<unat (conn_cnt cfg)]))"

context client_generator
begin

abbreviation "outst \<equiv> \<lambda>g. length (qs g)"
abbreviation "ok \<equiv> world_ok ginv outst"
abbreviation "bal \<equiv> balance outst"

text \<open>A call gives back exactly the references of the requests it answers.\<close>

lemma call_keeps:
  assumes "ok x w" "x = None \<and> fs = [] \<or> x = Some a \<and> fs = [m]" "gen_call ops a f w = Inr (r, w')"
    and law: "\<And>g c g' c'. ginv a g \<Longrightarrow> f g c = Inr (r, g', c') \<Longrightarrow>
      ginv a g' \<and> (\<exists>ss. answered env cfg a ss c = Inr c' \<and> map is_measured ss @ qs g' = qs g @ fs)"
  shows "ok None w' \<and> bal w' = bal w + length fs \<and> (\<forall>k. tally qs w k \<longrightarrow> tally qs w' (k + count_list fs True)) \<and> same_plan (cl w) (cl w') \<and> armed w' = armed w \<and>
    (rcvd_count (cl w') = rcvd_count (cl w) \<or> rcvd_count (cl w') < total_samples (cl w'))"
proof -
  from assms(3) obtain g g' c' w1 where st: "gens w a = Some g" "\<not> freed (refs (cl w) a)"
    "f g ((cl w)\<lparr>refs := (refs (cl w))(a := (refs (cl w) a)\<lparr>ref_cnt := ref_cnt (refs (cl w) a) + 1\<rparr>)\<rparr>) = Inr (r, g', c')"
    "w1 = w\<lparr>cl := c', gens := (gens w)(a \<mapsto> g')\<rparr>" "put_gen ops a w1 = Inr w'" by (rule gen_call_steps)
  let ?c = "(cl w)\<lparr>refs := (refs (cl w))(a := (refs (cl w) a)\<lparr>ref_cnt := ref_cnt (refs (cl w) a) + 1\<rparr>)\<rparr>"
  have g: "ginv a g" "a < created w" "ref_cnt (refs (cl w) a) =
      (if a \<in> set (conns (cl w)) then 1 else 0) + int (outst g) + (if x = Some a then 1 else 0)"
    using assms(1) st(1) unfolding world_ok_def by blast+
  obtain ss where ss: "ginv a g'" "answered env cfg a ss ?c = Inr c'" "map is_measured ss @ qs g' = qs g @ fs"
    using law [OF g(1) st(3)] by blast
  have len: "outst g' + length ss = outst g + length fs" "length fs = (if x = Some a then 1 else 0)"
    "count_list (qs g') True + count_list (map is_measured ss) True = count_list (qs g) True + count_list fs True"
    using arg_cong [OF ss(3), of length] arg_cong [OF ss(3), of "\<lambda>xs. count_list xs True"] assms(2) by auto
  note a = answered_Inr [OF ss(2)]
  have plan: "same_plan (cl w) c'" using a by (simp add: same_plan_def)
  then have conns: "conns c' = conns (cl w)" by (simp add: same_plan_def)
  let ?base = "(if a \<in> set (conns (cl w)) then 1 else 0) :: int"
  have cnt: "ref_cnt (refs c' a) = ?base + int (outst g') + 1" using a g(3) len(1,2) by auto
  have others: "refs c' b = refs (cl w) b" if "b \<noteq> a" for b using a that by simp
  have "gens w1 a = Some g'" using st(4) by simp
  from put_gen_steps [OF st(5) this] obtain h where h0: "gen_put (refs (cl w1) a) = Inr h"
    "w' = w1\<lparr>cl := (cl w1)\<lparr>refs := (refs (cl w1))(a := h)\<rparr>, gens := (if freed h then (gens w1)(a := None) else gens w1)\<rparr>" .
  have h: "gen_put (refs c' a) = Inr h"
    "w' = w\<lparr>cl := c'\<lparr>refs := (refs c')(a := h)\<rparr>,
            gens := (if freed h then (gens w)(a := None) else (gens w)(a \<mapsto> g'))\<rparr>"
    using h0 st(4) by (cases "freed h"; simp)+
  have hh: "ref_cnt h = ?base + int (outst g')" "freed h = (ref_cnt h = 0)" using gen_put_Inr [OF h(1)] cnt by auto
  have "ok None w'"
    unfolding world_ok_def
  proof (intro conjI allI ballI impI)
    fix b gb assume b: "gens w' b = Some gb"
    show "ginv b gb" "b < created w'" "\<not> freed (refs (cl w') b)" "0 < ref_cnt (refs (cl w') b)"
      "ref_cnt (refs (cl w') b) =
        (if b \<in> set (conns (cl w')) then 1 else 0) + int (outst gb) + (if None = Some b then 1 else 0)"
      using b h(2) hh ss(1) g(2) others assms(1,2) conns unfolding world_ok_def
      by (cases "b = a"; auto split: if_splits)+
  next
    fix b assume "b \<in> set (conns (cl w'))"
    then have "b \<in> set (conns (cl w))" using h(2) conns by simp
    with assms(1) hh show "gens w' b \<noteq> None" unfolding world_ok_def using h(2) by auto
  qed simp
  moreover have "bal w' = bal w + length fs \<and> (\<forall>k. tally qs w k \<longrightarrow> tally qs w' (k + count_list fs True))"
  proof -
    have "qs g' = []" if "freed h" using hh that by (auto split: if_splits)
    then have upd: "outstanding f w' + f g = outstanding f w + f g'" if "\<And>g. qs g = [] \<Longrightarrow> f g = 0" for f :: "'g \<Rightarrow> nat"
      using outstanding_upd [of w a g w' "if freed h then None else Some g'" f] st(1) g(2) h(2) that
      by (auto split: if_splits)
    have "rcvd_count (cl w') = rcvd_count (cl w) + length ss" using a h(2) by simp
    moreover have "outstanding outst w' + outst g = outstanding outst w + outst g'" by (rule upd) simp
    moreover have "outstanding (\<lambda>g. count_list (qs g) True) w' + count_list (qs g) True =
        outstanding (\<lambda>g. count_list (qs g) True) w + count_list (qs g') True" by (rule upd) simp
    moreover have "measure_count (cl w') = measure_count (cl w) + count_list (map is_measured ss) True"
      "samples_ok (cl w) \<longrightarrow> samples_ok (cl w')" using a h(2) by (simp_all add: samples_ok_def)
    ultimately show ?thesis using len by (simp add: balance_def tally_def)
  qed
  moreover have "same_plan (cl w) (cl w')" "armed w' = armed w" using plan h(2) by (simp_all add: same_plan_def)
  moreover have "rcvd_count (cl w') = rcvd_count (cl w) \<or> rcvd_count (cl w') < total_samples (cl w')"
    using a h(2) by (cases "ss = []") auto
  ultimately show ?thesis by blast
qed

lemma outst_le: "gens w a = Some g \<Longrightarrow> a < created w \<Longrightarrow> outst g \<le> outstanding outst w"
  unfolding outstanding_def
  using member_le_sum [of a "{..<created w}" "\<lambda>b. case gens w b of None \<Rightarrow> 0 | Some g \<Rightarrow> outst g"] by simp

text \<open>A call that ends the program does so with the last outstanding response.\<close>

lemma call_completes:
  assumes "ok x w" "x = None \<and> fs = [] \<or> x = Some a \<and> fs = [m]" "gen_call ops a f w = Inl e"
    and "bal w + length fs \<le> total_samples (cl w)" "bal w + length fs \<le> sent_count (cl w) + 1"
    and "sent_count (cl w) \<le> total_samples (cl w)"
    and "tally qs w k" "k + count_list fs True = measured_among (cl w) (bal w + length fs)"
    and law: "\<And>g c. ginv a g \<Longrightarrow> f g c = Inl e \<Longrightarrow> ends env cfg a (qs g @ fs) c e"
  shows "completes env cfg (cl w) e"
proof -
  have "no_exit e \<or> (\<exists>g c. gens w a = Some g \<and> get_ref a (cl w) = Inr c \<and> f g c = Inl e)"
    using assms(3) destroy_end
    by (auto simp: gen_call_def put_gen_def rbind_eq_Inl dest: exits split: option.splits if_splits)
  then show ?thesis
  proof (elim disjE exE conjE)
    fix g c assume g: "gens w a = Some g" "get_ref a (cl w) = Inr c" "f g c = Inl e"
    have i: "ginv a g" "a < created w" using world_okD(1) [OF assms(1) g(1)] by simp_all
    have c: "same_plan (cl w) c" "rcvd_count c = rcvd_count (cl w)" "measure_count c = measure_count (cl w)"
      "samples_ok c = samples_ok (cl w)" using get_ref_Inr [OF g(2)] by (auto simp: same_plan_def samples_ok_def)
    show ?thesis
    proof (cases "no_exit e")
      case False
      then obtain n out where n: "e = Exit n out" by (auto simp: no_exit_def)
      obtain ss s c1 rest where s: "answered env cfg a ss c = Inr c1" "recorded env cfg a s c1 = Inl (Exit n out)"
        "qs g @ fs = map is_measured ss @ is_measured s # rest"
        using law [OF i(1) g(3)] False n by (auto simp: ends_def)
      have len: "outst g + length fs = length ss + 1 + length rest"
        "count_list (qs g) True + count_list fs True =
          count_list (map is_measured ss) True + (if is_measured s then 1 else 0) + count_list rest True"
        using arg_cong [OF s(3), of length] arg_cong [OF s(3), of "\<lambda>xs. count_list xs True"] by auto
      note r = answered_Inr [OF s(1)]
      obtain d p where d: "out = Summary p (record_iatimes cfg (schedule c1))" "print_summary (c_rnd env) cfg d = Inr p" "n = 0"
        "same_plan c1 d" "rcvd_count d = rcvd_count c1 + 1" "total_samples c1 \<le> rcvd_count d"
        "measure_count d = measure_count c1 + (if is_measured s then 1 else 0)" "samples_ok c1 \<longrightarrow> samples_ok d"
        using recorded_exit [OF s(2)] by blast
      have plan: "same_plan (cl w) d" "same_plan (cl w) c1"
        using same_plan_trans [OF c(1)] same_plan_trans [OF _ d(4)] r by blast+
      then have eq: "sent_count d = sent_count (cl w)" "total_samples c1 = total_samples (cl w)"
        "schedule c1 = schedule (cl w)" by (simp_all add: same_plan_def)
      have cnt: "rcvd_count d = rcvd_count (cl w) + length ss + 1" using d(5) c(2) r by simp
      have "outstanding outst w + length fs \<le> length ss + 1"
        using d(6) cnt eq(2) assms(4) by (simp add: balance_def)
      moreover have "outst g \<le> outstanding outst w" by (rule outst_le [OF g(1) i(2)])
      ultimately have "length rest = 0" and le: "outstanding outst w \<le> outst g" using len(1) by linarith+
      then have rest: "rest = []" by simp
      have alone: "outstanding outst w = outst g \<and> outstanding (\<lambda>g. count_list (qs g) True) w = count_list (qs g) True"
        by (rule outstanding_alone [OF g(1) i(2)]) (simp_all add: le count_le_length)
      have total: "bal w + length fs = total_samples (cl w)" "rcvd_count d = total_samples (cl w)"
        using alone len(1) rest cnt d(6) eq(2) assms(4) by (simp_all add: balance_def)
      have "measure_count d = measured_among (cl w) (total_samples (cl w))"
        using d(7) r c(3) len(2) rest alone assms(7,8) total(1) by (simp add: tally_def)
      moreover have "samples_ok d" using d(8) r c(4) assms(7) by (simp add: tally_def)
      ultimately have "finished (cl w) d"
        using total eq(1) assms(5,6) by (simp add: finished_def)
      with d(1-3) n eq(3) show ?thesis unfolding completes_def by auto
    qed (simp add: completes_def)
  qed (simp add: completes_def)
qed

lemma new_connection_keeps:
  assumes "ok None w" "new_connection env ops w = Inr (a, w')"
  shows "ok (Some a) w' \<and> bal w' = bal w \<and> tally qs w' = tally qs w \<and> same_plan (cl w) (cl w') \<and> armed w' = armed w \<and>
    rcvd_count (cl w') = rcvd_count (cl w) \<and> a = created w \<and> created w' = created w + 1"
proof -
  from assms(2) obtain g where g: "g_new ops (c_new env (created w)) (created w) = Inr g" "a = created w"
    "w' = w\<lparr>gens := (gens w)(a \<mapsto> g), created := a + 1, cl := (cl w)\<lparr>refs := (refs (cl w))(a := gen_new)\<rparr>\<rparr>"
    by (auto simp: new_connection_def Let_def rbind_eq_Inr)
  have gi: "ginv a g" "qs g = []" using new_law [OF g(1)] g(2) by simp_all
  have fresh: "gens w (created w) = None"
    using assms(1) unfolding world_ok_def by (metis less_irrefl option.exhaust)
  then have np: "a \<notin> set (conns (cl w))" using assms(1) g(2) unfolding world_ok_def by blast
  have "ok (Some a) w'"
    unfolding world_ok_def
  proof (intro conjI allI ballI impI)
    fix b gb assume b: "gens w' b = Some gb"
    show "ginv b gb" "b < created w'" "\<not> freed (refs (cl w') b)" "0 < ref_cnt (refs (cl w') b)"
      "ref_cnt (refs (cl w') b) =
        (if b \<in> set (conns (cl w')) then 1 else 0) + int (outst gb) + (if Some a = Some b then 1 else 0)"
      using b g(2,3) gi np assms(1) unfolding world_ok_def
      by (cases "b = a"; auto simp: gen_new_def split: if_splits intro: less_SucI)+
  next
    fix b assume "b \<in> set (conns (cl w'))"
    then show "gens w' b \<noteq> None" using assms(1) g(3) unfolding world_ok_def by auto
  next
    fix b assume "Some a = Some b"
    then show "gens w' b \<noteq> None" using g(3) by simp
  qed
  moreover have "bal w' = bal w \<and> tally qs w' = tally qs w"
  proof -
    have "outstanding f w' = outstanding f w" if "f g = 0" for f :: "'g \<Rightarrow> nat"
      unfolding outstanding_def using g(2,3) that by (simp add: lessThan_Suc)
    then show ?thesis using g(3) gi(2) by (simp add: balance_def tally_def samples_ok_def fun_eq_iff)
  qed
  ultimately show ?thesis using g(2,3) by (simp add: same_plan_def)
qed

lemma pool_add: "ok (Some a) w \<Longrightarrow> a \<notin> set (conns (cl w)) \<Longrightarrow>
    ok None (w\<lparr>cl := (cl w)\<lparr>conns := conns (cl w) @ [a]\<rparr>\<rparr>)"
  unfolding world_ok_def [of _ _ None] by (auto dest: world_okD)

lemma make_connections_keeps:
  assumes "make_connections env ops n w = Inr w'" "ok None w"
  shows "ok None w' \<and> bal w' = bal w \<and> tally qs w' = tally qs w \<and> rcvd_count (cl w') = rcvd_count (cl w) \<and>
    sent_count (cl w') = sent_count (cl w) \<and> rr_idx (cl w') = rr_idx (cl w) \<and> missed_send (cl w') = missed_send (cl w) \<and>
    conns (cl w') = conns (cl w) @ [created w..<created w + n]"
  using assms
proof (induction n arbitrary: w)
  case (Suc n)
  from Suc.prems(1) obtain a w1 where n: "new_connection env ops w = Inr (a, w1)"
    "make_connections env ops n (w1\<lparr>cl := (cl w1)\<lparr>conns := conns (cl w1) @ [a]\<rparr>\<rparr>) = Inr w'"
    by (auto simp: rbind_eq_Inr)
  note k = new_connection_keeps [OF Suc.prems(2) n(1)]
  have "a \<notin> set (conns (cl w1))"
  proof
    assume "a \<in> set (conns (cl w1))"
    then have "a \<in> set (conns (cl w))" using k by (simp add: same_plan_def)
    then obtain g where "gens w a = Some g" using Suc.prems(2) unfolding world_ok_def by blast
    then show False using Suc.prems(2) k unfolding world_ok_def by auto
  qed
  then have "ok None (w1\<lparr>cl := (cl w1)\<lparr>conns := conns (cl w1) @ [a]\<rparr>\<rparr>)" using pool_add k by blast
  from Suc.IH [OF n(2) this] k show ?case
    by (auto simp: balance_def outstanding_def same_plan_def upt_rec tally_def samples_ok_def fun_eq_iff)
qed simp

lemma get_connection_keeps:
  assumes "ok None w" "get_connection env cfg ops w = Inr (a, w')"
  shows "ok (Some a) w' \<and> bal w' = bal w \<and> tally qs w' = tally qs w \<and> same_course (cl w) (cl w') \<and> armed w' = armed w \<and>
    rcvd_count (cl w') = rcvd_count (cl w) \<and>
    rr_idx (cl w') = rr_idx (cl w) + (if conn_mode cfg = ROUND_ROBIN then 1 else 0) \<and>
    (conn_mode cfg = ROUND_ROBIN \<longrightarrow> rr_idx (cl w) \<noteq> 2 ^ 31 - 1)"
proof (cases "conn_mode cfg = PER_REQUEST")
  case True
  with new_connection_keeps [OF assms(1), of a w'] assms(2) show ?thesis
    by (auto simp: get_connection_def same_course_def same_plan_def)
next
  case False
  with assms(2) obtain c d where c: "pool_connection env cfg (cl w) = Inr (a, c)" "get_ref a c = Inr d" "w' = w\<lparr>cl := d\<rparr>"
    by (auto simp: get_connection_def rbind_eq_Inr)
  have p: "a \<in> set (conns (cl w))" "c = (cl w)\<lparr>rr_idx := rr_idx (cl w) + (if conn_mode cfg = ROUND_ROBIN then 1 else 0)\<rparr>"
    "conn_mode cfg = ROUND_ROBIN \<longrightarrow> rr_idx (cl w) \<noteq> 2 ^ 31 - 1"
    using c(1) by (auto simp: pool_connection_def Let_def split: if_splits)
  obtain h where h: "gen_get (refs c a) = Inr h" "d = c\<lparr>refs := (refs c)(a := h)\<rparr>" using get_ref_Inr [OF c(2)] by blast
  have h2: "h = (refs (cl w) a)\<lparr>ref_cnt := ref_cnt (refs (cl w) a) + 1\<rparr>" using gen_get_Inr [OF h(1)] p(2) by simp
  have w': "gens w' = gens w" "created w' = created w" "conns (cl w') = conns (cl w)" "refs (cl w') = (refs (cl w))(a := h)"
    using c(3) h(2) p(2) by simp_all
  have "gens w a \<noteq> None" using assms(1) p(1) unfolding world_ok_def by blast
  then have "ok (Some a) w'"
    using assms(1) p(1) unfolding world_ok_def [of _ _ "Some a"] w' h2 by (auto dest: world_okD)
  moreover have "bal w' = bal w" "tally qs w' = tally qs w"
    using w' c(3) h(2) p(2) by (simp_all add: balance_def outstanding_def tally_def samples_ok_def fun_eq_iff)
  ultimately show ?thesis using c(3) h(2) p(2,3) by (simp add: same_course_def same_plan_def)
qed

lemma send_request_keeps:
  assumes "\<not> send_only cfg" "ok None w" "send_request env cfg ops w = Inr w'"
  shows "ok None w' \<and> bal w' = bal w + 1 \<and>
    (\<forall>k. tally qs w k \<longrightarrow> tally qs w' (k + (if in_phase (cl w) (sent_count (cl w)) then 1 else 0))) \<and> same_course (cl w) (cl w') \<and> armed w' = armed w \<and>
    (rcvd_count (cl w') = rcvd_count (cl w) \<or> rcvd_count (cl w') < total_samples (cl w')) \<and>
    rr_idx (cl w') = rr_idx (cl w) + (if conn_mode cfg = ROUND_ROBIN then 1 else 0) \<and>
    (conn_mode cfg = ROUND_ROBIN \<longrightarrow> rr_idx (cl w) \<noteq> 2 ^ 31 - 1)"
proof -
  define n where "n = sent_count (cl w)"
  define meas where "meas \<longleftrightarrow> pre_samples (cl w) \<le> n \<and> n < pre_samples (cl w) + measure_samples (cl w)"
  define w1 where "w1 = (if n = pre_samples (cl w)
    then w\<lparr>cl := (cl w)\<lparr>results := start_measurements (c_start env n) (results (cl w))\<rparr>\<rparr> else w)"
  from assms(3) obtain a w2 bytes w3 where st: "get_connection env cfg ops w1 = Inr (a, w2)"
    "gen_call ops a (g_send ops (c_input env n) meas) w2 = Inr (bytes, w3)"
    "w' = (if meas then w3\<lparr>cl := (cl w3)\<lparr>results := sent_bytes bytes (results (cl w3))\<rparr>\<rparr> else w3)"
    unfolding send_request_def Let_def n_def [symmetric] w1_def [symmetric] meas_def [symmetric]
    by (auto simp: rbind_eq_Inr)
  have 1: "ok None w1" "bal w1 = bal w" "same_course (cl w) (cl w1)" "rcvd_count (cl w1) = rcvd_count (cl w)"
    "rr_idx (cl w1) = rr_idx (cl w)" "armed w1 = armed w" "tally qs w1 = tally qs w"
    using tally_cong [of w1 w qs] assms(2) world_ok_cong [of w1 w ginv outst None] by (simp_all add: w1_def balance_def outstanding_def same_course_def same_plan_def samples_ok_def start_measurements_def)
  note 2 = get_connection_keeps [OF 1(1) st(1)]
  have "ok None w3 \<and> bal w3 = bal w2 + 1 \<and> (\<forall>k. tally qs w2 k \<longrightarrow> tally qs w3 (k + count_list [meas] True)) \<and> same_plan (cl w2) (cl w3) \<and> armed w3 = armed w2 \<and>
    (rcvd_count (cl w3) = rcvd_count (cl w2) \<or> rcvd_count (cl w3) < total_samples (cl w3))"
    using call_keeps [of "Some a" w2 "[meas]" a meas "g_send ops (c_input env n) meas" bytes w3] 2 st(2) send_law [OF assms(1)] by auto
  moreover have "ok None w' = ok None w3" "bal w' = bal w3" "same_plan (cl w3) (cl w')" "rcvd_count (cl w') = rcvd_count (cl w3)"
    "total_samples (cl w') = total_samples (cl w3)" "armed w' = armed w3" "tally qs w' = tally qs w3"
    using st(3) world_ok_cong [of w' w3 ginv outst None] tally_cong [of w' w3 qs]
    by (simp_all add: balance_def outstanding_def same_plan_def samples_ok_def sent_bytes_def)
  moreover have "count_list [meas] True = (if in_phase (cl w) (sent_count (cl w)) then 1 else 0)"
    by (simp add: meas_def n_def in_phase_def)
  ultimately show ?thesis using 1 2 by (auto simp: same_course_def same_plan_def)
qed

abbreviation "adv \<equiv> advanced ginv qs cfg"

lemma send_one:
  assumes "\<not> send_only cfg" "ok None w" "send_request env cfg ops (count_missed late w) = Inr w1"
  shows "adv 1 w (count_sent w1) \<and> armed (count_sent w1) = armed w \<and> sent_count (cl (count_sent w1)) = sent_count (cl w) + 1 \<and>
    missed_send (cl (count_sent w1)) = missed_send (cl w) + (if late then 1 else 0) \<and>
    sent_count (cl w1) = sent_count (cl w) \<and> total_samples (cl w1) = total_samples (cl w)"
proof -
  let ?w = "count_missed late w"
  have 0: "ok None ?w" "bal ?w = bal w" "armed ?w = armed w" "rcvd_count (cl ?w) = rcvd_count (cl w)"
    "rr_idx (cl ?w) = rr_idx (cl w)" "same_times (cl w) (cl ?w)" "sent_count (cl ?w) = sent_count (cl w)"
    "missed_send (cl ?w) = missed_send (cl w) + (if late then 1 else 0)" "total_samples (cl ?w) = total_samples (cl w)"
    "tally qs ?w = tally qs w" "in_phase (cl ?w) = in_phase (cl w)"
    using assms(2) world_ok_cong [of ?w w ginv outst None] tally_cong [of ?w w qs]
    by (simp_all add: count_missed_def balance_def outstanding_def same_times_def same_course_def same_plan_def samples_ok_def
        in_phase_def [abs_def])
  note k = send_request_keeps [OF assms(1) 0(1) assms(3)]
  have 1: "ok None (count_sent w1)" "bal (count_sent w1) = bal w1" "tally qs (count_sent w1) = tally qs w1"
    using k world_ok_cong [of "count_sent w1" w1 ginv outst None] tally_cong [of "count_sent w1" w1 qs]
    by (simp_all add: count_sent_def balance_def outstanding_def samples_ok_def)
  have 2: "sent_count (cl w1) = sent_count (cl w)" "missed_send (cl w1) = missed_send (cl ?w)"
    "total_samples (cl w1) = total_samples (cl w)" "same_times (cl w) (cl (count_sent w1))"
    using k 0(6,7,9) by (auto simp: count_sent_def same_times_def same_course_def same_plan_def)
  have "counted qs w \<longrightarrow> counted qs (count_sent w1)"
  proof -
    have "in_phase (cl (count_sent w1)) = in_phase (cl w)"
      using same_timesD [OF 2(4)] by (simp add: in_phase_def [abs_def])
    moreover have "sent_count (cl (count_sent w1)) = Suc (sent_count (cl w))" using 2(1) by (simp add: count_sent_def)
    ultimately have "measured_among (cl (count_sent w1)) (sent_count (cl (count_sent w1))) =
        measured_among (cl w) (sent_count (cl w)) + (if in_phase (cl w) (sent_count (cl w)) then 1 else 0)"
      by (simp add: measured_among_def)
    then show ?thesis using k 0(7,10,11) 1(3) by (simp add: counted_def)
  qed
  then show ?thesis
    using 0 1 2 k by (auto simp: advanced_def count_sent_def)
qed

lemma get_connection_ends: "get_connection env cfg ops w = Inl e \<Longrightarrow> no_exit e"
  using new_end
  by (auto simp: get_connection_def new_connection_def pool_connection_def client_watch_def system_call_def Let_def rbind_eq_Inl
      dest: exits split: if_splits prod.splits)

lemma send_request_completes:
  assumes "\<not> send_only cfg" "ok None w" "send_request env cfg ops w = Inl e"
    and "sent_count (cl w) = bal w" "sent_count (cl w) < total_samples (cl w)" "counted qs w"
  shows "completes env cfg (cl w) e"
proof (cases "no_exit e")
  case False
  define n where "n = sent_count (cl w)"
  define meas where "meas \<longleftrightarrow> pre_samples (cl w) \<le> n \<and> n < pre_samples (cl w) + measure_samples (cl w)"
  define w1 where "w1 = (if n = pre_samples (cl w)
    then w\<lparr>cl := (cl w)\<lparr>results := start_measurements (c_start env n) (results (cl w))\<rparr>\<rparr> else w)"
  from assms(3) False obtain a w2 where st: "get_connection env cfg ops w1 = Inr (a, w2)"
    "gen_call ops a (g_send ops (c_input env n) meas) w2 = Inl e"
    unfolding send_request_def Let_def n_def [symmetric] w1_def [symmetric] meas_def [symmetric]
    by (auto simp: rbind_eq_Inl dest: get_connection_ends)
  have 1: "ok None w1" "bal w1 = bal w" "same_course (cl w) (cl w1)" "tally qs w1 = tally qs w"
    using assms(2) world_ok_cong [of w1 w ginv outst None] tally_cong [of w1 w qs]
    by (simp_all add: w1_def balance_def outstanding_def same_course_def same_plan_def samples_ok_def start_measurements_def)
  note 2 = get_connection_keeps [OF 1(1) st(1)]
  have c: "same_course (cl w) (cl w2)" using 2 same_course_trans [OF 1(3)] by blast
  then have s: "sent_count (cl w2) = sent_count (cl w)" "total_samples (cl w2) = total_samples (cl w)"
    "same_times (cl w) (cl w2)" "in_phase (cl w2) = in_phase (cl w)"
    by (simp_all add: same_times_def same_course_def same_plan_def in_phase_def [abs_def])
  have "completes env cfg (cl w2) e"
  proof (rule call_completes [of "Some a" w2 "[meas]" a meas "g_send ops (c_input env n) meas"])
    show "tally qs w2 (measured_among (cl w) n)" using 2 1(4) assms(6) by (simp add: counted_def n_def)
    have "measured_among (cl w2) (Suc n) = measured_among (cl w) (Suc n)" by (simp add: measured_among_def s(4))
    moreover have "bal w2 = n" using 1(2) 2 assms(4) by (simp add: n_def)
    ultimately show "measured_among (cl w) n + count_list [meas] True = measured_among (cl w2) (bal w2 + length [meas])"
      by (simp add: measured_among_Suc meas_def in_phase_def)
  qed (use 1(2) 2 s st(2) assms(4,5) send_end [OF assms(1)] in auto)
  then show ?thesis by (simp only: completes_cong [OF s(3)])
qed (simp add: completes_def)

lemma late_send_completes:
  assumes "\<not> send_only cfg" "ok None w" "send_request env cfg ops (count_missed late w) = Inl e"
    and "sent_count (cl w) = bal w" "sent_count (cl w) < total_samples (cl w)" "counted qs w"
  shows "completes env cfg (cl w) e"
proof -
  let ?w = "count_missed late w"
  have t: "same_times (cl w) (cl ?w)" "tally qs ?w = tally qs w" "sent_count (cl ?w) = sent_count (cl w)"
    using tally_cong [of ?w w qs]
    by (simp_all add: count_missed_def same_times_def same_course_def same_plan_def samples_ok_def)
  have "counted qs ?w"
    using assms(6) t(2,3) same_timesD [OF t(1)] by (simp add: counted_def measured_among_def in_phase_def [abs_def])
  moreover have "ok None ?w" "sent_count (cl ?w) = bal ?w" "sent_count (cl ?w) < total_samples (cl ?w)"
    using assms(2,4,5) world_ok_cong [of ?w w ginv outst None] by (simp_all add: count_missed_def balance_def outstanding_def)
  ultimately have "completes env cfg (cl ?w) e" by (intro send_request_completes [OF assms(1) _ assms(3)])
  then show ?thesis by (simp only: completes_cong [OF t(1)])
qed

lemma due_ends [exits]:
  "next_deadline c = Inl e \<Longrightarrow> no_exit e" "dur t = Inl e \<Longrightarrow> no_exit e" "busy_wait now c = Inl e \<Longrightarrow> no_exit e"
  "arm_timer env' d w = Inl e \<Longrightarrow> no_exit e"
  by (auto simp: next_deadline_def dur_def busy_wait_def arm_timer_def timer_arm_def system_call_def Let_def rbind_eq_Inl
      split: if_splits prod.splits)

text \<open>Handling the timer ends, since every request moves on in the schedule.\<close>

lemma timer_loop_spec:
  assumes "\<not> send_only cfg" "length (schedule (cl w)) = total_samples (cl w)" "sent_count (cl w) = bal w"
    "counted qs w"
  shows "ok None w \<Longrightarrow> n = total_samples (cl w) - sent_count (cl w) \<Longrightarrow>
    \<exists>r. timer_loop env cfg ops now looped w = Some r \<and>
      result_ok env cfg (cl w) (timer_outcome ginv qs cfg now looped w) r"
  using assms(2-4)
proof (induction n arbitrary: w looped rule: less_induct)
  case (less n w looped)
  let ?c = "cl w"
  show ?case
  proof (cases "rbind (next_deadline ?c) (\<lambda>t. dur (t - now))")
    case (Inl e)
    then have "no_exit e" by (auto simp: rbind_eq_Inl dest: exits)
    with Inl show ?thesis by (subst timer_loop.simps) simp
  next
    case (Inr sleep)
    then have s: "sent_count ?c < length (schedule ?c)" "sleep = schedule ?c ! sent_count ?c - now"
      by (auto simp: rbind_eq_Inr next_deadline_def split: if_splits)
    show ?thesis
    proof (cases "0 < sleep")
      case True
      have "result_ok env cfg ?c (timer_outcome ginv qs cfg now looped w) (arm_timer env sleep w)"
      proof (cases "arm_timer env sleep w")
        case (Inr w')
        note that = this
        have w': "w' = w\<lparr>armed := Some sleep\<rparr>" using that by (auto simp: arm_timer_def rbind_eq_Inr)
        then have "ok None w'" using world_ok_cong [of w' w ginv outst None] less.prems(1) by simp
        moreover have "counted qs w' = counted qs w" using w' tally_cong [of w' w qs] by (simp add: counted_def)
        ultimately have "adv 0 w w'"
          using w' by (simp add: advanced_def same_times_def same_course_def balance_def outstanding_def)
        then show ?thesis using w' s True Inr by (simp add: timer_outcome_def Let_def)
      qed (auto dest: exits)
      with Inr True show ?thesis by (subst timer_loop.simps) simp
    next
      case False
      define late where "late \<longleftrightarrow> 0 < looped \<and> sleep < missed_threshold ?c"
      show ?thesis
      proof (cases "send_request env cfg ops (count_missed late w)")
        case Inl2: (Inl e)
        have "completes env cfg ?c e"
          using s(1) less.prems(3) by (intro late_send_completes [OF assms(1) less.prems(1) Inl2 less.prems(4) _ less.prems(5)]) simp
        with Inr False Inl2 show ?thesis by (subst timer_loop.simps) (simp add: late_def)
      next
        case Inr2: (Inr w1)
        let ?w1 = "count_sent w1"
        note one = send_one [OF assms(1) less.prems(1) Inr2]
        have t: "same_times ?c (cl ?w1)" using one by (simp add: advanced_def)
        note tt = same_timesD [OF t]
        have due: "schedule ?c ! sent_count ?c \<le> now" using False s(2) by simp
        show ?thesis
        proof (cases "total_samples (cl w1) \<le> sent_count (cl ?w1)")
          case True
          then have l: "length (schedule ?c) = sent_count ?c + 1" "sent_count (cl ?w1) = sent_count ?c + 1"
            using one s(1) less.prems(3) by linarith+
          have "{sent_count ?c..<sent_count ?c + 1} = {sent_count ?c}" by auto
          then have "timer_outcome ginv qs cfg now looped w ?w1"
            using one s due unfolding timer_outcome_def Let_def l by (auto simp: late_def)
          with Inr False Inr2 True show ?thesis by (subst timer_loop.simps) (simp add: late_def)
        next
          case more: False
          have "total_samples (cl ?w1) - sent_count (cl ?w1) < n" using one tt s(1) less.prems(2,3) by linarith
          from less.IH [OF this _ refl, of "Suc looped"] one tt less.prems(3) obtain r where
            r: "timer_loop env cfg ops now (Suc looped) ?w1 = Some r"
              "result_ok env cfg (cl ?w1) (timer_outcome ginv qs cfg now (Suc looped) ?w1) r"
            using less.prems(4,5) by (auto simp: advanced_def)
          have "timer_outcome ginv qs cfg now looped w w'" if "timer_outcome ginv qs cfg now (Suc looped) ?w1 w'" for w'
          proof -
            let ?s = "sent_count ?c" and ?s' = "sent_count (cl w')"
            from that have o': "?s + 1 \<le> ?s'" "?s' \<le> length (schedule ?c)" "adv (?s' - (?s + 1)) ?w1 w'"
              "\<forall>k \<in> {?s + 1..<?s'}. schedule ?c ! k \<le> now"
              "if ?s' < length (schedule ?c) then now < schedule ?c ! ?s' \<and> armed w' = Some (schedule ?c ! ?s' - now)
               else ?s + 1 < ?s' \<and> armed w' = armed w"
              "missed_send (cl w') = missed_send (cl ?w1) +
                 length (filter (\<lambda>k. schedule ?c ! k - now < missed_threshold ?c) [?s + 1..<?s'])"
              using one tt by (simp_all add: timer_outcome_def Let_def)
            have "1 + (?s' - (?s + 1)) = ?s' - ?s" using o'(1) by simp
            moreover have "adv (1 + (?s' - (?s + 1))) w w'" by (rule advanced_trans [OF _ o'(3)]) (use one in blast)
            ultimately have "adv (?s' - ?s) w w'" by simp
            moreover have "[?s..<?s'] = ?s # [?s + 1..<?s']" using o'(1) by (simp add: upt_rec)
            moreover have "filter (\<lambda>k. (0 < looped \<or> ?s < k) \<and> schedule ?c ! k - now < missed_threshold ?c) [?s + 1..<?s'] =
                filter (\<lambda>k. schedule ?c ! k - now < missed_threshold ?c) [?s + 1..<?s']"
              by (rule filter_cong) auto
            moreover have "\<forall>k \<in> {?s..<?s'}. schedule ?c ! k \<le> now"
            proof
              fix k assume "k \<in> {?s..<?s'}"
              then show "schedule ?c ! k \<le> now" using o'(4) due by (cases "k = ?s") auto
            qed
            ultimately show ?thesis using o' one s(2) by (auto simp: timer_outcome_def Let_def late_def)
          qed
          with result_ok_mono [OF r(2) t] have "result_ok env cfg ?c (timer_outcome ginv qs cfg now looped w) r" by simp
          with Inr False Inr2 more r(1) show ?thesis by (subst timer_loop.simps) (simp add: late_def)
        qed
      qed
    qed
  qed
qed

text \<open>Likewise polling the time. It returns only while some request is not due yet: after the last one it reads
  the deadline behind the end of the schedule.\<close>

lemma busy_loop_spec:
  assumes "\<not> send_only cfg" "length (schedule (cl w)) = total_samples (cl w)" "sent_count (cl w) = bal w"
    "counted qs w"
  shows "ok None w \<Longrightarrow> n = total_samples (cl w) - sent_count (cl w) \<Longrightarrow> busy_wait now (cl w) = Inr d \<Longrightarrow>
    \<exists>r. busy_loop env cfg ops now d w = Some r \<and>
      result_ok env cfg (cl w) (busy_outcome ginv qs cfg now w) r"
  using assms(2-4)
proof (induction n arbitrary: w d rule: less_induct)
  case (less n w d)
  let ?c = "cl w"
  have s: "sent_count ?c < length (schedule ?c)" "d = schedule ?c ! sent_count ?c + exp_start_time ?c - now"
    using less.prems(3) by (auto simp: busy_wait_def rbind_eq_Inr next_deadline_def split: if_splits)
  show ?case
  proof (cases "d \<le> 0")
    case False
    with s advanced_refl [OF less.prems(1), of cfg] have "busy_outcome ginv qs cfg now w w"
      by (simp add: busy_outcome_def Let_def)
    with False show ?thesis by (subst busy_loop.simps) simp
  next
    case True
    have go: "d \<le> 0 \<and> sent_count ?c < total_samples ?c" using True s(1) less.prems(4) by simp
    define late where "late \<longleftrightarrow> d < missed_threshold ?c"
    show ?thesis
    proof (cases "send_request env cfg ops (count_missed late w)")
      case (Inl e)
      have "completes env cfg ?c e"
        using go by (intro late_send_completes [OF assms(1) less.prems(1) Inl less.prems(5) _ less.prems(6)]) simp
      with go Inl show ?thesis by (subst busy_loop.simps) (simp add: late_def)
    next
      case (Inr w1)
      let ?w1 = "count_sent w1"
      note one = send_one [OF assms(1) less.prems(1) Inr]
      have t: "same_times ?c (cl ?w1)" using one by (simp add: advanced_def)
      note tt = same_timesD [OF t]
      have due: "schedule ?c ! sent_count ?c + exp_start_time ?c \<le> now" using True s(2) by simp
      show ?thesis
      proof (cases "busy_wait now (cl ?w1)")
        case Inl2: (Inl e)
        have "no_exit e" using Inl2 by (rule due_ends)
        with go Inr Inl2 show ?thesis by (subst busy_loop.simps) (simp add: late_def)
      next
        case Inr2: (Inr d1)
        have "total_samples (cl ?w1) - sent_count (cl ?w1) < n" using one tt s(1) less.prems(2,4) by linarith
        from less.IH [OF this _ refl Inr2] one tt less.prems(4) obtain r where
          r: "busy_loop env cfg ops now d1 ?w1 = Some r" "result_ok env cfg (cl ?w1) (busy_outcome ginv qs cfg now ?w1) r"
          using less.prems(5,6) by (auto simp: advanced_def)
        have "busy_outcome ginv qs cfg now w w'" if "busy_outcome ginv qs cfg now ?w1 w'" for w'
        proof -
          let ?s = "sent_count ?c" and ?s' = "sent_count (cl w')"
          from that have o': "?s + 1 \<le> ?s'" "?s' < length (schedule ?c)" "adv (?s' - (?s + 1)) ?w1 w'"
            "\<forall>k \<in> {?s + 1..<?s'}. schedule ?c ! k + exp_start_time ?c \<le> now"
            "now < schedule ?c ! ?s' + exp_start_time ?c" "armed w' = armed w"
            "missed_send (cl w') = missed_send (cl ?w1) +
               length (filter (\<lambda>k. schedule ?c ! k + exp_start_time ?c - now < missed_threshold ?c) [?s + 1..<?s'])"
            using one tt by (simp_all add: busy_outcome_def Let_def)
          have "1 + (?s' - (?s + 1)) = ?s' - ?s" using o'(1) by simp
          moreover have "adv (1 + (?s' - (?s + 1))) w w'" by (rule advanced_trans [OF _ o'(3)]) (use one in blast)
          ultimately have "adv (?s' - ?s) w w'" by simp
          moreover have "[?s..<?s'] = ?s # [?s + 1..<?s']" using o'(1) by (simp add: upt_rec)
          moreover have "\<forall>k \<in> {?s..<?s'}. schedule ?c ! k + exp_start_time ?c \<le> now"
          proof
            fix k assume "k \<in> {?s..<?s'}"
            then show "schedule ?c ! k + exp_start_time ?c \<le> now" using o'(4) due by (cases "k = ?s") auto
          qed
          ultimately show ?thesis using o' one s(2) by (auto simp: busy_outcome_def Let_def late_def)
        qed
        with result_ok_mono [OF r(2) t] have "result_ok env cfg ?c (busy_outcome ginv qs cfg now w) r" by simp
        with go Inr Inr2 r(1) show ?thesis by (subst busy_loop.simps) (simp add: late_def)
      qed
    qed
  qed
qed

lemma busy_timer_all_due:
  assumes "\<not> send_only cfg"
  shows "ok None w \<Longrightarrow> length (schedule (cl w)) = total_samples (cl w) \<Longrightarrow>
    length (schedule (cl w)) = sent_count (cl w) + k \<Longrightarrow>
    \<forall>j \<in> {sent_count (cl w)..<length (schedule (cl w))}. schedule (cl w) ! j + exp_start_time (cl w) \<le> now \<Longrightarrow>
    busy_timer env cfg ops now w = Some (rbind (send_next env cfg ops now k w)
      (\<lambda>_. Inl (Undefined_behaviour ''vector index out of range'')))"
proof (induction k arbitrary: w)
  case 0
  then show ?case by (simp add: busy_timer_def obind_def busy_wait_def next_deadline_def)
next
  case (Suc k w)
  let ?c = "cl w"
  let ?t = "schedule ?c ! sent_count ?c + exp_start_time ?c"
  have s: "sent_count ?c < length (schedule ?c)" "sent_count ?c < total_samples ?c" using Suc.prems(2,3) by simp_all
  then have due: "?t - now \<le> 0" using Suc.prems(4) by simp
  have wait: "busy_wait now ?c = rbind (dur ?t) (\<lambda>t. dur (t - now))"
    using s(1) by (simp add: busy_wait_def next_deadline_def)
  show ?case
  proof (cases "rbind (dur ?t) (\<lambda>t. dur (t - now))")
    case (Inl e)
    have "rbind (dur ?t) (\<lambda>t. rbind (dur (t - now)) f) = rbind (rbind (dur ?t) (\<lambda>t. dur (t - now))) f"
      for f :: "int \<Rightarrow> 'g world res" by (simp add: rbind_assoc)
    then show ?thesis by (simp only: busy_timer_def wait obind_def Inl send_next.simps option.case sum.case rbind.simps)
  next
    case (Inr d)
    then have d: "dur ?t = Inr ?t" "dur (?t - now) = Inr (?t - now)" "d = ?t - now" by (auto simp: rbind_eq_Inr)
    let ?late = "?t - now < missed_threshold ?c"
    have loop: "busy_timer env cfg ops now w = busy_loop env cfg ops now (?t - now) w"
      by (simp add: busy_timer_def wait obind_def d)
    have step: "send_next env cfg ops now (Suc k) w = rbind (send_request env cfg ops (count_missed ?late w))
        (\<lambda>w. send_next env cfg ops now k (count_sent w))"
      by (simp only: send_next.simps d(1,2) rbind.simps)
    show ?thesis
    proof (cases "send_request env cfg ops (count_missed ?late w)")
      case (Inl e)
      then show ?thesis unfolding loop step using s(2) due by (subst busy_loop.simps) simp
    next
      case w1: (Inr w1)
      note one = send_one [OF assms Suc.prems(1) w1]
      have t: "same_times ?c (cl (count_sent w1))" using one by (simp add: advanced_def)
      have "busy_timer env cfg ops now (count_sent w1) = Some (rbind (send_next env cfg ops now k (count_sent w1))
          (\<lambda>_. Inl (Undefined_behaviour ''vector index out of range'')))"
        using one same_timesD [OF t] Suc.prems(2-4) by (intro Suc.IH) (auto simp: advanced_def)
      moreover have "busy_loop env cfg ops now (?t - now) w = busy_timer env cfg ops now (count_sent w1)"
        using s(2) due w1 by (subst busy_loop.simps) (simp add: busy_timer_def obind_def)
      ultimately show ?thesis unfolding loop step using w1 by simp
    qed
  qed
qed

subsection \<open>The whole run\<close>

text \<open>What holds between any two events of a run whose plan was \<open>p\<close>.\<close>

definition run_inv :: "client \<Rightarrow> 'g world \<Rightarrow> bool" where
  "run_inv p w \<longleftrightarrow> ok None w \<and> counted qs w \<and> same_times p (cl w) \<and> sent_count (cl w) = bal w \<and> length (schedule (cl w)) = total_samples (cl w) \<and>
     sent_count (cl w) \<le> total_samples (cl w) \<and> (rcvd_count (cl w) = 0 \<or> rcvd_count (cl w) < total_samples (cl w)) \<and>
     (conn_mode cfg = ROUND_ROBIN \<longrightarrow> rr_idx (cl w) = int (sent_count (cl w)) \<and> rr_idx (cl w) < 2 ^ 31)"

lemma run_inv_advanced:
  assumes "run_inv p w" "adv (sent_count (cl w') - sent_count (cl w)) w w'" "sent_count (cl w) \<le> sent_count (cl w')"
    "sent_count (cl w') \<le> length (schedule (cl w))"
  shows "run_inv p w'"
proof -
  have "same_times (cl w) (cl w')" using assms(2) by (simp add: advanced_def)
  from same_timesD [OF this] same_times_trans [OF _ this] assms show ?thesis by (auto simp: run_inv_def advanced_def)
qed

lemma timer_handler_run:
  assumes "\<not> send_only cfg" "run_inv p w"
  shows "\<exists>r. timer_handler env cfg ops now w = Some r \<and>
    result_ok env cfg p (\<lambda>w'. timer_outcome ginv qs cfg (now - exp_start_time (cl w)) 0 w w' \<and> run_inv p w') r"
proof (cases "dur (now - exp_start_time (cl w))")
  case (Inl e)
  then have "no_exit e" by (rule due_ends)
  with Inl show ?thesis by (simp add: timer_handler_def obind_def)
next
  case (Inr t)
  then have t: "t = now - exp_start_time (cl w)" by simp
  have l: "length (schedule (cl w)) = total_samples (cl w)" "sent_count (cl w) = bal w" "counted qs w" "ok None w"
    "same_times p (cl w)" using assms(2) by (simp_all add: run_inv_def)
  from timer_loop_spec [OF assms(1) l(1-4) refl] obtain r where
    r: "timer_loop env cfg ops t 0 w = Some r" "result_ok env cfg (cl w) (timer_outcome ginv qs cfg t 0 w) r" by blast
  moreover have "run_inv p w'" if "timer_outcome ginv qs cfg t 0 w w'" for w'
    using run_inv_advanced [OF assms(2)] that by (simp add: timer_outcome_def Let_def)
  moreover have "timer_handler env cfg ops now w = Some r"
    using r(1) by (simp only: timer_handler_def obind_def Inr option.case sum.case)
  ultimately show ?thesis using t result_ok_mono [OF r(2) l(5)] by simp
qed

lemma busy_timer_run:
  assumes "\<not> send_only cfg" "run_inv p w"
  shows "\<exists>r. busy_timer env cfg ops now w = Some r \<and>
    result_ok env cfg p (\<lambda>w'. busy_outcome ginv qs cfg now w w' \<and> run_inv p w') r"
proof (cases "busy_wait now (cl w)")
  case (Inl e)
  then have "no_exit e" by (rule due_ends)
  with Inl show ?thesis by (simp add: busy_timer_def obind_def)
next
  case (Inr d)
  have l: "length (schedule (cl w)) = total_samples (cl w)" "sent_count (cl w) = bal w" "counted qs w" "ok None w"
    "same_times p (cl w)" using assms(2) by (simp_all add: run_inv_def)
  from busy_loop_spec [OF assms(1) l(1-4) refl Inr] obtain r where
    r: "busy_loop env cfg ops now d w = Some r" "result_ok env cfg (cl w) (busy_outcome ginv qs cfg now w) r" by blast
  moreover have "run_inv p w'" if "busy_outcome ginv qs cfg now w w'" for w'
    using run_inv_advanced [OF assms(2)] that by (simp add: busy_outcome_def Let_def)
  moreover have "busy_timer env cfg ops now w = Some r"
    using r(1) by (simp only: busy_timer_def obind_def Inr option.case sum.case)
  ultimately show ?thesis using result_ok_mono [OF r(2) l(5)] by simp
qed

lemma handle_event_run:
  assumes "\<not> send_only cfg" "run_inv p w"
  shows "\<exists>r. handle_event env cfg ops e w = Some r \<and> result_ok env cfg p (run_inv p) r"
proof (cases e)
  case (Timer_event now)
  obtain r where r: "timer_handler env cfg ops now w = Some r"
    "result_ok env cfg p (\<lambda>w'. timer_outcome ginv qs cfg (now - exp_start_time (cl w)) 0 w w' \<and> run_inv p w') r"
    using timer_handler_run [OF assms, of now] by blast
  show ?thesis using Timer_event r(1) result_ok_conj [OF r(2)] by (cases "use_busy_timer cfg") simp_all
next
  case (Socket_event a ev i)
  have "run_inv p w'" if "gen_call ops a (g_io ops i ev) w = Inr (u, w')" for u w'
  proof -
    have "ok None w" using assms(2) by (simp add: run_inv_def)
    from call_keeps [OF this _ that, of "[]"] io_law [OF assms(1)] have k:
      "ok None w' \<and> bal w' = bal w \<and> (\<forall>k. tally qs w k \<longrightarrow> tally qs w' k) \<and> same_plan (cl w) (cl w') \<and>
       (rcvd_count (cl w') = rcvd_count (cl w) \<or> rcvd_count (cl w') < total_samples (cl w'))" by auto
    then have "counted qs w'"
      using assms(2) by (auto simp: run_inv_def counted_def same_plan_def measured_among_def in_phase_def [abs_def])
    with k show ?thesis using assms(2) by (auto simp: run_inv_def same_times_def same_course_def same_plan_def)
  qed
  moreover have "completes env cfg p x" if "gen_call ops a (g_io ops i ev) w = Inl x" for x
  proof -
    have t: "same_times p (cl w)" using assms(2) by (simp add: run_inv_def)
    have "completes env cfg (cl w) x"
    proof (rule call_completes [of None w "[]" a True "g_io ops i ev"])
      show "ends env cfg a (qs g @ []) c x" if "ginv a g" "g_io ops i ev g c = Inl x" for g c
        using io_end [OF assms(1) that] by simp
      show "tally qs w (measured_among (cl w) (bal w))" using assms(2) by (auto simp: run_inv_def counted_def)
    qed (use assms(2) that in \<open>simp_all add: run_inv_def\<close>)
    then show ?thesis by (simp only: completes_cong [OF t])
  qed
  ultimately show ?thesis using Socket_event by (cases "gen_call ops a (g_io ops i ev) w") auto
qed

lemma obind_run:
  assumes "\<exists>r. m = Some r \<and> result_ok env cfg p P r"
    "\<And>w'. P w' \<Longrightarrow> \<exists>r. f w' = Some r \<and> result_ok env cfg p Q r"
  shows "\<exists>r. obind m f = Some r \<and> result_ok env cfg p Q r"
  using assms by (auto simp: obind_def split: sum.splits)

lemma handle_events_run:
  assumes "\<not> send_only cfg"
  shows "run_inv p w \<Longrightarrow> \<exists>r. handle_events env cfg ops es w = Some r \<and> result_ok env cfg p (run_inv p) r"
proof (induction es arbitrary: w)
  case (Cons e es)
  show ?case using obind_run [OF handle_event_run [OF assms Cons.prems] Cons.IH] by simp
qed simp

lemma run_wakeup_run:
  assumes "\<not> send_only cfg" "run_inv p w"
  shows "\<exists>r. run_wakeup env cfg ops x w = Some r \<and> result_ok env cfg p (run_inv p) r"
proof (cases x)
  case (Woken es now)
  have "\<exists>r. (if use_busy_timer cfg then busy_timer env cfg ops now w' else Some (Inr w')) = Some r \<and>
      result_ok env cfg p (run_inv p) r" if inv: "run_inv p w'" for w'
  proof -
    obtain r where r: "busy_timer env cfg ops now w' = Some r"
      "result_ok env cfg p (\<lambda>v. busy_outcome ginv qs cfg now w' v \<and> run_inv p v) r"
      using busy_timer_run [OF assms(1) inv, of now] by blast
    show ?thesis using r(1) result_ok_conj [OF r(2)] inv by (cases "use_busy_timer cfg") simp_all
  qed
  from obind_run [OF handle_events_run [OF assms] this] Woken show ?thesis by simp
qed simp

lemma run_loop_run:
  assumes "\<not> send_only cfg"
  shows "run_inv p w \<Longrightarrow> \<exists>r. run_loop env cfg ops script w = Some r \<and> result_ok env cfg p (run_inv p) r"
proof (induction script arbitrary: w)
  case (Cons x xs)
  show ?case using obind_run [OF run_wakeup_run [OF assms Cons.prems] Cons.IH] by simp
qed simp

lemma world_new_ok: "conns c = [] \<Longrightarrow> ok None (world_new c)"
  by (simp add: world_ok_def world_new_def)

lemma client_new_facts:
  assumes "client_new ep tm watch cfg = Inr c"
  shows "conns c = []" "sent_count c = 0" "rcvd_count c = 0" "rr_idx c = 0" "tally qs (world_new c) 0"
  using assms by (auto simp: client_new_def rbind_eq_Inr tally_def split: if_splits simp: samples_ok_def results_new_def accum_new_def world_new_def outstanding_def)

lemma setup_connections_ends: "setup_connections env cfg ops w = Inl e \<Longrightarrow> no_exit e"
proof -
  have "make_connections env ops n w = Inl e \<Longrightarrow> no_exit e" for n and w :: "'g world"
    using new_end
    by (induction n arbitrary: w) (auto simp: new_connection_def client_watch_def system_call_def Let_def rbind_eq_Inl split: if_splits prod.splits)
  then show "setup_connections env cfg ops w = Inl e \<Longrightarrow> no_exit e" by (auto simp: setup_connections_def split: if_splits)
qed

text \<open>The experiment starts with no request sent, or the program ends before.\<close>

lemma client_run_starts:
  assumes "client_new ep tm watch cfg = Inr c" "setup_deadlines (c_rnd env) draw cfg = Some (Inr (ds, pre, meas, post))"
  shows "\<exists>p. planned cfg (ds, pre, meas, post) start p \<and>
    ((\<exists>e. no_exit e \<and> client_run env cfg ops draw start now script c = Some (Inl e)) \<or>
     (\<exists>w. run_inv p w \<and> sent_count (cl w) = 0 \<and> client_run env cfg ops draw start now script c =
       obind (if \<not> use_busy_timer cfg then timer_handler env cfg ops now w else Some (Inr w)) (run_loop env cfg ops script)))"
proof -
  note c = client_new_facts [OF assms(1)]
  note new = world_new_ok [OF c(1)]
  define plan where "plan x = x\<lparr>schedule := ds, pre_samples := pre, measure_samples := meas, post_samples := post,
    total_samples := length ds, exp_start_time := start,
    conns := (if conn_mode cfg = PER_REQUEST then [] else [0..<unat (conn_cnt cfg)])\<rparr>" for x :: client
  have plan: "planned cfg (ds, pre, meas, post) start (plan x)" for x by (simp add: plan_def planned_def)
  show ?thesis
  proof (cases "setup_connections env cfg ops (world_new c)")
    case (Inl e)
    then have "client_run env cfg ops draw start now script c = Some (Inl e)"
      by (simp add: client_run_def setup_experiment_def obind_def)
    with setup_connections_ends [OF Inl] plan show ?thesis by blast
  next
    case (Inr w)
    have w: "ok None w" "bal w = 0" "tally qs w 0" "sent_count (cl w) = 0" "rcvd_count (cl w) = 0" "rr_idx (cl w) = 0"
      "conns (cl w) = (if conn_mode cfg = PER_REQUEST then [] else [0..<unat (conn_cnt cfg)])"
      using Inr new make_connections_keeps [OF _ new, of "unat (conn_cnt cfg)" w] c
      by (auto simp: setup_connections_def world_new_def balance_def outstanding_def split: if_splits)
    let ?p = "plan (cl w)"
    have p: "?p = (cl w)\<lparr>schedule := ds, pre_samples := pre, measure_samples := meas, post_samples := post,
        total_samples := length ds, exp_start_time := start\<rparr>"
      using w(7) by (cases "cl w") (simp add: plan_def)
    have ok: "ok None (w\<lparr>cl := ?p\<rparr>)" using w(1) world_ok_cong [of "w\<lparr>cl := ?p\<rparr>" w ginv outst None] by (simp add: p)
    have "counted qs (w\<lparr>cl := ?p\<rparr>)"
      using w(3,4) tally_cong [of "w\<lparr>cl := ?p\<rparr>" w qs] by (simp add: p counted_def measured_among_def samples_ok_def)
    then have "run_inv ?p (w\<lparr>cl := ?p\<rparr>)" "sent_count (cl (w\<lparr>cl := ?p\<rparr>)) = 0"
      using w ok by (simp_all add: run_inv_def p balance_def outstanding_def same_times_def same_course_def)
    moreover have "client_run env cfg ops draw start now script c =
        obind (if \<not> use_busy_timer cfg then timer_handler env cfg ops now (w\<lparr>cl := ?p\<rparr>) else Some (Inr (w\<lparr>cl := ?p\<rparr>)))
          (run_loop env cfg ops script)"
      by (simp add: client_run_def setup_experiment_def obind_def Inr assms(2) p Let_def)
    ultimately show ?thesis using plan by blast
  qed
qed

lemma client_run_run:
  assumes "\<not> send_only cfg" "client_new ep tm watch cfg = Inr c"
    and "setup_deadlines (c_rnd env) draw cfg = Some (Inr (ds, pre, meas, post))"
  shows "\<exists>r p. client_run env cfg ops draw start now script c = Some r \<and> result_ok env cfg p (run_inv p) r \<and>
    planned cfg (ds, pre, meas, post) start p"
proof -
  from client_run_starts [OF assms(2,3), of start now script] obtain p where p: "planned cfg (ds, pre, meas, post) start p"
    "(\<exists>e. no_exit e \<and> client_run env cfg ops draw start now script c = Some (Inl e)) \<or>
     (\<exists>w. run_inv p w \<and> sent_count (cl w) = 0 \<and> client_run env cfg ops draw start now script c =
       obind (if \<not> use_busy_timer cfg then timer_handler env cfg ops now w else Some (Inr w)) (run_loop env cfg ops script))"
    by blast
  have "\<exists>r. obind (if \<not> use_busy_timer cfg then timer_handler env cfg ops now w else Some (Inr w))
      (run_loop env cfg ops script) = Some r \<and> result_ok env cfg p (run_inv p) r" if inv: "run_inv p w" for w
  proof (rule obind_run)
    show "\<exists>r. (if \<not> use_busy_timer cfg then timer_handler env cfg ops now w else Some (Inr w)) = Some r \<and>
        result_ok env cfg p (run_inv p) r"
      using handle_event_run [OF assms(1) inv, of "Timer_event now"] inv by (cases "use_busy_timer cfg") simp_all
  qed (rule run_loop_run [OF assms(1)])
  with p show ?thesis by (elim disjE exE conjE) (metis result_ok_simps(2,3))+
qed

text \<open>A state a run reaches.\<close>

lemma reached:
  assumes "\<not> send_only cfg" "client_new ep tm watch cfg = Inr c"
    and "client_run env cfg ops draw start now script c = Some (Inr w)"
  obtains ds pre meas post p where
    "setup_deadlines (c_rnd env) draw cfg = Some (Inr (ds, pre, meas, post))" "run_inv p w"
    "planned cfg (ds, pre, meas, post) start p"
proof -
  from assms(3) obtain ds pre meas post where "setup_deadlines (c_rnd env) draw cfg = Some (Inr (ds, pre, meas, post))"
    by (auto simp: client_run_def setup_experiment_def obind_eq)
  with client_run_run [OF assms(1,2) this, of start now script] assms(3) that show ?thesis by auto
qed

end

end
