(* ===== verification/Gen_Synthetic.thy ===== *)
theory Gen_Synthetic
  imports Gen_Base Options
begin

section \<open>The synthetic generator (client/gen_synthetic.hh, client/gen_synthetic.cc)\<close>

text \<open>
  \<open>Synthetic\<close>: one request is a packet of 144 bytes that asks the server to work for a time, the
  response is 8 bytes. The random distributions are the sequences of their samples in the environment, the address of a
  request slot (the packet's tag) and the bytes of an uninitialised stack packet are arguments too.
\<close>

definition REQ_MAX_DELAYS :: nat where "REQ_MAX_DELAYS = 16"
definition REQ_PKT_SIZE :: nat where "REQ_PKT_SIZE = 4 + 4 + 8 + 8 * REQ_MAX_DELAYS"
definition RESP_PKT_SIZE :: nat where "RESP_PKT_SIZE = 8"

lemma pkt_sizes [simp]: "REQ_PKT_SIZE = 144" "RESP_PKT_SIZE = 8"
  by (simp_all add: REQ_PKT_SIZE_def REQ_MAX_DELAYS_def RESP_PKT_SIZE_def)

record 'k SynReq = "'k Req" +
  req_service_us :: "64 word"

definition SynReq :: "bool \<Rightarrow> 'k option \<Rightarrow> 64 word \<Rightarrow> 'k SynReq" where
  "SynReq m c service =
     \<lparr>measure_req = m, req_cb = c, start_ts = 0, sent_ts = 0, req_service_us = service\<rparr>"

record ('k, 'w) syn = "('k SynReq, 'w) gen" +
  ndraws :: nat

record ('k, 'w) syn_env = "('k, 'w) gen_env" +
  exp_draw :: "nat \<Rightarrow> real"
  lognorm_draw :: "nat \<Rightarrow> real"
  slot_addr :: "nat \<Rightarrow> 64 word"
  stack_junk :: "nat \<Rightarrow> byte"

definition syn_new :: "nat \<Rightarrow> nat \<Rightarrow> nat \<Rightarrow> 'w \<Rightarrow> ('k, 'w) syn" where
  "syn_new nreqs sock this w =
     \<lparr>requests = buffer_new (SynReq False None 0) nreqs, sock_ref = sock, this_ref = this, ticks = 0,
      world = w, ndraws = 0\<rparr>"

definition gen_service_time :: "('k, 'w) syn_env \<Rightarrow> Config \<Rightarrow> ('k, 'w) syn \<Rightarrow> (64 word \<times> ('k, 'w) syn) res" where
  "gen_service_time env cfg u =
     (if service_dist cfg = FIXED then
        rbind (to_uint64 (of_int \<lceil>service_us cfg\<rceil>)) (\<lambda>n. Inr (n, u))
      else if service_dist cfg = EXPONENTIAL then
        rbind (to_uint64 (of_int \<lceil>exp_draw env (ndraws u)\<rceil>)) (\<lambda>n. Inr (n, u\<lparr>ndraws := Suc (ndraws u)\<rparr>))
      else
        rbind (to_uint64 (of_int \<lceil>lognorm_draw env (ndraws u)\<rceil>)) (\<lambda>n. Inr (n, u\<lparr>ndraws := Suc (ndraws u)\<rparr>)))"

text \<open>The fields of \<open>req_pkt\<close> the code sets: the rest of the packet is what was in memory.\<close>

definition pkt_fields :: "64 word \<Rightarrow> bool \<Rightarrow> 64 word \<Rightarrow> byte list" where
  "pkt_fields tag noreply delay =
     le_bytes 4 1 @ le_bytes 4 (if noreply then 1 else 0) @ le_bytes 8 (unat tag) @ le_bytes 8 (unat delay)"

definition syn_sent :: "('k, 'w) syn_env \<Rightarrow> (unit, nat, ('k, 'w) syn) tx_handler" where
  "syn_sent env cb s data st u =
     (if sock_ref u \<noteq> s then Inl (Runtime_error ''Synthetic::sent_request: wrong socket in callback'')
      else if st \<noteq> 0 then Inr u
      else let (t, u) = read_clock env u in Inr (set_req u data (\<lambda>r. r\<lparr>sent_ts := t\<rparr>)))"

definition syn_recv :: "('k, 'w) syn_env \<Rightarrow> (unit, nat, ('k, 'w) syn) rx_handler" where
  "syn_recv env cb s data seg1 seg2 st u =
     (if sock_ref u \<noteq> s then Inl (Runtime_error ''Synthetic::recv_response: wrong socket in callback'')
      else if st \<noteq> 0 then
        rbind (drop_items (requests u) 1) (\<lambda>q. Inr (0, u\<lparr>requests := q\<rparr>))
      else if seg_len seg1 seg2 \<noteq> RESP_PKT_SIZE then
        Inl (Runtime_error ''Synthetic::recv_response: unexpected packet size'')
      else
        rbind (dequeue_one (requests u)) (\<lambda>(p, q).
        if data \<noteq> p then
          Inl (Runtime_error ''Synthetic::recv_response: wrong response-request packet match'')
        else
          let (t, u) = read_clock env (u\<lparr>requests := q\<rparr>); req = buf q ! p in
          rbind (latencies ''Synthetic'' req t) (\<lambda>(queue_us, service_us).
          let wait_us = (if service_us > unat (req_service_us req)
                         then service_us - unat (req_service_us req) else 0) in
          rbind (call_request_cb env (req_cb req) (this_ref u) queue_us service_us wait_us RESP_PKT_SIZE
                   (measure_req req) (world u)) (\<lambda>w.
          Inr (0, u\<lparr>world := w\<rparr>)))))"

definition syn_send :: "('k, 'w) syn_env \<Rightarrow> Config \<Rightarrow> rd_result list \<Rightarrow> wr_result list \<Rightarrow> bool \<Rightarrow> 'k option \<Rightarrow>
    (unit, unit, nat) Sock \<times> ('k, 'w) syn \<Rightarrow> byte list \<Rightarrow>
    (nat \<times> (unit, unit, nat) Sock \<times> ('k, 'w) syn \<times> rd_result list \<times> wr_result list \<times> byte list) res" where
  "syn_send env cfg ks ws meas cb = (\<lambda>(s, u) wire.
     rbind (gen_service_time env cfg u) (\<lambda>(service, u).
     rbind (queue_emplace (requests u) (SynReq meas cb service)) (\<lambda>(p, q).
     let u = u\<lparr>requests := q\<rparr>; n = REQ_PKT_SIZE;
         fields = pkt_fields (slot_addr env p) (send_only cfg) (req_service_us (buf q ! p)) in
     rbind (write_prepare s n) (\<lambda>(p1, p2, n1).
     rbind
       (if n1 = n then Inr (set_wmem s (blit (buf (wbuf s)) p1 fields))
        else
          let pkt = fields @ map (stack_junk env) [24..<n] in
          rbind (object_bytes pkt (n1 * n) (n - n1)) (\<lambda>rest.
          case p2 of
            None \<Rightarrow> Inl (Undefined_behaviour ''memcpy to null'')
          | Some q2 \<Rightarrow> Inr (set_wmem s (blit (blit (buf (wbuf s)) p1 (take n1 pkt)) q2 rest))))
       (\<lambda>s.
     rbind (write_commit s n) (\<lambda>s.
     let (t, u) = read_clock env u; u = set_req u p (\<lambda>r. r\<lparr>start_ts := t\<rparr>) in
     rbind (write_cb_point s (Some ()) p) (\<lambda>s.
     rbind (try_tx (syn_sent env) ws (s, u) wire) (\<lambda>(s, u, ws, wire).
     rbind (sock_read (syn_recv env) ks (s, u)
              \<lparr>hdrlen = RESP_PKT_SIZE, hdrcb = Some (), bodylen = 0, bodycb = None, rxdata = p\<rparr>)
       (\<lambda>(s, u, ks).
     rbind
       (if send_only cfg then
          rbind (call_request_cb env (req_cb (buf (requests u) ! p)) (this_ref u) 0 0 0 0 meas (world u)) (\<lambda>w.
          Inr (u\<lparr>world := w\<rparr>))
        else Inr u)
       (\<lambda>u. Inr (n, s, u, ks, ws, wire)))))))))))"

subsection \<open>Responses match requests\<close>

abbreviation "syn_pend u \<equiv> slots (requests u)"

definition syn_good :: "nat \<Rightarrow> ('k, 'w) syn \<Rightarrow> bool" where
  "syn_good this u \<longleftrightarrow> wf_buffer (requests u) \<and> sock_ref u = this"

text \<open>The errors \<open>recv_response\<close> throws itself when socket, size or request do not match. An exception that a request
  callback of the client can throw is not counted.\<close>

definition syn_mismatch :: "('k, 'w) syn_env \<Rightarrow> exn \<Rightarrow> bool" where
  "syn_mismatch env e \<longleftrightarrow>
     e \<in> {Runtime_error ''Synthetic::recv_response: wrong socket in callback'',
       Runtime_error ''Synthetic::recv_response: unexpected packet size'',
       Runtime_error ''Synthetic::recv_response: wrong response-request packet match''} \<and>
     (\<forall>k this q sv w n m wd. request_cb env k this q sv w n m wd \<noteq> Inl e)"

lemma syn_recv_matched:
  assumes "syn_good this u" "syn_pend u = p # ps" "length bs = RESP_PKT_SIZE"
  shows "\<exists>q. syn_recv env cb this p bs None 0 u =
      (let req = buf (requests u) ! p in
       rbind (latencies ''Synthetic'' req (clk env (ticks u))) (\<lambda>(queue_us, service_us).
       rbind (call_request_cb env (req_cb req) (this_ref u) queue_us service_us
                (service_us - unat (req_service_us req)) RESP_PKT_SIZE (measure_req req) (world u)) (\<lambda>w.
       Inr (0, u\<lparr>requests := q, ticks := Suc (ticks u), world := w\<rparr>)))) \<and>
    wf_buffer q \<and> slots q = ps"
proof -
  have wf: "wf_buffer (requests u)" using assms(1) by (simp add: syn_good_def)
  have used: "0 < used (requests u)" using arg_cong [OF assms(2), of length] by simp
  then have "syn_pend u ! 0 = head (requests u)"
    using wf by (simp add: ring_ix_def wf_buffer_def)
  then have p: "p = head (requests u)" using assms(2) by simp
  obtain q where q: "dequeue_one (requests u) = Inr (p, q)" "wf_buffer q" "buf q = buf (requests u)"
    "slots q = tl (syn_pend u)"
    using dequeue_one_ok [OF wf used] p by auto
  show ?thesis
    using assms q by (intro exI [of _ q])
      (auto simp: syn_recv_def syn_good_def read_clock_def Let_def rbind_assoc intro!: rbind_cong)
qed

interpretation syn: fifo_generator "syn_recv env" this RESP_PKT_SIZE syn_pend "syn_good this" "syn_mismatch env"
  for env :: "('k, 'w) syn_env" and this
proof unfold_locales
  show "syn_recv env cb this d s1 (Some s2) st u = syn_recv env cb this d (s1 @ s2) None st u"
    for cb this d s1 s2 st u by (simp add: syn_recv_def)
  show "0 < RESP_PKT_SIZE" by simp
next
  fix u :: "('k, 'w) syn" and p ps cb len u' and bs :: "byte list"
  assume a: "syn_good this u" "syn_pend u = p # ps" "length bs = RESP_PKT_SIZE"
    "syn_recv env cb this p bs None 0 u = Inr (len, u')"
  note syn_recv_matched [OF a(1-3), of env cb, unfolded a(4)]
  with a(1) show "syn_good this u' \<and> syn_pend u' = ps"
    by (auto simp: Let_def res_simps syn_good_def dest!: sym [of "Inr _"])
next
  fix u :: "('k, 'w) syn" and p ps cb e and bs :: "byte list"
  assume a: "syn_good this u" "syn_pend u = p # ps" "length bs = RESP_PKT_SIZE"
    "syn_recv env cb this p bs None 0 u = Inl e"
  note syn_recv_matched [OF a(1-3), of env cb, unfolded a(4)]
  then show "\<not> syn_mismatch env e"
    by (auto simp: Let_def res_simps syn_mismatch_def latencies_def split: if_splits
        dest!: sym [of "Inl _"] call_request_cb_err)
next
  show "syn_mismatch env e \<Longrightarrow>
      \<exists>m. e = Runtime_error m \<and> m \<noteq> ''Sock::rx: read returned more bytes than asked''" for e
    by (auto simp: syn_mismatch_def)
qed

lemma syn_sent_keeps: "tx_keeps (syn_sent env) (\<lambda>u v. syn_pend v = syn_pend u \<and> (syn_good this u \<longrightarrow> syn_good this v))"
  by (auto simp: tx_keeps_def syn_sent_def syn_good_def read_clock_def Let_def split: if_splits)

definition syn_inv :: "(unit, unit, nat) Sock \<times> ('k, 'w) syn \<Rightarrow> bool" where
  "syn_inv = (\<lambda>(s, u). sock_inv s \<and> syn_good (self s) u \<and>
     in_order RESP_PKT_SIZE (contents (rx_cbs s)) (syn_pend u))"

lemma gen_service_time_frame:
  "gen_service_time env cfg u = Inr (n, u') \<Longrightarrow> requests u' = requests u \<and> sock_ref u' = sock_ref u \<and>
    this_ref u' = this_ref u \<and> world u' = world u"
  by (auto simp: gen_service_time_def res_simps split: if_splits)

lemma length_pkt_fields [simp]: "length (pkt_fields tag nr d) = 24"
  by (simp add: pkt_fields_def)

lemma syn_send_steps:
  assumes "sock_inv s" "syn_send env cfg ks ws meas cb (s, u) wire = Inr (n, s', u', ks', ws', wire')"
  obtains service u1 p q p1 p2 s1 s2 s3 u3 u4 where
    "gen_service_time env cfg u = Inr (service, u1)"
    "queue_emplace (requests u1) (SynReq meas cb service) = Inr (p, q)"
    "write_prepare s 144 = Inr (p1, p2, 144)"
    "write_commit (set_wmem s (blit (buf (wbuf s)) p1 (pkt_fields (slot_addr env p) (send_only cfg)
       (req_service_us (buf q ! p))))) 144 = Inr s1"
    "write_cb_point s1 (Some ()) p = Inr s2"
    "try_tx (syn_sent env) ws (s2, set_req (u1\<lparr>requests := q, ticks := Suc (ticks u1)\<rparr>) p
       (\<lambda>r. r\<lparr>start_ts := clk env (ticks u1)\<rparr>)) wire = Inr (s3, u3, ws', wire')"
    "sock_read (syn_recv env) ks (s3, u3)
       \<lparr>hdrlen = 8, hdrcb = Some (), bodylen = 0, bodycb = None, rxdata = p\<rparr> = Inr (s', u4, ks')"
    "\<exists>w. u' = u4\<lparr>world := w\<rparr>" "n = 144" "\<not> send_only cfg \<longrightarrow> u' = u4"
    "send_only cfg \<longrightarrow> (\<exists>w. call_request_cb env (req_cb (buf (requests u4) ! p)) (this_ref u4) 0 0 0 0 meas (world u4) = Inr w \<and>
       u' = u4\<lparr>world := w\<rparr>)"
proof -
  have wf: "wf_buffer (wbuf s)" using assms(1) by (simp add: sock_inv_def tx_inv_def)
  have frag: "\<exists>m. object_bytes pkt (n1 * 144) (144 - n1) = Inl m"
    if "write_prepare s 144 = Inr (p1, p2, n1)" "n1 \<noteq> 144" "length pkt = 144" for pkt p1 p2 n1
  proof -
    have n1: "0 < n1" "n1 \<le> 144"
      using queue_prep_segments [OF wf that(1) [unfolded write_prepare_def]] by auto
    then have "144 \<le> n1 * 144" "0 < 144 - n1" using that(2) by auto
    with that(3) show ?thesis by (auto simp: object_bytes_def)
  qed
  from assms(2) obtain service u1 where 1: "gen_service_time env cfg u = Inr (service, u1)"
    by (auto simp: syn_send_def rbind_eq_Inr)
  from assms(2) 1 obtain p q where 2: "queue_emplace (requests u1) (SynReq meas cb service) = Inr (p, q)"
    by (auto simp: syn_send_def rbind_eq_Inr)
  let ?f = "pkt_fields (slot_addr env p) (send_only cfg) (req_service_us (buf q ! p))"
  from assms(2) 1 2 obtain p1 p2 n1 where 3: "write_prepare s 144 = Inr (p1, p2, n1)"
    by (auto simp: syn_send_def rbind_eq_Inr Let_def)
  have "n1 = 144"
  proof (rule ccontr)
    assume "n1 \<noteq> 144"
    with frag [OF 3, of "?f @ map (stack_junk env) [24..<144]"] assms(2) 1 2 3 show False
      by (auto simp: syn_send_def Let_def)
  qed
  note 3 = 3 [unfolded this]
  from assms(2) 1 2 3 obtain s1 where
    4: "write_commit (set_wmem s (blit (buf (wbuf s)) p1 ?f)) 144 = Inr s1"
    by (auto simp: syn_send_def rbind_eq_Inr Let_def)
  from assms(2) 1 2 3 4 obtain s2 where 5: "write_cb_point s1 (Some ()) p = Inr s2"
    by (auto simp: syn_send_def rbind_eq_Inr Let_def read_clock_def)
  from assms(2) 1 2 3 4 5 obtain s3 u3 ws3 wire3 where 6: "try_tx (syn_sent env) ws
      (s2, set_req (u1\<lparr>requests := q, ticks := Suc (ticks u1)\<rparr>) p (\<lambda>r. r\<lparr>start_ts := clk env (ticks u1)\<rparr>)) wire =
      Inr (s3, u3, ws3, wire3)"
    by (auto simp: syn_send_def rbind_eq_Inr Let_def read_clock_def)
  from assms(2) 1 2 3 4 5 6 obtain u4 where 7: "sock_read (syn_recv env) ks (s3, u3)
       \<lparr>hdrlen = 8, hdrcb = Some (), bodylen = 0, bodycb = None, rxdata = p\<rparr> = Inr (s', u4, ks')"
    "if send_only cfg then \<exists>w. call_request_cb env (req_cb (buf (requests u4) ! p)) (this_ref u4) 0 0 0 0 meas (world u4) = Inr w \<and>
       u' = u4\<lparr>world := w\<rparr> else u' = u4" "n = 144" "ws3 = ws'" "wire3 = wire'"
    by (cases "send_only cfg") (auto simp: syn_send_def rbind_eq_Inr Let_def read_clock_def)
  have "u4\<lparr>world := world u4\<rparr> = u4" by simp
  with 7(2) have 8: "\<exists>w. u' = u4\<lparr>world := w\<rparr>" by metis
  have 9: "\<not> send_only cfg \<longrightarrow> u' = u4" using 7(2) by simp
  have 10: "send_only cfg \<longrightarrow> (\<exists>w. call_request_cb env (req_cb (buf (requests u4) ! p)) (this_ref u4) 0 0 0 0 meas (world u4) = Inr w \<and>
       u' = u4\<lparr>world := w\<rparr>)" using 7(2) by simp
  show ?thesis by (rule that [OF 1 2 3 4 5 6 [unfolded 7(4,5)] 7(1) 8 7(3) 9 10])
qed

lemma syn_send_inv:
  assumes inv: "syn_inv (s, u)"
    and send: "syn_send env cfg ks ws meas cb (s, u) wire = Inr (n, s', u', ks', ws', wire')"
  shows "syn_inv (s', u') \<and> self s' = self s \<and> n = REQ_PKT_SIZE \<and>
    (\<exists>p k. syn_pend u' = drop k (syn_pend u @ [p]))"
proof -
  have i: "sock_inv s" "syn_good (self s) u" "in_order 8 (contents (rx_cbs s)) (syn_pend u)"
    using inv by (simp_all add: syn_inv_def)
  from send i(1) obtain service u1 p q p1 p2 s1 s2 s3 u3 u4 where st:
    "gen_service_time env cfg u = Inr (service, u1)"
    "queue_emplace (requests u1) (SynReq meas cb service) = Inr (p, q)"
    "write_prepare s 144 = Inr (p1, p2, 144)"
    "write_commit (set_wmem s (blit (buf (wbuf s)) p1 (pkt_fields (slot_addr env p) (send_only cfg)
       (req_service_us (buf q ! p))))) 144 = Inr s1"
    "write_cb_point s1 (Some ()) p = Inr s2"
    "try_tx (syn_sent env) ws (s2, set_req (u1\<lparr>requests := q, ticks := Suc (ticks u1)\<rparr>) p
       (\<lambda>r. r\<lparr>start_ts := clk env (ticks u1)\<rparr>)) wire = Inr (s3, u3, ws', wire')"
    "sock_read (syn_recv env) ks (s3, u3)
       \<lparr>hdrlen = 8, hdrcb = Some (), bodylen = 0, bodycb = None, rxdata = p\<rparr> = Inr (s', u4, ks')"
    "\<exists>w. u' = u4\<lparr>world := w\<rparr>" "n = 144"
    by (elim syn_send_steps) blast
  note fr = gen_service_time_frame [OF st(1)]
  have wfq: "wf_buffer (requests u1)" using i(2) fr by (simp add: syn_good_def)
  note q = slots_emplace [OF wfq st(2)]
  obtain data where a: "appended s data s1"
    using commit_fields [OF i(1) st(3) _ st(4)] by auto
  have s1: "sock_inv s1" "rx_cbs s1 = rx_cbs s" "self s1 = self s"
    using appended_inv [OF i(1) a] appended_frame [OF a] by auto
  have s2: "sock_inv s2" "rx_cbs s2 = rx_cbs s" "self s2 = self s"
    using cb_point_inv [OF s1(1) st(5)] cb_point_frame [OF st(5)] s1 by auto
  let ?u2 = "set_req (u1\<lparr>requests := q, ticks := Suc (ticks u1)\<rparr>) p
       (\<lambda>r. r\<lparr>start_ts := clk env (ticks u1)\<rparr>)"
  have u2: "syn_good (self s) ?u2" "syn_pend ?u2 = syn_pend u @ [p]"
    using i(2) q fr by (simp_all add: syn_good_def)
  from try_tx_frame [OF syn_sent_keeps [of env "self s"] s2(1) st(6)] s2 u2
  have s3: "sock_inv s3" "rx_cbs s3 = rx_cbs s" "self s3 = self s" "syn_good (self s) u3"
    "syn_pend u3 = syn_pend u @ [p]" by auto
  have "in_order RESP_PKT_SIZE (contents (rx_cbs s3)) (syn_pend u)" using s3(2) i(3) by simp
  from syn.read_in_order [OF s3(1,3,4) this s3(5), where env = env and ks = ks and
      r = "\<lparr>hdrlen = 8, hdrcb = Some (), bodylen = 0, bodycb = None, rxdata = p\<rparr>"] st(7)
  have r: "sock_inv s'" "self s' = self s" "syn_good (self s) u4"
    "in_order 8 (contents (rx_cbs s')) (syn_pend u4)" "\<exists>k. syn_pend u4 = drop k (syn_pend u3)"
    by simp_all
  obtain k w where k: "syn_pend u4 = drop k (syn_pend u @ [p])" "u' = u4\<lparr>world := w\<rparr>"
    using r(5) s3(5) st(8) by metis
  then have "syn_pend u' = drop k (syn_pend u @ [p])" by (simp del: drop_append)
  moreover have "syn_inv (s', u')" using r k(2) by (simp add: syn_inv_def syn_good_def)
  ultimately show ?thesis using r(2) st(9) unfolding pkt_sizes by blast
qed

lemma syn_run_io_inv:
  assumes "syn_inv (s, u)"
    and "sock_run_io (syn_recv env) (syn_sent env) ks ws so_error events (s, u) wire = Inr (s', u', ks', ws', wire')"
  shows "syn_inv (s', u') \<and> (\<exists>k. syn_pend u' = drop k (syn_pend u))"
  using syn.run_io_in_order [OF syn_sent_keeps _ _ _ _ assms(2)] assms(1)
  by (auto simp: syn_inv_def)

lemma syn_send_queues:
  assumes "syn_inv (s, u)" "\<not> tx_rdy s" "\<not> rx_rdy s" "\<not> send_only cfg"
    and "is_ok (gen_service_time env cfg u)" "used (requests u) < length (buf (requests u))"
    and "used (tx_cbs s) < length (buf (tx_cbs s))" "used (rx_cbs s) < length (buf (rx_cbs s))"
    and "REQ_PKT_SIZE \<le> space (wbuf s)"
  shows "if straddles (wbuf s) REQ_PKT_SIZE
    then syn_send env cfg ks ws meas cb (s, u) wire = Inl (Undefined_behaviour ''memcpy past the end of an object'')
    else \<exists>s' u'. syn_send env cfg ks ws meas cb (s, u) wire = Inr (REQ_PKT_SIZE, s', u', ks, ws, wire) \<and>
      world u' = world u"
proof -
  have i: "sock_inv s" "syn_good (self s) u" using assms(1) by (simp_all add: syn_inv_def)
  have wf: "wf_buffer (wbuf s)" and tx: "tx_ok s" and wr: "wf_buffer (rx_cbs s)"
    using i(1) assms(7) by (simp_all add: sock_inv_def tx_inv_def rx_ok_def)
  obtain n u1 where g: "gen_service_time env cfg u = Inr (n, u1)" using assms(5) by (auto simp: is_ok_iff)
  have "wf_buffer (requests u1)" "used (requests u1) < length (buf (requests u1))"
    using gen_service_time_frame [OF g] i(2) assms(6) by (simp_all add: syn_good_def)
  then obtain q where q: "queue_emplace (requests u1) (SynReq meas cb n) = Inr (tail (requests u1), q)"
    using queue_emplace_ok [of "requests u1" "SynReq meas cb n"] by auto
  let ?f = "pkt_fields (slot_addr env (tail (requests u1))) False (req_service_us (buf q ! tail (requests u1)))"
  show ?thesis
  proof (cases "straddles (wbuf s) REQ_PKT_SIZE")
    case True
    obtain p1 p2 n1 where p: "write_prepare s 144 = Inr (p1, p2, n1)"
      using queue_prep_ok_iff [OF wf, of 144] assms(9) by (auto simp: is_ok_iff write_prepare_def)
    note seg = queue_prep_segments [OF wf p [unfolded write_prepare_def]]
    have "n1 < 144" using straddles_segments [OF wf p [unfolded write_prepare_def]] True by simp
    moreover have "\<not> n1 * 144 + (144 - n1) \<le> 144"
    proof -
      have "144 \<le> n1 * 144" using seg by simp
      with \<open>n1 < 144\<close> show ?thesis by linarith
    qed
    ultimately show ?thesis using True
      by (simp add: syn_send_def g q p object_bytes_def assms(4) Let_def)
  next
    case False
    obtain p1 p2 s1 where w: "write_prepare s 144 = Inr (p1, p2, 144)"
      "write_commit (set_wmem s (blit (buf (wbuf s)) p1 ?f)) 144 = Inr s1"
      using write_fields_ok [OF i(1), of 144 ?f] assms(9) False by auto
    obtain data where a: "appended s data s1" using commit_fields [OF i(1) w(1) _ w(2)] by auto
    have s1: "tx_ok s1" "used (tx_cbs s1) < length (buf (tx_cbs s1))" "rx_cbs s1 = rx_cbs s"
      "tx_rdy s1 = tx_rdy s" "rx_rdy s1 = rx_rdy s"
      using appended_tx_ok [OF tx a] a assms(7) by (auto simp: appended_def)
    obtain s2 where c: "write_cb_point s1 (Some ()) (tail (requests u1)) = Inr s2" "tx_same s1 s2" "tx_rdy s2 = tx_rdy s1"
      using write_cb_point_ok [OF s1(1,2)] by blast
    have s2: "rx_cbs s2 = rx_cbs s" "\<not> tx_rdy s2" "\<not> rx_rdy s2"
      using c s1 assms(2,3) by (simp_all add: tx_same_def)
    obtain t where "queue (rx_cbs s2) 1 = Inr (tail (rx_cbs s2), 1, (rx_cbs s2)\<lparr>tail := t, used := used (rx_cbs s2) + 1\<rparr>)"
      using queue_one [of "rx_cbs s2"] wr assms(8) s2(1) by auto
    moreover have "world u1 = world u" using gen_service_time_frame [OF g] by simp
    ultimately show ?thesis using False w c(1) s2(2,3)
      by (simp add: syn_send_def g q assms(4) Let_def read_clock_def try_tx_def sock_read_def)
  qed
qed

text \<open>What can happen to a generator after it is constructed.\<close>

inductive syn_reach :: "('k, 'w) syn_env \<Rightarrow> Config \<Rightarrow> (unit, unit, nat) Sock \<times> ('k, 'w) syn \<Rightarrow>
    (unit, unit, nat) Sock \<times> ('k, 'w) syn \<Rightarrow> bool" for env cfg su0 where
  syn_start: "syn_reach env cfg su0 su0"
| syn_connect: "syn_reach env cfg su0 (s, u) \<Longrightarrow> sock_connect k s = Inr s' \<Longrightarrow> syn_reach env cfg su0 (s', u)"
| syn_request: "syn_reach env cfg su0 (s, u) \<Longrightarrow>
    syn_send env cfg ks ws meas cb (s, u) wire = Inr (n, s', u', ks', ws', wire') \<Longrightarrow>
    syn_reach env cfg su0 (s', u')"
| syn_events: "syn_reach env cfg su0 (s, u) \<Longrightarrow>
    sock_run_io (syn_recv env) (syn_sent env) ks ws so_error events (s, u) wire =
      Inr (s', u', ks', ws', wire') \<Longrightarrow> syn_reach env cfg su0 (s', u')"

lemma syn_new_inv:
  "0 < nreqs \<Longrightarrow> 0 < nchars \<Longrightarrow> syn_inv (sock_new nreqs nchars sock 0, syn_new nreqs sock this w)"
  by (simp add: syn_inv_def sock_new_inv syn_good_def syn_new_def wf_buffer_new)
    (simp add: sock_new_def slots_def)

lemma syn_reach_inv: "syn_reach env cfg su0 su \<Longrightarrow> syn_inv su0 \<Longrightarrow> syn_inv su"
proof (induction rule: syn_reach.induct)
  case (syn_connect s u k s')
  then show ?case using connect_inv [of s k s'] connect_frame [of k s s'] by (auto simp: syn_inv_def)
next
  case (syn_request s u ks ws meas cb wire n s' u' ks' ws' wire')
  then show ?case using syn_send_inv by blast
next
  case (syn_events s u ks ws so_error events wire s' u' ks' ws' wire')
  then show ?case using syn_run_io_inv by blast
qed

subsection \<open>Properties\<close>

text \<open>C9: Responses are matched with requests in order: in every state a synthetic generator can
  reach, the pending reads await exactly the outstanding requests, oldest first, and whatever the
  network delivers then, \<open>recv_response\<close> never finds a wrong socket, size or request.\<close>

theorem synthetic_never_mismatches:
  assumes "syn_reach env cfg (sock_new nreqs nchars sock 0, syn_new nreqs sock this w) (s, u)"
    and "0 < nreqs" "0 < nchars"
  shows "awaiting (contents (rx_cbs s)) = slots (requests u) \<and> wf_buffer (requests u) \<and>
    (\<forall>ks e. sock_rx (syn_recv env) ks (s, u) = Inl e \<longrightarrow> \<not> syn_mismatch env e)"
proof -
  have "syn_inv (s, u)" using syn_reach_inv [OF assms(1) syn_new_inv [OF assms(2,3)]] .
  then have i: "sock_inv s" "syn_good (self s) u" "in_order RESP_PKT_SIZE (contents (rx_cbs s)) (syn_pend u)"
    by (simp_all add: syn_inv_def)
  have "rx_ok s" using i(1) by (simp add: sock_inv_def)
  note ord = syn.sock_in_order [OF this refl i(2,3), of env]
  have "\<not> syn_mismatch env e" if "sock_rx (syn_recv env) ks (s, u) = Inl e" for ks e
    using ord [of ks] that by simp
  with i(2,3) show ?thesis by (simp add: in_order_def syn_good_def)
qed

text \<open>C25: When the response to the oldest request arrives, its latencies are reported from its own
  timestamps: the time in the client from generation to transmission, the service time
  from generation to arrival, and as waiting time what exceeds the work asked for, never negative; the
  request is then gone. It is an error if the request was not sent strictly after its start or the
  response not received strictly after it.\<close>

theorem synthetic_latencies:
  assumes "wf_buffer (requests u)" "sock_ref u = this" "slots (requests u) = p # ps" "length bs = RESP_PKT_SIZE"
    and "buf (requests u) ! p = req" "clk env (ticks u) = now"
  shows "if start_ts req < sent_ts req \<and> start_ts req < now
    then \<exists>q. wf_buffer q \<and> slots q = ps \<and>
      (let queue_us = nat ((sent_ts req - start_ts req) div 1000); service = nat ((now - start_ts req) div 1000) in
       syn_recv env cb this p bs None 0 u =
         rbind (call_request_cb env (req_cb req) (this_ref u) queue_us service
                  (service - unat (req_service_us req)) 8 (measure_req req) (world u)) (\<lambda>w.
         Inr (0, u\<lparr>requests := q, ticks := Suc (ticks u), world := w\<rparr>)))
    else \<not> is_ok (syn_recv env cb this p bs None 0 u)"
proof -
  have g: "syn_good this u" using assms(1,2) by (simp add: syn_good_def)
  obtain q where q: "wf_buffer q" "slots q = ps" and eq: "syn_recv env cb this p bs None 0 u =
      rbind (latencies ''Synthetic'' req now) (\<lambda>(queue_us, service_us).
       rbind (call_request_cb env (req_cb req) (this_ref u) queue_us service_us
                (service_us - unat (req_service_us req)) RESP_PKT_SIZE (measure_req req) (world u)) (\<lambda>w.
       Inr (0, u\<lparr>requests := q, ticks := Suc (ticks u), world := w\<rparr>)))"
    using syn_recv_matched [OF g assms(3,4), of env cb] assms(5,6) by (auto simp: Let_def)
  show ?thesis
  proof (cases "start_ts req < sent_ts req \<and> start_ts req < now")
    case True
    then have "latencies ''Synthetic'' req now =
        Inr (nat ((sent_ts req - start_ts req) div 1000), nat ((now - start_ts req) div 1000))"
      by (simp add: latencies_def)
    with True q eq show ?thesis by (auto simp: Let_def)
  next
    case False
    then have "\<not> is_ok (latencies ''Synthetic'' req now)" by (simp add: latencies_ok_iff)
    with False eq show ?thesis by (cases "latencies ''Synthetic'' req now") auto
  qed
qed

text \<open>Sending a synthetic request keeps every invariant, queues exactly one request behind those
  outstanding and reports the 144 bytes of its packet.\<close>

theorem synthetic_send:
  assumes "syn_inv (s, u)" "syn_send env cfg ks ws meas cb (s, u) wire = Inr (n, s', u', ks', ws', wire')"
  shows "syn_inv (s', u') \<and> n = 144 \<and> (\<exists>p k. slots (requests u') = drop k (slots (requests u) @ [p]))"
  using syn_send_inv [OF assms] by auto

text \<open>A send finds room and succeeds on a socket that is not ready yet, as long as request and callback queues have a
  slot and the buffer 144 bytes, except when the packet would wrap: then the fragmented branch
  copies from \<open>&pkt + n1\<close>, past the packet.\<close>

theorem synthetic_send_outcome:
  assumes "syn_inv (s, u)" "\<not> tx_rdy s" "\<not> rx_rdy s" "\<not> send_only cfg"
    and "is_ok (gen_service_time env cfg u)" "items (requests u) < buffer_size (requests u)"
    and "items (tx_cbs s) < buffer_size (tx_cbs s)" "items (rx_cbs s) < buffer_size (rx_cbs s)"
    and "144 \<le> space (wbuf s)"
  shows "if straddles (wbuf s) 144
    then syn_send env cfg ks ws meas cb (s, u) wire = Inl (Undefined_behaviour ''memcpy past the end of an object'')
    else \<exists>s' u'. syn_send env cfg ks ws meas cb (s, u) wire = Inr (144, s', u', ks, ws, wire)"
  using syn_send_queues [OF assms(1-5), unfolded pkt_sizes, of ks ws meas cb wire] assms(6-9)
  by (auto simp: items_def buffer_size_def split: if_splits)

text \<open>In send-only mode nothing takes requests out of the queue (the server does not answer), so a full queue
  is a permanent error: once \<open>MAX_OUTSTANDING_REQS\<close> requests were sent, every send throws.\<close>

theorem send_only_fills:
  assumes "wf_buffer (requests u)" "used (requests u) = length (buf (requests u))"
    "is_ok (gen_service_time env cfg u)"
  shows "syn_send env cfg ks ws meas cb (s, u) wire =
    Inl (System_error ENOSPC ''buffer::queue_prep: buffer full'')"
proof -
  obtain n u1 where g: "gen_service_time env cfg u = Inr (n, u1)" using assms(3) by (auto simp: is_ok_iff)
  from gen_service_time_frame [OF g] assms(1,2) show ?thesis
    by (simp add: syn_send_def g queue_emplace_full)
qed


text \<open>For the witnesses: a clock that advances by 5 microseconds per reading, a client that keeps the
  latencies it is told, requests for 3 microseconds of work.\<close>

definition demo_env :: "(unit, (nat \<times> nat \<times> nat) list) syn_env" where
  "demo_env = \<lparr>clk = (\<lambda>n. 5000 * int n), request_cb = (\<lambda>k this q sv w n m wd. Inr (wd @ [(q, sv, w)])),
     exp_draw = (\<lambda>n. 1), lognorm_draw = (\<lambda>n. 1), slot_addr = (\<lambda>n. word_of_nat (64 * n)), stack_junk = (\<lambda>n. 0)\<rparr>"

definition demo_cfg :: Config where
  "demo_cfg = config_default\<lparr>service_dist := FIXED, service_us := 3\<rparr>"

definition demo_syn :: "(unit, (nat \<times> nat \<times> nat) list) syn" where
  "demo_syn = syn_new 2 9 1 []"

definition demo_syn_sock :: "(unit, unit, nat) Sock" where
  "demo_syn_sock = sock_new 2 200 9 0"

lemma demo_service: "is_ok (gen_service_time demo_env demo_cfg u)"
  by (simp add: gen_service_time_def demo_cfg_def to_uint64_def)

lemma demo_syn_inv: "syn_inv (demo_syn_sock, demo_syn)"
  by (simp add: demo_syn_sock_def demo_syn_def syn_new_inv)

lemmas demo_syn_defs = demo_syn_sock_def demo_syn_def sock_new_def syn_new_def buffer_new_def

lemma demo_syn_room: "\<not> tx_rdy demo_syn_sock" "\<not> rx_rdy demo_syn_sock" "\<not> send_only demo_cfg"
  "used (requests demo_syn) < length (buf (requests demo_syn))"
  "used (tx_cbs demo_syn_sock) < length (buf (tx_cbs demo_syn_sock))"
  "used (rx_cbs demo_syn_sock) < length (buf (rx_cbs demo_syn_sock))"
  "REQ_PKT_SIZE \<le> space (wbuf demo_syn_sock)" "\<not> straddles (wbuf demo_syn_sock) REQ_PKT_SIZE"
  by (simp_all add: demo_syn_defs demo_cfg_def config_default_def space_def buffer_size_def straddles_def bufcap_def)

lemma demo_syn_sent:
  "\<exists>s u. syn_send demo_env demo_cfg [] [] True (Some ()) (demo_syn_sock, demo_syn) [] =
     Inr (144, s, u, [], [], [])"
  using syn_send_queues [OF demo_syn_inv demo_syn_room(1-3) demo_service demo_syn_room(4-7), of "[]" "[]" True "Some ()" "[]"]
    demo_syn_room(8) by auto

theorem synthetic_send_outcome_witness:
  "\<exists>s u. syn_send demo_env demo_cfg [] [] True (Some ()) (demo_syn_sock, demo_syn) [] =
     Inr (144, s, u, [], [], [])"
  using synthetic_send_outcome [OF demo_syn_inv demo_syn_room(1-3) demo_service]
    demo_syn_room(4-8) by (simp add: items_def buffer_size_def)

theorem synthetic_send_witness:
  "\<exists>s u. syn_send demo_env demo_cfg [] [] True (Some ()) (demo_syn_sock, demo_syn) [] =
     Inr (144, s, u, [], [], []) \<and> syn_inv (s, u)"
proof -
  obtain s u where r: "syn_send demo_env demo_cfg [] [] True (Some ()) (demo_syn_sock, demo_syn) [] =
     Inr (144, s, u, [], [], [])" using demo_syn_sent by blast
  from synthetic_send [OF demo_syn_inv r] r show ?thesis by blast
qed

theorem synthetic_never_mismatches_witness:
  "\<exists>s u. syn_send demo_env demo_cfg [] [] True (Some ()) (demo_syn_sock, demo_syn) [] =
     Inr (144, s, u, [], [], []) \<and> awaiting (contents (rx_cbs s)) = slots (requests u)"
proof -
  obtain s u where r: "syn_send demo_env demo_cfg [] [] True (Some ()) (demo_syn_sock, demo_syn) [] =
     Inr (144, s, u, [], [], [])" using demo_syn_sent by blast
  have "syn_reach demo_env demo_cfg (sock_new 2 200 9 0, syn_new 2 9 1 []) (s, u)"
    using syn_request [OF syn_start r] by (simp add: demo_syn_sock_def demo_syn_def)
  from synthetic_never_mismatches [OF this] r show ?thesis by auto
qed

definition demo_waiting :: "(unit, (nat \<times> nat \<times> nat) list) syn" where
  "demo_waiting = demo_syn\<lparr>ticks := 2, requests :=
     \<lparr>buf = [\<lparr>measure_req = True, req_cb = Some (), start_ts = 1000, sent_ts = 3500, req_service_us = 3\<rparr>,
        SynReq False None 0], head = 0, tail = 1, used = 1\<rparr>\<rparr>"

theorem synthetic_latencies_witness:
  "\<exists>u. syn_recv demo_env () 9 0 (replicate 8 0) None 0 demo_waiting = Inr (0, u) \<and> world u = [(2, 9, 6)]"
proof -
  have w: "wf_buffer (requests demo_waiting)" "sock_ref demo_waiting = 9" "slots (requests demo_waiting) = [0]"
    "world demo_waiting = []" "buf (requests demo_waiting) ! 0 =
      \<lparr>measure_req = True, req_cb = Some (), start_ts = 1000, sent_ts = 3500, req_service_us = 3\<rparr>"
    "clk demo_env (ticks demo_waiting) = 10000"
    by (simp_all add: demo_waiting_def demo_syn_def syn_new_def wf_buffer_def ring_ix_def slots_def demo_env_def)
  from synthetic_latencies [OF w(1-3) _ w(5,6), of "replicate 8 0" "()"] show ?thesis
    by (auto simp: Let_def call_request_cb_def demo_env_def w(4))
qed

theorem send_only_fills_witness:
  "syn_send demo_env demo_cfg [] [] True (Some ())
     (demo_syn_sock, demo_syn\<lparr>requests := (requests demo_syn)\<lparr>used := 2\<rparr>\<rparr>) [] =
   Inl (System_error ENOSPC ''buffer::queue_prep: buffer full'')"
  by (rule send_only_fills)
    (simp_all add: demo_syn_defs wf_buffer_def ring_ix_def demo_service)

end
