(* ===== verification/Client_Gens.thy ===== *)
theory Client_Gens
  imports Client_Run Gen_Synthetic Gen_Memcache
begin

section \<open>The client with its generators (client/client.cc, client/generator.hh, client/mutated_*.cc)\<close>

text \<open>
  The generators of the program as what the client calls: \<open>generator_ops\<close> dispatches on the protocol and on the kind of
  generator, and passes \<open>record_sample\<close> as the callback. The interpretation of \<open>client_generator\<close> shows that they keep
  the laws the client relies on, so that the lemmas on the run hold for the program. \<open>io_answers\<close> is what the
  kernel answers during one call.
\<close>

record io_answers =
  ia_connect :: connect_env
  ia_reads :: "rd_result list"
  ia_writes :: "wr_result list"
  ia_so_error :: "int \<times> int \<times> int"

text \<open>What the generators take from outside the client, by the address of the generator.\<close>

record gen_setup =
  syn_envs :: "nat \<Rightarrow> (unit, client) syn_env"
  mem_envs :: "nat \<Rightarrow> (unit, client) mem_env"
  mem_seed :: "nat \<Rightarrow> 64 word"

datatype generator =
    Syn_gen "(unit, unit, nat) Sock" "(unit, client) syn"
  | Mem_gen "(unit, unit, nat) Sock" "(unit, client) mem"

subsection \<open>Construction and destruction\<close>

text \<open>The state of the client in a generator is the one of the last call; before the first there is none.\<close>

definition no_client :: client where
  "no_client = \<lparr>results = results_new 0, sent_count = 0, rcvd_count = 0, measure_count = 0, pre_samples = 0,
     post_samples = 0, measure_samples = 0, total_samples = 0, exp_start_time = 0, schedule = [],
     missed_threshold = 0, missed_send = 0, conns = [], rr_idx = 0, refs = (\<lambda>_. \<lparr>ref_cnt = 0, freed = True\<rparr>)\<rparr>"

definition syn_env_of :: "gen_setup \<Rightarrow> io_answers client_env \<Rightarrow> Config \<Rightarrow> nat \<Rightarrow> (unit, client) syn_env" where
  "syn_env_of st env cfg a = (syn_envs st a)\<lparr>request_cb := (\<lambda>k. record_sample env cfg)\<rparr>"

definition mem_env_of :: "gen_setup \<Rightarrow> io_answers client_env \<Rightarrow> Config \<Rightarrow> nat \<Rightarrow> (unit, client) mem_env" where
  "mem_env_of st env cfg a = (mem_envs st a)\<lparr>request_cb := (\<lambda>k. record_sample env cfg),
     key_mem := (case kv_setup cfg None of Inl e \<Rightarrow> [] | Inr keys \<Rightarrow> keys)\<rparr>"

definition new_generator :: "gen_setup \<Rightarrow> Config \<Rightarrow> io_answers \<Rightarrow> nat \<Rightarrow> generator res" where
  "new_generator st cfg i a =
     (let s = sock_new MAX_OUTSTANDING_REQS CHARBUF_SIZE a 0 in
      case protocol cfg of
        SYNTHETIC \<Rightarrow>
          rbind (sock_connect (ia_connect i) s) (\<lambda>s. Inr (Syn_gen s (syn_new MAX_OUTSTANDING_REQS a a no_client)))
      | MEMCACHE \<Rightarrow>
          rbind (kv_setup cfg None) (\<lambda>keys.
          rbind (sock_connect (ia_connect i) s) (\<lambda>s.
          Inr (Mem_gen s (mem_new MAX_OUTSTANDING_REQS a a (mem_seed st a) no_client)))))"

text \<open>The socket is destroyed after the members of the derived class: a callback it still cancels works on a destroyed
  object.\<close>

definition dead_rx :: "(unit, nat, unit) rx_handler" where
  "dead_rx cb this d seg1 seg2 st u = Inl (Undefined_behaviour ''callback of a destroyed generator'')"

definition dead_tx :: "(unit, nat, unit) tx_handler" where
  "dead_tx cb this d st u = Inl (Undefined_behaviour ''callback of a destroyed generator'')"

fun delete_generator :: "generator \<Rightarrow> unit res" where
  "delete_generator (Syn_gen s u) = rbind (sock_destroy dead_rx dead_tx (s, ())) (\<lambda>_. Inr ())"
| "delete_generator (Mem_gen s u) = rbind (sock_destroy dead_rx dead_tx (s, ())) (\<lambda>_. Inr ())"

subsection \<open>Requests and events\<close>

fun generator_send :: "gen_setup \<Rightarrow> io_answers client_env \<Rightarrow> Config \<Rightarrow> io_answers \<Rightarrow> bool \<Rightarrow> generator \<Rightarrow> client \<Rightarrow>
    (64 word \<times> generator \<times> client) res" where
  "generator_send st env cfg i meas (Syn_gen s u) c =
     rbind (syn_send (syn_env_of st env cfg (this_ref u)) cfg (ia_reads i) (ia_writes i) meas (Some ())
              (s, u\<lparr>world := c\<rparr>) []) (\<lambda>(n, s, u, ks, ws, wire).
     Inr (word_of_nat n, Syn_gen s u, gen.world u))"
| "generator_send st env cfg i meas (Mem_gen s u) c =
     rbind (mem_send (mem_env_of st env cfg (this_ref u)) cfg (ia_reads i) (ia_writes i) meas (Some ())
              (s, u\<lparr>world := c\<rparr>) []) (\<lambda>(n, s, u, ks, ws, wire).
     Inr (word_of_nat n, Mem_gen s u, gen.world u))"

fun generator_io :: "gen_setup \<Rightarrow> io_answers client_env \<Rightarrow> Config \<Rightarrow> io_answers \<Rightarrow> 32 word \<Rightarrow> generator \<Rightarrow> client \<Rightarrow>
    (unit \<times> generator \<times> client) res" where
  "generator_io st env cfg i events (Syn_gen s u) c =
     (let e = syn_env_of st env cfg (this_ref u) in
      rbind (sock_run_io (syn_recv e) (syn_sent e) (ia_reads i) (ia_writes i) (ia_so_error i) events
               (s, u\<lparr>world := c\<rparr>) []) (\<lambda>(s, u, ks, ws, wire).
      Inr ((), Syn_gen s u, gen.world u)))"
| "generator_io st env cfg i events (Mem_gen s u) c =
     (let e = mem_env_of st env cfg (this_ref u) in
      rbind (sock_run_io (mem_recv e) (mem_sent e) (ia_reads i) (ia_writes i) (ia_so_error i) events
               (s, u\<lparr>world := c\<rparr>) []) (\<lambda>(s, u, ks, ws, wire).
      Inr ((), Mem_gen s u, gen.world u)))"

definition generator_ops :: "gen_setup \<Rightarrow> io_answers client_env \<Rightarrow> Config \<Rightarrow> (generator, io_answers) gen_ops" where
  "generator_ops st env cfg =
     \<lparr>g_new = new_generator st cfg, g_send = generator_send st env cfg, g_io = generator_io st env cfg,
      g_destroy = delete_generator\<rparr>"

subsection \<open>Their callbacks\<close>

text \<open>Which of the outstanding requests are to be measured, oldest first.\<close>

definition flags :: "(('k, 'z) Req_scheme, 'w, 'y) gen_scheme \<Rightarrow> bool list" where
  "flags u = map measure_req (contents (requests u))"

lemma flags_set_req:
  assumes "\<And>r. measure_req (f r) = measure_req r"
  shows "flags (set_req u p f) = flags u"
proof -
  have "measure_req (xs[p := f (xs ! p)] ! i) = measure_req (xs ! i)" for xs i
    by (cases "p < length xs"; cases "i = p") (simp_all add: assms list_update_beyond)
  then show ?thesis by (simp add: flags_def set_req_def contents_def slots_def ring_ix_def)
qed

lemma flags_simps [simp]:
  "flags (u\<lparr>world := c\<rparr>) = flags u" "flags (u\<lparr>requests := q, ticks := t\<rparr>) = map measure_req (contents q)"
  "measure_req (SynReq m cb service) = m" "measure_req (MemReq op m cb) = m"
  by (simp_all add: flags_def SynReq_def MemReq_def)

lemma flags_start [simp]: "flags (set_req u p (\<lambda>r. r\<lparr>start_ts := t\<rparr>)) = flags u"
  by (rule flags_set_req) simp

text \<open>Between \<open>u\<close> and \<open>v\<close> a generator called the client back once for each request it took out of its queue.\<close>

definition answers :: "io_answers client_env \<Rightarrow> Config \<Rightarrow> (('k, 'z) Req_scheme, client, 'y) gen_scheme \<Rightarrow>
    (('k, 'z) Req_scheme, client, 'y) gen_scheme \<Rightarrow> bool" where
  "answers env cfg u v \<longleftrightarrow> this_ref v = this_ref u \<and>
     (wf_buffer (requests u) \<longrightarrow> wf_buffer (requests v) \<and>
       (\<exists>ss. answered env cfg (this_ref u) ss (gen.world u) = Inr (gen.world v) \<and> map is_measured ss @ flags v = flags u))"

lemma answers_refl: "answers env cfg u u"
  by (auto simp: answers_def intro: exI [of _ "[]"])

lemma answers_trans:
  assumes "answers env cfg u v" "answers env cfg v w"
  shows "answers env cfg u w"
  unfolding answers_def
proof (intro conjI impI)
  show "this_ref w = this_ref u" using assms by (simp add: answers_def)
  assume wf: "wf_buffer (requests u)"
  with assms obtain ss ts where
    "answered env cfg (this_ref u) ss (gen.world u) = Inr (gen.world v)" "map is_measured ss @ flags v = flags u"
    "answered env cfg (this_ref u) ts (gen.world v) = Inr (gen.world w)" "map is_measured ts @ flags w = flags v"
    "wf_buffer (requests w)" by (auto simp: answers_def)
  then show "wf_buffer (requests w)"
    "\<exists>ss. answered env cfg (this_ref u) ss (gen.world u) = Inr (gen.world w) \<and> map is_measured ss @ flags w = flags u"
    by (auto simp: answered_append intro!: exI [of _ "ss @ ts"])
qed

lemma dequeued:
  assumes "dequeue_one (requests u) = Inr (p, q)" "wf_buffer (requests u)"
  shows "wf_buffer q \<and> flags u = measure_req (buf q ! p) # map measure_req (contents q)"
proof -
  have "used (requests u) \<noteq> 0"
    using assms(1) by (auto simp: dequeue_one_def dequeue_def drop_items_def peek_def Let_def items_def split: if_splits)
  then have pos: "0 < used (requests u)" by simp
  then have "contents (requests u) \<noteq> []" using length_contents [of "requests u"] by fastforce
  with dequeue_one_ok [OF assms(2) pos] assms(1) show ?thesis by (auto simp: flags_def neq_Nil_conv)
qed

text \<open>One response: the oldest request leaves the queue and the client is told.\<close>

lemma answers_one:
  assumes "dequeue_one (requests u) = Inr (p, q)"
    and "record_sample env cfg (this_ref u) a b c d (measure_req (buf q ! p)) (gen.world u) = Inr wd"
    and "this_ref v = this_ref u" "requests v = q" "gen.world v = wd"
  shows "answers env cfg u v"
  unfolding answers_def
proof (intro conjI impI)
  assume wf: "wf_buffer (requests u)"
  note d = dequeued [OF assms(1) wf]
  then show "wf_buffer (requests v)" using assms(4) by simp
  let ?s = "(a, b, c, d, measure_req (buf q ! p))"
  have "map is_measured [?s] @ flags v = flags u" using d assms(4) by (simp add: is_measured_def flags_def)
  moreover have "answered env cfg (this_ref u) [?s] (gen.world u) = Inr (gen.world v)" using assms(2,5) by (simp add: recorded_def)
  ultimately show
    "\<exists>ss. answered env cfg (this_ref u) ss (gen.world u) = Inr (gen.world v) \<and> map is_measured ss @ flags v = flags u"
    by blast
qed (use assms in simp)

lemma answers_frame:
  "this_ref v = this_ref u \<Longrightarrow> wf_buffer (requests v) = wf_buffer (requests u) \<Longrightarrow> flags v = flags u \<Longrightarrow>
    gen.world v = gen.world u \<Longrightarrow> answers env cfg u v"
  by (auto simp: answers_def intro: exI [of _ "[]"])

lemma answers_slot:
  assumes "\<And>r. measure_req (f r) = measure_req r" "this_ref v = this_ref u" "requests v = requests u" "gen.world v = gen.world u"
  shows "answers env cfg u (set_req v p f)"
proof (rule answers_frame)
  show "flags (set_req v p f) = flags u" using flags_set_req [of f v p] assms(1,3) by (simp add: flags_def)
qed (use assms(2-4) in \<open>simp_all add: set_req_def wf_buffer_def ring_ix_def\<close>)

lemma syn_recv_answers: "rx_keeps (syn_recv (syn_env_of st env cfg a)) (answers env cfg)"
  unfolding rx_keeps_def
proof (intro conjI allI impI)
  show "answers env cfg u u" for u :: "(unit, client) syn" by (rule answers_refl)
  show "answers env cfg u w" if "answers env cfg u v" "answers env cfg v w" for u v w :: "(unit, client) syn"
    using that by (rule answers_trans)
  fix cb this d s1 s2 n and u u' :: "(unit, client) syn"
  assume r: "syn_recv (syn_env_of st env cfg a) cb this d s1 s2 0 u = Inr (n, u')"
  show "answers env cfg u u'"
    using r by (auto simp: syn_recv_def rbind_eq_Inr Let_def read_clock_def call_request_cb_def syn_env_of_def
        split: if_splits option.splits intro: answers_one)
qed

lemma mem_recv_answers: "rx_keeps (mem_recv (mem_env_of st env cfg a)) (answers env cfg)"
  unfolding rx_keeps_def
proof (intro conjI allI impI)
  show "answers env cfg u u" for u :: "(unit, client) mem" by (rule answers_refl)
  show "answers env cfg u w" if "answers env cfg u v" "answers env cfg v w" for u v w :: "(unit, client) mem"
    using that by (rule answers_trans)
  fix cb this d s1 s2 n and u u' :: "(unit, client) mem"
  assume r: "mem_recv (mem_env_of st env cfg a) cb this d s1 s2 0 u = Inr (n, u')"
  show "answers env cfg u u'"
    using r by (auto simp: mem_recv_def rbind_eq_Inr Let_def read_clock_def call_request_cb_def mem_env_of_def
        split: if_splits option.splits intro: answers_one)
qed

lemma syn_sent_answers: "tx_keeps (syn_sent (syn_env_of st env cfg a)) (answers env cfg)"
  unfolding tx_keeps_def
proof (intro conjI allI impI)
  show "answers env cfg u u" for u :: "(unit, client) syn" by (rule answers_refl)
  show "answers env cfg u w" if "answers env cfg u v" "answers env cfg v w" for u v w :: "(unit, client) syn"
    using that by (rule answers_trans)
  fix cb this d t and u u' :: "(unit, client) syn"
  assume "syn_sent (syn_env_of st env cfg a) cb this d t u = Inr u'"
  then show "answers env cfg u u'"
    by (auto simp: syn_sent_def read_clock_def Let_def answers_refl split: if_splits intro!: answers_slot)
qed

lemma mem_sent_answers: "tx_keeps (mem_sent (mem_env_of st env cfg a)) (answers env cfg)"
  unfolding tx_keeps_def
proof (intro conjI allI impI)
  show "answers env cfg u u" for u :: "(unit, client) mem" by (rule answers_refl)
  show "answers env cfg u w" if "answers env cfg u v" "answers env cfg v w" for u v w :: "(unit, client) mem"
    using that by (rule answers_trans)
  fix cb this d t and u u' :: "(unit, client) mem"
  assume "mem_sent (mem_env_of st env cfg a) cb this d t u = Inr u'"
  then show "answers env cfg u u'"
    by (auto simp: mem_sent_def read_clock_def Let_def answers_refl split: if_splits intro!: answers_slot)
qed

subsection \<open>How a call can end the program\<close>

definition stops :: "io_answers client_env \<Rightarrow> Config \<Rightarrow> (('k, 'z) Req_scheme, client, 'y) gen_scheme \<Rightarrow> exn \<Rightarrow> bool" where
  "stops env cfg u e \<longleftrightarrow> (wf_buffer (requests u) \<longrightarrow> ends env cfg (this_ref u) (flags u) (gen.world u) e)"

lemma stops_before:
  assumes "answers env cfg u v" "stops env cfg v e"
  shows "stops env cfg u e"
  unfolding stops_def
proof
  assume wf: "wf_buffer (requests u)"
  with assms(1) obtain ss where ss: "this_ref v = this_ref u" "wf_buffer (requests v)"
    "answered env cfg (this_ref u) ss (gen.world u) = Inr (gen.world v)" "map is_measured ss @ flags v = flags u"
    by (auto simp: answers_def)
  from assms(2) ss(1,2) have "ends env cfg (this_ref u) (flags v) (gen.world v) e" by (simp add: stops_def)
  then show "ends env cfg (this_ref u) (flags u) (gen.world u) e"
    unfolding ends_def
  proof (elim disjE exE conjE)
    fix ts s c1 rest
    assume t: "answered env cfg (this_ref u) ts (gen.world v) = Inr c1" "recorded env cfg (this_ref u) s c1 = Inl e"
      "flags v = map is_measured ts @ is_measured s # rest"
    from ss(3) t(1) have "answered env cfg (this_ref u) (ss @ ts) (gen.world u) = Inr c1" by (simp add: answered_append)
    moreover have "flags u = map is_measured (ss @ ts) @ is_measured s # rest" using ss(4) [symmetric] t(3) by simp
    ultimately show "no_exit e \<or> (\<exists>ss s c1 rest. answered env cfg (this_ref u) ss (gen.world u) = Inr c1 \<and>
        recorded env cfg (this_ref u) s c1 = Inl e \<and> flags u = map is_measured ss @ is_measured s # rest)"
      using t(2) by blast
  qed simp
qed

lemma stops_one:
  assumes "dequeue_one (requests u) = Inr (p, q)"
    and "record_sample env cfg (this_ref u) a b c d (measure_req (buf q ! p)) (gen.world u) = Inl e"
  shows "stops env cfg u e"
  unfolding stops_def ends_def
proof (intro impI disjI2 exI conjI)
  assume "wf_buffer (requests u)"
  from dequeued [OF assms(1) this] show
    "flags u = map is_measured [] @ is_measured (a, b, c, d, measure_req (buf q ! p)) # map measure_req (contents q)"
    by (simp add: is_measured_def)
  show "recorded env cfg (this_ref u) (a, b, c, d, measure_req (buf q ! p)) (gen.world u) = Inl e"
    using assms(2) by (simp add: recorded_def)
qed simp

lemma stops_no_exit: "no_exit e \<Longrightarrow> stops env cfg u e"
  by (simp add: stops_def ends_def)

lemma latencies_exits [exits]: "latencies who req now = Inl e \<Longrightarrow> no_exit e"
  by (auto simp: latencies_def Let_def split: if_splits)

lemma resp_header_exits [exits]: "resp_header s1 s2 = Inl e \<Longrightarrow> no_exit e"
  by (auto simp: resp_header_def Let_def split: if_splits option.splits)

lemma syn_recv_stops: "rx_fails (syn_recv (syn_env_of st env cfg a)) (answers env cfg) (stops env cfg)"
  unfolding rx_fails_def
proof (intro conjI allI impI)
  show "rx_keeps (syn_recv (syn_env_of st env cfg a)) (answers env cfg)" by (rule syn_recv_answers)
  show "stops env cfg u e" if "answers env cfg u v" "stops env cfg v e" for u v :: "(unit, client) syn" and e
    using that by (rule stops_before)
  show "stops env cfg u e" if "no_exit e" for u :: "(unit, client) syn" and e using that by (rule stops_no_exit)
  fix cb this d s1 s2 e and u :: "(unit, client) syn"
  assume r: "syn_recv (syn_env_of st env cfg a) cb this d s1 s2 0 u = Inl e"
  show "stops env cfg u e"
  proof (cases "no_exit e")
    case False
    with r obtain p q c b sv w n where c: "dequeue_one (requests u) = Inr (p, q)"
      "call_request_cb (syn_env_of st env cfg a) c (this_ref u) b sv w n (measure_req (buf q ! p)) (gen.world u) = Inl e"
      unfolding syn_recv_def Let_def read_clock_def
      by (auto simp: rbind_eq_Inl dest: exits split: if_splits)
    with False have "record_sample env cfg (this_ref u) b sv w n (measure_req (buf q ! p)) (gen.world u) = Inl e"
      by (auto simp: call_request_cb_def syn_env_of_def split: option.splits)
    then show ?thesis by (rule stops_one [OF c(1)])
  qed (rule stops_no_exit)
qed

lemma mem_recv_stops: "rx_fails (mem_recv (mem_env_of st env cfg a)) (answers env cfg) (stops env cfg)"
  unfolding rx_fails_def
proof (intro conjI allI impI)
  show "rx_keeps (mem_recv (mem_env_of st env cfg a)) (answers env cfg)" by (rule mem_recv_answers)
  show "stops env cfg u e" if "answers env cfg u v" "stops env cfg v e" for u v :: "(unit, client) mem" and e
    using that by (rule stops_before)
  show "stops env cfg u e" if "no_exit e" for u :: "(unit, client) mem" and e using that by (rule stops_no_exit)
  fix cb this d s1 s2 e and u :: "(unit, client) mem"
  assume r: "mem_recv (mem_env_of st env cfg a) cb this d s1 s2 0 u = Inl e"
  show "stops env cfg u e"
  proof (cases "no_exit e")
    case False
    with r obtain p q c b sv w n where c: "dequeue_one (requests u) = Inr (p, q)"
      "call_request_cb (mem_env_of st env cfg a) c (this_ref u) b sv w n (measure_req (buf q ! p)) (gen.world u) = Inl e"
      unfolding mem_recv_def Let_def read_clock_def
      by (auto simp: rbind_eq_Inl dest: exits split: if_splits)
    with False have "record_sample env cfg (this_ref u) b sv w n (measure_req (buf q ! p)) (gen.world u) = Inl e"
      by (auto simp: call_request_cb_def mem_env_of_def split: option.splits)
    then show ?thesis by (rule stops_one [OF c(1)])
  qed (rule stops_no_exit)
qed

lemma sent_fails: "tx_fails (syn_sent e)" "tx_fails (mem_sent e')"
  by (auto simp: tx_fails_def syn_sent_def mem_sent_def read_clock_def Let_def split: if_splits)

lemma gen_service_time_exits [exits]: "gen_service_time e cfg u = Inl x \<Longrightarrow> no_exit x"
  by (auto simp: gen_service_time_def to_uint64_def Let_def rbind_eq_Inl split: if_splits)

lemma syn_send_error:
  assumes "syn_send env cfg ks ws meas cb (s, u) wire = Inl e" "\<not> send_only cfg"
  shows "no_exit e \<or> (\<exists>service u1 p q s2 s3 u3 ws' wire'.
    gen_service_time env cfg u = Inr (service, u1) \<and> queue_emplace (requests u1) (SynReq meas cb service) = Inr (p, q) \<and>
    try_tx (syn_sent env) ws (s2, set_req (u1\<lparr>requests := q, ticks := Suc (ticks u1)\<rparr>) p
       (\<lambda>r. r\<lparr>start_ts := clk env (ticks u1)\<rparr>)) wire = Inr (s3, u3, ws', wire') \<and>
    sock_read (syn_recv env) ks (s3, u3)
       \<lparr>hdrlen = RESP_PKT_SIZE, hdrcb = Some (), bodylen = 0, bodycb = None, rxdata = p\<rparr> = Inl e)"
  using assms
  by (auto simp: syn_send_def rbind_eq_Inl Let_def read_clock_def dest: exits try_tx_exits [OF sent_fails(1)]
      split: if_splits option.splits) blast+

lemma choose_key_exits [exits]: "choose_key cfg i = Inl e \<Longrightarrow> no_exit e"
  by (auto simp: choose_key_def split: if_splits)

lemma read_mem_exits [exits]: "read_mem m i n = Inl e \<Longrightarrow> no_exit e"
  by (auto simp: read_mem_def split: if_splits)

lemma mem_write_request_exits [exits]: "mem_write_request env cfg op key klen s = Inl e \<Longrightarrow> no_exit e"
  by (auto simp: mem_write_request_def rbind_eq_Inl dest: exits split: if_splits)

lemma mem_send_error:
  assumes "mem_send env cfg ks ws meas cb (s, u) wire = Inl e"
  shows "no_exit e \<or> (\<exists>op u1 p q s2 s3 u3 ws' wire'.
    choose_cmd env cfg (u\<lparr>seqid := seqid u + 1\<rparr>) = (op, u1) \<and> queue_emplace (requests u1) (MemReq op meas cb) = Inr (p, q) \<and>
    try_tx (mem_sent env) ws (s2, set_req (u1\<lparr>requests := q, ticks := Suc (ticks u1)\<rparr>) p
       (\<lambda>r. r\<lparr>start_ts := clk env (ticks u1)\<rparr>)) wire = Inr (s3, u3, ws', wire') \<and>
    sock_read (mem_recv env) ks (s3, u3)
       \<lparr>hdrlen = SIZE, hdrcb = Some (), bodylen = 0, bodycb = None, rxdata = p\<rparr> = Inl e)"
proof -
  obtain op u1 where c: "choose_cmd env cfg (u\<lparr>seqid := seqid u + 1\<rparr>) = (op, u1)" by fastforce
  show ?thesis using assms c
    by (auto simp: mem_send_def rbind_eq_Inl Let_def read_clock_def dest: exits try_tx_exits [OF sent_fails(2)]) blast+
qed

subsection \<open>The laws of the interface\<close>

fun generator_inv :: "nat \<Rightarrow> generator \<Rightarrow> bool" where
  "generator_inv a (Syn_gen s u) \<longleftrightarrow> syn_inv (s, u) \<and> this_ref u = a"
| "generator_inv a (Mem_gen s u) \<longleftrightarrow> mem_inv (s, u) \<and> this_ref u = a"

fun generator_queue :: "generator \<Rightarrow> bool list" where
  "generator_queue (Syn_gen s u) = flags u"
| "generator_queue (Mem_gen s u) = flags u"

text \<open>The number of outstanding requests.\<close>

abbreviation generator_outst :: "generator \<Rightarrow> nat" where
  "generator_outst \<equiv> \<lambda>g. length (generator_queue g)"

lemma length_flags [simp]: "length (flags u) = used (requests u)"
  by (simp add: flags_def length_contents)

lemma inv_world [simp]: "syn_inv (s, u\<lparr>world := c\<rparr>) = syn_inv (s, u)" "mem_inv (s, v\<lparr>world := c\<rparr>) = mem_inv (s, v)"
  by (simp_all add: syn_inv_def mem_inv_def syn_good_def mem_good_def)

lemma limits_pos: "0 < MAX_OUTSTANDING_REQS" "0 < CHARBUF_SIZE"
  by (simp_all add: MAX_OUTSTANDING_REQS_def CHARBUF_SIZE_def)

lemma new_generator_law:
  assumes "new_generator st cfg i a = Inr g"
  shows "generator_inv a g \<and> generator_queue g = []"
proof (cases "protocol cfg")
  case SYNTHETIC
  with assms obtain s where s: "sock_connect (ia_connect i) (sock_new MAX_OUTSTANDING_REQS CHARBUF_SIZE a 0) = Inr s"
    "g = Syn_gen s (syn_new MAX_OUTSTANDING_REQS a a no_client)"
    by (auto simp: new_generator_def rbind_eq_Inr Let_def)
  have n: "syn_inv (sock_new MAX_OUTSTANDING_REQS CHARBUF_SIZE a 0, syn_new MAX_OUTSTANDING_REQS a a no_client :: (unit, client) syn)"
    by (rule syn_new_inv [OF limits_pos])
  with connect_inv [OF _ s(1)] connect_frame [OF s(1)] have "syn_inv (s, syn_new MAX_OUTSTANDING_REQS a a no_client :: (unit, client) syn)"
    by (simp add: syn_inv_def)
  then show ?thesis using s(2) by (simp add: syn_new_def buffer_new_def flags_def contents_def slots_def)
next
  case MEMCACHE
  with assms obtain s where s: "sock_connect (ia_connect i) (sock_new MAX_OUTSTANDING_REQS CHARBUF_SIZE a 0) = Inr s"
    "g = Mem_gen s (mem_new MAX_OUTSTANDING_REQS a a (mem_seed st a) no_client)"
    by (auto simp: new_generator_def rbind_eq_Inr Let_def)
  have n: "mem_inv (sock_new MAX_OUTSTANDING_REQS CHARBUF_SIZE a 0, mem_new MAX_OUTSTANDING_REQS a a (mem_seed st a) no_client :: (unit, client) mem)"
    by (rule mem_new_inv [OF limits_pos])
  with connect_inv [OF _ s(1)] connect_frame [OF s(1)] have "mem_inv (s, mem_new MAX_OUTSTANDING_REQS a a (mem_seed st a) no_client :: (unit, client) mem)"
    by (simp add: mem_inv_def)
  then show ?thesis using s(2) by (simp add: mem_new_def buffer_new_def flags_def contents_def slots_def)
qed

text \<open>A request enters the queue, then responses leave it.\<close>

lemma queued_facts:
  assumes "queue_emplace b r = Inr (p, q)" "wf_buffer b"
  shows "wf_buffer q \<and> map measure_req (contents q) = map measure_req (contents b) @ [measure_req r]"
proof -
  have "used b < length (buf b)"
  proof (rule ccontr)
    assume "\<not> ?thesis"
    then have "used b = length (buf b)" using assms(2) by (simp add: wf_buffer_def)
    from queue_emplace_full [OF assms(2) this] assms(1) show False by simp
  qed
  from queue_emplace_ok [OF assms(2) this, of r] assms(1) show ?thesis by auto
qed

lemma queued_answers:
  assumes "queue_emplace (requests u) r = Inr (p, q)" "wf_buffer (requests u)"
    and "wf_buffer (requests v) = wf_buffer q" "flags v = map measure_req (contents q)"
    and "this_ref v = this_ref u" "gen.world v = gen.world u" "answers env cfg v w"
  shows "this_ref w = this_ref u \<and> (\<exists>ss. answered env cfg (this_ref u) ss (gen.world u) = Inr (gen.world w) \<and>
    map is_measured ss @ flags w = flags u @ [measure_req r])"
  using queued_facts [OF assms(1,2)] assms(3-7) by (auto simp: answers_def flags_def [of u])

lemma try_tx_answers:
  assumes "tx_keeps h (answers env cfg)" "try_tx h ws (s, u) wire = Inr (s', u', ws', wire')"
  shows "answers env cfg u u'"
  using assms(2) sock_tx_user [OF assms(1)] answers_refl by (auto simp: try_tx_def split: if_splits)

lemma syn_send_law:
  assumes "\<not> send_only cfg" "generator_inv a (Syn_gen s u)"
    and "generator_send st env cfg i m (Syn_gen s u) c = Inr (n, g', c')"
  shows "generator_inv a g' \<and> (\<exists>ss. answered env cfg a ss c = Inr c' \<and>
    map is_measured ss @ generator_queue g' = generator_queue (Syn_gen s u) @ [m])"
proof -
  let ?e = "syn_env_of st env cfg a" and ?u = "u\<lparr>world := c\<rparr>"
  have i: "syn_inv (s, ?u)" "this_ref u = a" "sock_inv s" "wf_buffer (requests u)"
    using assms(2) by (auto simp: syn_inv_def syn_good_def)
  from assms(3) obtain k s' u' ks ws wire where send:
    "syn_send ?e cfg (ia_reads i) (ia_writes i) m (Some ()) (s, ?u) [] = Inr (k, s', u', ks, ws, wire)"
    "g' = Syn_gen s' u'" "c' = gen.world u'" using i(2) by (auto simp: rbind_eq_Inr)
  from i(3) send(1) obtain service u1 p q p1 p2 s1 s2 s3 u3 u4 where st:
    "gen_service_time ?e cfg ?u = Inr (service, u1)"
    "queue_emplace (requests u1) (SynReq m (Some ()) service) = Inr (p, q)"
    "try_tx (syn_sent ?e) (ia_writes i) (s2, set_req (u1\<lparr>requests := q, ticks := Suc (ticks u1)\<rparr>) p
       (\<lambda>r. r\<lparr>start_ts := clk ?e (ticks u1)\<rparr>)) [] = Inr (s3, u3, ws, wire)"
    "sock_read (syn_recv ?e) (ia_reads i) (s3, u3)
       \<lparr>hdrlen = 8, hdrcb = Some (), bodylen = 0, bodycb = None, rxdata = p\<rparr> = Inr (s', u4, ks)"
    "\<not> send_only cfg \<longrightarrow> u' = u4" by (elim syn_send_steps) blast
  let ?v = "set_req (u1\<lparr>requests := q, ticks := Suc (ticks u1)\<rparr>) p (\<lambda>r. r\<lparr>start_ts := clk ?e (ticks u1)\<rparr>)"
  have "answers env cfg ?v u'"
    using answers_trans [OF try_tx_answers [OF syn_sent_answers st(3)] sock_read_user [OF syn_recv_answers st(4)]] st(5) assms(1) by simp
  from queued_answers [OF _ _ _ _ _ _ this, of ?u "SynReq m (Some ()) service" p q] st(2) gen_service_time_frame [OF st(1)] i(2,4)
  have "this_ref u' = a \<and> (\<exists>ss. answered env cfg a ss c = Inr c' \<and> map is_measured ss @ flags u' = flags u @ [m])"
    using send(3) by simp
  with syn_send_inv [OF i(1) send(1)] send(2) show ?thesis by simp
qed

lemma mem_send_law:
  assumes "generator_inv a (Mem_gen s u)"
    and "generator_send st env cfg i m (Mem_gen s u) c = Inr (n, g', c')"
  shows "generator_inv a g' \<and> (\<exists>ss. answered env cfg a ss c = Inr c' \<and>
    map is_measured ss @ generator_queue g' = generator_queue (Mem_gen s u) @ [m])"
proof -
  let ?e = "mem_env_of st env cfg a" and ?u = "u\<lparr>world := c\<rparr>"
  have i: "mem_inv (s, ?u)" "this_ref u = a" "wf_buffer (requests u)"
    using assms(1) by (auto simp: mem_inv_def mem_good_def)
  from assms(2) obtain k s' u' ks ws wire where send:
    "mem_send ?e cfg (ia_reads i) (ia_writes i) m (Some ()) (s, ?u) [] = Inr (k, s', u', ks, ws, wire)"
    "g' = Mem_gen s' u'" "c' = gen.world u'" using i(2) by (auto simp: rbind_eq_Inr)
  from send(1) obtain op u1 p q s2 s3 u3 where st:
    "choose_cmd ?e cfg (?u\<lparr>seqid := seqid ?u + 1\<rparr>) = (op, u1)"
    "queue_emplace (requests u1) (MemReq op m (Some ())) = Inr (p, q)"
    "try_tx (mem_sent ?e) (ia_writes i) (s2, set_req (u1\<lparr>requests := q, ticks := Suc (ticks u1)\<rparr>) p
       (\<lambda>r. r\<lparr>start_ts := clk ?e (ticks u1)\<rparr>)) [] = Inr (s3, u3, ws, wire)"
    "sock_read (mem_recv ?e) (ia_reads i) (s3, u3)
       \<lparr>hdrlen = SIZE, hdrcb = Some (), bodylen = 0, bodycb = None, rxdata = p\<rparr> = Inr (s', u', ks)"
    by (elim mem_send_steps) blast
  let ?v = "set_req (u1\<lparr>requests := q, ticks := Suc (ticks u1)\<rparr>) p (\<lambda>r. r\<lparr>start_ts := clk ?e (ticks u1)\<rparr>)"
  have f: "requests u1 = requests u" "this_ref u1 = a" "gen.world u1 = c" using st(1) i(2) by (auto simp: choose_cmd_def)
  have "answers env cfg ?v u'"
    using answers_trans [OF try_tx_answers [OF mem_sent_answers st(3)] sock_read_user [OF mem_recv_answers st(4)]] by simp
  from queued_answers [OF _ _ _ _ _ _ this, of ?u "MemReq op m (Some ())" p q] st(2) f i(2,3)
  have "this_ref u' = a \<and> (\<exists>ss. answered env cfg a ss c = Inr c' \<and> map is_measured ss @ flags u' = flags u @ [m])"
    using send(3) by simp
  with mem_send_inv [OF i(1) send(1)] send(2) show ?thesis by simp
qed

lemma generator_io_law:
  assumes "generator_inv a g" "generator_io st env cfg i ev g c = Inr (x, g', c')"
  shows "generator_inv a g' \<and> (\<exists>ss. answered env cfg a ss c = Inr c' \<and> map is_measured ss @ generator_queue g' = generator_queue g)"
proof (cases g)
  case (Syn_gen s u)
  let ?e = "syn_env_of st env cfg a" and ?u = "u\<lparr>world := c\<rparr>"
  have i: "syn_inv (s, ?u)" "this_ref u = a" "wf_buffer (requests u)"
    using assms(1) Syn_gen by (auto simp: syn_inv_def syn_good_def)
  from assms(2) Syn_gen i(2) obtain s' u' ks ws wire where io:
    "sock_run_io (syn_recv ?e) (syn_sent ?e) (ia_reads i) (ia_writes i) (ia_so_error i) ev (s, ?u) [] = Inr (s', u', ks, ws, wire)"
    "g' = Syn_gen s' u'" "c' = gen.world u'" by (auto simp: rbind_eq_Inr Let_def)
  from run_io_user [OF syn_recv_answers syn_sent_answers io(1)] i(2,3) have
    "this_ref u' = a \<and> (\<exists>ss. answered env cfg a ss c = Inr c' \<and> map is_measured ss @ flags u' = flags u)"
    using io(3) by (simp add: answers_def)
  with syn_run_io_inv [OF i(1) io(1)] io(2) Syn_gen show ?thesis by simp
next
  case (Mem_gen s u)
  let ?e = "mem_env_of st env cfg a" and ?u = "u\<lparr>world := c\<rparr>"
  have i: "mem_inv (s, ?u)" "this_ref u = a" "wf_buffer (requests u)"
    using assms(1) Mem_gen by (auto simp: mem_inv_def mem_good_def)
  from assms(2) Mem_gen i(2) obtain s' u' ks ws wire where io:
    "sock_run_io (mem_recv ?e) (mem_sent ?e) (ia_reads i) (ia_writes i) (ia_so_error i) ev (s, ?u) [] = Inr (s', u', ks, ws, wire)"
    "g' = Mem_gen s' u'" "c' = gen.world u'" by (auto simp: rbind_eq_Inr Let_def)
  from run_io_user [OF mem_recv_answers mem_sent_answers io(1)] i(2,3) have
    "this_ref u' = a \<and> (\<exists>ss. answered env cfg a ss c = Inr c' \<and> map is_measured ss @ flags u' = flags u)"
    using io(3) by (simp add: answers_def)
  with mem_run_io_inv [OF i(1) io(1)] io(2) Mem_gen show ?thesis by simp
qed

lemma generator_send_law:
  assumes "\<not> send_only cfg" "generator_inv a g" "generator_send st env cfg i m g c = Inr (n, g', c')"
  shows "generator_inv a g' \<and> (\<exists>ss. answered env cfg a ss c = Inr c' \<and> map is_measured ss @ generator_queue g' = generator_queue g @ [m])"
proof (cases g)
  case (Syn_gen s u)
  show ?thesis using syn_send_law [OF assms [unfolded Syn_gen]] unfolding Syn_gen .
next
  case (Mem_gen s u)
  show ?thesis using mem_send_law [OF assms(2,3) [unfolded Mem_gen]] unfolding Mem_gen .
qed

lemma queued_stops:
  assumes "queue_emplace (requests u) r = Inr (p, q)" "wf_buffer (requests u)"
    and "wf_buffer (requests v) = wf_buffer q" "flags v = map measure_req (contents q)"
    and "this_ref v = this_ref u" "gen.world v = gen.world u" "stops env cfg v e"
  shows "ends env cfg (this_ref u) (flags u @ [measure_req r]) (gen.world u) e"
  using queued_facts [OF assms(1,2)] assms(3-7) by (simp add: stops_def flags_def [of u])

lemma generator_send_end:
  assumes "\<not> send_only cfg" "generator_inv a g" "generator_send st env cfg i m g c = Inl e"
  shows "ends env cfg a (generator_queue g @ [m]) c e"
proof (cases g)
  case (Syn_gen s u)
  let ?e = "syn_env_of st env cfg a" and ?u = "u\<lparr>world := c\<rparr>"
  have i: "this_ref u = a" "wf_buffer (requests u)" using assms(2) Syn_gen by (auto simp: syn_inv_def syn_good_def)
  have send: "syn_send ?e cfg (ia_reads i) (ia_writes i) m (Some ()) (s, ?u) [] = Inl e"
    using assms(3) Syn_gen i(1) by (auto simp: rbind_eq_Inl)
  from syn_send_error [OF send assms(1)] show ?thesis
  proof (elim disjE exE conjE)
    assume "no_exit e" then show ?thesis by (simp add: ends_def)
  next
    fix service u1 p q s2 s3 u3 ws' wire'
    assume st: "gen_service_time ?e cfg ?u = Inr (service, u1)" "queue_emplace (requests u1) (SynReq m (Some ()) service) = Inr (p, q)"
      "try_tx (syn_sent ?e) (ia_writes i) (s2, set_req (u1\<lparr>requests := q, ticks := Suc (ticks u1)\<rparr>) p
         (\<lambda>r. r\<lparr>start_ts := clk ?e (ticks u1)\<rparr>)) [] = Inr (s3, u3, ws', wire')"
      "sock_read (syn_recv ?e) (ia_reads i) (s3, u3)
         \<lparr>hdrlen = RESP_PKT_SIZE, hdrcb = Some (), bodylen = 0, bodycb = None, rxdata = p\<rparr> = Inl e"
    let ?v = "set_req (u1\<lparr>requests := q, ticks := Suc (ticks u1)\<rparr>) p (\<lambda>r. r\<lparr>start_ts := clk ?e (ticks u1)\<rparr>)"
    have "stops env cfg ?v e"
      using stops_before [OF try_tx_answers [OF syn_sent_answers st(3)] sock_read_fails [OF syn_recv_stops st(4)]] .
    from queued_stops [OF _ _ _ _ _ _ this, of ?u "SynReq m (Some ()) service" p q] st(2) gen_service_time_frame [OF st(1)] i
    show ?thesis using Syn_gen by simp
  qed
next
  case (Mem_gen s u)
  let ?e = "mem_env_of st env cfg a" and ?u = "u\<lparr>world := c\<rparr>"
  have i: "this_ref u = a" "wf_buffer (requests u)" using assms(2) Mem_gen by (auto simp: mem_inv_def mem_good_def)
  have send: "mem_send ?e cfg (ia_reads i) (ia_writes i) m (Some ()) (s, ?u) [] = Inl e"
    using assms(3) Mem_gen i(1) by (auto simp: rbind_eq_Inl)
  from mem_send_error [OF send] show ?thesis
  proof (elim disjE exE conjE)
    assume "no_exit e" then show ?thesis by (simp add: ends_def)
  next
    fix op u1 p q s2 s3 u3 ws' wire'
    assume st: "choose_cmd ?e cfg (?u\<lparr>seqid := seqid ?u + 1\<rparr>) = (op, u1)" "queue_emplace (requests u1) (MemReq op m (Some ())) = Inr (p, q)"
      "try_tx (mem_sent ?e) (ia_writes i) (s2, set_req (u1\<lparr>requests := q, ticks := Suc (ticks u1)\<rparr>) p
         (\<lambda>r. r\<lparr>start_ts := clk ?e (ticks u1)\<rparr>)) [] = Inr (s3, u3, ws', wire')"
      "sock_read (mem_recv ?e) (ia_reads i) (s3, u3)
         \<lparr>hdrlen = SIZE, hdrcb = Some (), bodylen = 0, bodycb = None, rxdata = p\<rparr> = Inl e"
    let ?v = "set_req (u1\<lparr>requests := q, ticks := Suc (ticks u1)\<rparr>) p (\<lambda>r. r\<lparr>start_ts := clk ?e (ticks u1)\<rparr>)"
    have f: "requests u1 = requests u" "this_ref u1 = a" "gen.world u1 = c" using st(1) i(1) by (auto simp: choose_cmd_def)
    have "stops env cfg ?v e"
      using stops_before [OF try_tx_answers [OF mem_sent_answers st(3)] sock_read_fails [OF mem_recv_stops st(4)]] .
    from queued_stops [OF _ _ _ _ _ _ this, of ?u "MemReq op m (Some ())" p q] st(2) f i
    show ?thesis using Mem_gen by simp
  qed
qed

lemma generator_io_end:
  assumes "generator_inv a g" "generator_io st env cfg i ev g c = Inl e"
  shows "ends env cfg a (generator_queue g) c e"
proof (cases g)
  case (Syn_gen s u)
  let ?e = "syn_env_of st env cfg a" and ?u = "u\<lparr>world := c\<rparr>"
  have i: "this_ref u = a" "wf_buffer (requests u)" using assms(1) Syn_gen by (auto simp: syn_inv_def syn_good_def)
  have "sock_run_io (syn_recv ?e) (syn_sent ?e) (ia_reads i) (ia_writes i) (ia_so_error i) ev (s, ?u) [] = Inl e"
    using assms(2) Syn_gen i(1) by (auto simp: rbind_eq_Inl Let_def)
  from run_io_fails [OF syn_recv_stops sent_fails(1) this] i Syn_gen show ?thesis by (simp add: stops_def)
next
  case (Mem_gen s u)
  let ?e = "mem_env_of st env cfg a" and ?u = "u\<lparr>world := c\<rparr>"
  have i: "this_ref u = a" "wf_buffer (requests u)" using assms(1) Mem_gen by (auto simp: mem_inv_def mem_good_def)
  have "sock_run_io (mem_recv ?e) (mem_sent ?e) (ia_reads i) (ia_writes i) (ia_so_error i) ev (s, ?u) [] = Inl e"
    using assms(2) Mem_gen i(1) by (auto simp: rbind_eq_Inl Let_def)
  from run_io_fails [OF mem_recv_stops sent_fails(2) this] i Mem_gen show ?thesis by (simp add: stops_def)
qed

lemma new_generator_end: "new_generator st cfg i a = Inl e \<Longrightarrow> no_exit e"
  by (auto simp: new_generator_def kv_setup_def sock_connect_def system_call_def Let_def rbind_eq_Inl
      split: protocols.splits if_splits)

lemma dead_rx_ends: "cancel_rx dead_rx this rs u = Inl e \<Longrightarrow> no_exit e"
  by (induction rs) (auto simp: dead_rx_def rbind_eq_Inl split: option.splits)

lemma dead_tx_ends: "cancel_tx dead_tx this ts u = Inl e \<Longrightarrow> no_exit e"
  by (induction ts) (auto simp: dead_tx_def rbind_eq_Inl split: option.splits)

lemma delete_generator_end: "delete_generator g = Inl e \<Longrightarrow> no_exit e"
  by (cases g) (auto simp: sock_destroy_def visited_def clear_def rbind_eq_Inl dest: exits dead_rx_ends dead_tx_ends split: option.splits)

interpretation run: client_generator env cfg "generator_ops st env cfg" generator_inv generator_queue
  for env :: "io_answers client_env" and cfg st
proof unfold_locales
  show "g_new (generator_ops st env cfg) i a = Inr g \<Longrightarrow> generator_inv a g \<and> generator_queue g = []" for i a g
    by (rule new_generator_law) (simp add: generator_ops_def)
  show "\<not> send_only cfg \<Longrightarrow> generator_inv a g \<Longrightarrow> g_send (generator_ops st env cfg) i m g c = Inr (n, g', c') \<Longrightarrow>
      generator_inv a g' \<and> (\<exists>ss. answered env cfg a ss c = Inr c' \<and> map is_measured ss @ generator_queue g' = generator_queue g @ [m])"
    for a g i m c n g' c'
    using generator_send_law [of cfg a g st env i m c n g' c'] by (simp add: generator_ops_def)
  show "\<not> send_only cfg \<Longrightarrow> generator_inv a g \<Longrightarrow> g_io (generator_ops st env cfg) i ev g c = Inr (x, g', c') \<Longrightarrow>
      generator_inv a g' \<and> (\<exists>ss. answered env cfg a ss c = Inr c' \<and> map is_measured ss @ generator_queue g' = generator_queue g)"
    for a g i ev c x g' c'
    using generator_io_law [of a g st env cfg i ev c x g' c'] by (simp add: generator_ops_def)
  show "\<not> send_only cfg \<Longrightarrow> generator_inv a g \<Longrightarrow> g_send (generator_ops st env cfg) i m g c = Inl e \<Longrightarrow>
      ends env cfg a (generator_queue g @ [m]) c e" for a g i m c e
    using generator_send_end [of cfg a g st env i m c e] by (simp add: generator_ops_def)
  show "\<not> send_only cfg \<Longrightarrow> generator_inv a g \<Longrightarrow> g_io (generator_ops st env cfg) i ev g c = Inl e \<Longrightarrow>
      ends env cfg a (generator_queue g) c e" for a g i ev c e
    using generator_io_end [of a g st env cfg i ev c e] by (simp add: generator_ops_def)
  show "g_new (generator_ops st env cfg) i a = Inl e \<Longrightarrow> no_exit e" for i a e
    using new_generator_end [of st cfg i a e] by (simp add: generator_ops_def)
  show "g_destroy (generator_ops st env cfg) g = Inl e \<Longrightarrow> no_exit e" for g e
    using delete_generator_end [of g e] by (simp add: generator_ops_def)
qed

end
