(* ===== verification/Client_Demo.thy ===== *)
theory Client_Demo
  imports Client_Gens
begin

section \<open>A run of the client\<close>

text \<open>
  A run on concrete input, evaluated with the definitions: one request is scheduled after a microsecond, generated by
  the timer's handler on a new connection, written to the socket, and answered; the answer ends the program. The
  theorems about runs are applied to it and to its prefixes. The sizes of the queues stay variables, so that they need
  not be unfolded.
\<close>

definition one_cfg :: Config where
  "one_cfg = config_default\<lparr>service_dist := FIXED, service_us := 3, nsamples := 1, warmup_seconds := 0,
     cooldown_seconds := 0, conn_mode := PER_REQUEST, machine_readable := True\<rparr>"

definition one_setup :: gen_setup where
  "one_setup = \<lparr>
     syn_envs = (\<lambda>_. \<lparr>clk = (\<lambda>n. 2000 * int n), request_cb = (\<lambda>_ _ _ _ _ _ _. Inr), exp_draw = (\<lambda>_. 1),
       lognorm_draw = (\<lambda>_. 1), slot_addr = (\<lambda>n. word_of_nat (64 * n)), stack_junk = (\<lambda>_. 0)\<rparr>),
     mem_envs = (\<lambda>_. \<lparr>clk = (\<lambda>n. 2000 * int n), request_cb = (\<lambda>_ _ _ _ _ _ _. Inr), setget_draw = (\<lambda>_. 1),
       key_mem = []\<rparr>), mem_seed = (\<lambda>_. 0)\<rparr>"

definition no_io :: io_answers where
  "no_io = \<lparr>ia_connect = \<lparr>sys_socket = (3, 0), sys_getfl = (2, 0), sys_setfl = (0, 0), sys_connect = (-1, EINPROGRESS),
     sys_nodelay = (0, 0)\<rparr>, ia_reads = [], ia_writes = [], ia_so_error = (0, 0, 0)\<rparr>"

definition one_env :: "io_answers client_env" where
  "one_env = \<lparr>c_rnd = (\<lambda>x. x), c_start = (\<lambda>_. 1000), c_end = (\<lambda>_. 9000), c_conn = (\<lambda>_. 0), c_watch = (\<lambda>_. (0, 0)),
     c_timer = (\<lambda>_ _. (0, 0)), c_new = (\<lambda>_. no_io), c_input = (\<lambda>_. no_io)\<rparr>"

abbreviation "one_ops \<equiv> generator_ops one_setup one_env one_cfg"

subsection \<open>Its socket and generator\<close>

definition one_req :: "unit SynReq" where
  "one_req = \<lparr>measure_req = True, req_cb = Some (), start_ts = 0, sent_ts = 0, req_service_us = 3\<rparr>"

definition one_sock :: "nat \<Rightarrow> nat \<Rightarrow> (unit, unit, nat) Sock" where
  "one_sock N B = \<lparr>self = 0, fd = 3, connected = False, rx_rdy = False, tx_rdy = False,
     rx_cbs = \<lparr>buf = (replicate N (IORx_default 0))[0 := \<lparr>hdrlen = 8, hdrcb = Some (), bodylen = 0, bodycb = None, rxdata = 0\<rparr>],
       head = 0, tail = 1, used = 1\<rparr>,
     rbuf = buffer_new 0 B,
     tx_cbs = \<lparr>buf = (replicate N (IOTx_default 0))[0 := \<lparr>txlen = 144, txcb = Some (), txdata = 0\<rparr>], head = 0, tail = 1, used = 1\<rparr>,
     wbuf = \<lparr>buf = blit (replicate B 0) 0 (pkt_fields 0 False 3), head = 0, tail = 144, used = 144\<rparr>, tx_out = 144\<rparr>"

definition one_syn :: "nat \<Rightarrow> client \<Rightarrow> (unit, client) syn" where
  "one_syn N c = \<lparr>requests = \<lparr>buf = (replicate N (SynReq False None 0))[0 := one_req], head = 0, tail = 1, used = 1\<rparr>,
     sock_ref = 0, this_ref = 0, ticks = 1, world = c, ndraws = 0\<rparr>"

lemmas one_buffer_defs = queue_emplace_def queue_def queue_prep_def queue_commit_def peek_def drop_items_def dequeue_one_def
  dequeue_def items_def space_def buffer_size_def bufcap_def buffer_new_def

lemma one_sent:
  assumes "2 \<le> N" "200 \<le> B"
  shows "syn_send (syn_env_of one_setup env cfg 0) one_cfg ks ws True (Some ())
      ((sock_new N B 0 0)\<lparr>fd := 3\<rparr>, (syn_new N 0 0 w)\<lparr>world := c\<rparr>) [] =
    Inr (144, one_sock N B, one_syn N c, ks, ws, [])"
  using assms
  by (simp add: syn_send_def gen_service_time_def one_cfg_def config_default_def to_uint64_def Let_def syn_new_def sock_new_def
      one_buffer_defs write_prepare_def write_commit_def set_wmem_def read_clock_def set_req_def write_cb_point_def try_tx_def
      sock_read_def syn_env_of_def one_setup_def SynReq_def one_sock_def one_syn_def one_req_def)

text \<open>The request is written.\<close>

definition one_sock' :: "nat \<Rightarrow> nat \<Rightarrow> (unit, unit, nat) Sock" where
  "one_sock' N B = (one_sock N B)\<lparr>connected := True, tx_rdy := True,
     tx_cbs := \<lparr>buf = (replicate N (IOTx_default 0))[0 := \<lparr>txlen = 144, txcb = Some (), txdata = 0\<rparr>], head = 1, tail = 1, used = 0\<rparr>,
     wbuf := \<lparr>buf = blit (replicate B 0) 0 (pkt_fields 0 False 3), head = 144, tail = 144, used = 0\<rparr>, tx_out := 0\<rparr>"

definition one_syn' :: "nat \<Rightarrow> client \<Rightarrow> (unit, client) syn" where
  "one_syn' N c = \<lparr>requests = \<lparr>buf = (replicate N (SynReq False None 0))[0 := one_req\<lparr>sent_ts := 2000\<rparr>], head = 0, tail = 1, used = 1\<rparr>,
     sock_ref = 0, this_ref = 0, ticks = 2, world = c, ndraws = 0\<rparr>"

lemma one_range: "2 \<le> N \<Longrightarrow> range_slots \<lparr>buf = (replicate N x)[0 := y], head = 0, tail = Suc 0, used = Suc 0\<rparr> = Some [0]"
  by (subst range_slots_eq) (auto simp: wf_buffer_def slots_def ring_ix_def)

lemma one_written:
  assumes "2 \<le> N" "200 \<le> B"
  shows "\<exists>wire. sock_run_io h (syn_sent (syn_env_of one_setup env cfg 0)) [] [WrRet (Some 144) 0] (0, 0, 0) EPOLLOUT
      (one_sock N B, (one_syn N w)\<lparr>world := c\<rparr>) [] = Inr (one_sock' N B, one_syn' N c, [], [], wire)"
  using assms
  by (simp add: one_range [OF assms(1)] sock_run_io_def EPOLLIN_def EPOLLOUT_def socket_check_connected_def one_sock_def one_syn_def one_buffer_defs Let_def
      tx_callbacks_def txcb_at_def syn_sent_def read_clock_def set_req_def syn_env_of_def one_setup_def
      one_sock'_def one_syn'_def one_req_def)

text \<open>The response arrives.\<close>

lemma one_answered:
  assumes "2 \<le> N" "200 \<le> B" "record_sample env cfg 0 2 4 1 8 True c = Inl e"
  shows "sock_run_io (syn_recv (syn_env_of one_setup env cfg 0)) h [RdRet (Some (replicate 8 0)) 0] [] (0, 0, 0) EPOLLIN
      (one_sock' N B, (one_syn' N w)\<lparr>world := c\<rparr>) [] = Inl e"
proof -
  have ne: "blit (replicate B (0 :: byte)) 0 (replicate 8 0) \<noteq> []" by (simp add: blit_def)
  show ?thesis using assms ne
  by (simp add: one_range [OF assms(1)] sock_run_io_def EPOLLIN_def EPOLLOUT_def one_sock_def one_syn_def one_buffer_defs Let_def
      rx_deliver_def rx_items.simps rx_hdr_def rxcb_at_def segments_def set_rxcb_def syn_recv_def read_clock_def
      syn_env_of_def one_setup_def scatter_def
      one_sock'_def one_syn'_def one_req_def latencies_def call_request_cb_def)
qed

subsection \<open>The run\<close>

definition one_client :: client where
  "one_client = \<lparr>results = results_new 1, sent_count = 0, rcvd_count = 0, measure_count = 0, pre_samples = 0,
     post_samples = 0, measure_samples = 0, total_samples = 0, exp_start_time = 0, schedule = [],
     missed_threshold = - 100000, missed_send = 0, conns = [], rr_idx = 0, refs = (\<lambda>_. \<lparr>ref_cnt = 0, freed = True\<rparr>)\<rparr>"

lemma one_client_new: "client_new (4, 0) (5, 0) (0, 0) one_cfg = Inr one_client"
  by (simp add: client_new_def no_conn_range_def client_watch_def system_call_def one_client_def one_cfg_def config_default_def)

lemma one_schedule: "setup_deadlines (c_rnd one_env) (\<lambda>_. 1000) one_cfg = Some (Inr ([1000], 0, 1, 0))"
  by (simp add: setup_deadlines_def obind_def fill_until.simps ceil_ns_def to_uint64_def seconds_def dur_def
      one_cfg_def config_default_def one_env_def)

definition one_plan :: client where
  "one_plan = one_client\<lparr>schedule := [1000], measure_samples := 1, total_samples := 1\<rparr>"

definition one_world0 :: "generator world" where
  "one_world0 = \<lparr>cl = one_plan, gens = (\<lambda>_. None), created = 0, armed = Some 1000\<rparr>"

lemma one_start: "setup_experiment one_env one_cfg one_ops (\<lambda>_. 1000) 0 0 (world_new one_client) = Some (Inr one_world0)"
  using one_schedule
  by (simp add: setup_experiment_def obind_def setup_connections_def one_cfg_def config_default_def world_new_def Let_def
      timer_handler_def timer_loop.simps next_deadline_def dur_def arm_timer_def timer_arm_def system_call_def one_env_def
      one_world0_def one_plan_def one_client_def)

text \<open>The client while the generator is called, with \<open>n\<close> references to it, and after the request.\<close>

definition one_refs :: "int \<Rightarrow> nat \<Rightarrow> gen_ref" where
  "one_refs n = (\<lambda>_. \<lparr>ref_cnt = 0, freed = True\<rparr>)(0 := \<lparr>ref_cnt = n, freed = False\<rparr>)"

definition one_client1 :: "int \<Rightarrow> client" where
  "one_client1 n = one_plan\<lparr>results := start_measurements 1000 (results_new 1), refs := one_refs n\<rparr>"

definition one_client2 :: "int \<Rightarrow> client" where
  "one_client2 n = (one_client1 n)\<lparr>results := sent_bytes 144 (results (one_client1 n)), sent_count := 1\<rparr>"

abbreviation "one_N \<equiv> MAX_OUTSTANDING_REQS"
abbreviation "one_B \<equiv> CHARBUF_SIZE"

lemma one_cfg_simps [simp]:
  "protocol one_cfg = SYNTHETIC" "conn_mode one_cfg = PER_REQUEST" "\<not> use_busy_timer one_cfg" "machine_readable one_cfg"
  "\<not> send_only one_cfg" "save_iatimes one_cfg = None"
  by (simp_all add: one_cfg_def config_default_def)

lemma one_client_simps [simp]:
  "sent_count one_plan = 0" "schedule one_plan = [1000]" "total_samples one_plan = 1" "exp_start_time one_plan = 0"
  "pre_samples one_plan = 0" "measure_samples one_plan = 1" "conns one_plan = []" "rcvd_count one_plan = 0"
  "results one_plan = results_new 1" "measure_count one_plan = 0"
  by (simp_all add: one_plan_def one_client_def)

lemma one_syn_simps [simp]: "gen.world (one_syn N c) = c" "this_ref (one_syn N c) = 0" "gen.world (one_syn' N c) = c" "this_ref (one_syn' N c) = 0"
  by (simp_all add: one_syn_def one_syn'_def)

lemma one_sizes: "2 \<le> one_N" "200 \<le> one_B"
  by (simp_all add: MAX_OUTSTANDING_REQS_def CHARBUF_SIZE_def)

definition one_world1 :: "generator world" where
  "one_world1 = \<lparr>cl = one_client2 1, gens = [0 \<mapsto> Syn_gen (one_sock one_N one_B) (one_syn one_N (one_client1 2))],
     created = 1, armed = Some 1000\<rparr>"

lemma one_send: "generator_send one_setup one_env one_cfg no_io True
    (Syn_gen ((sock_new one_N one_B 0 0)\<lparr>fd := 3\<rparr>) (syn_new one_N 0 0 no_client)) c =
    Inr (144, Syn_gen (one_sock one_N one_B) (one_syn one_N c), c)"
  using one_sent [OF one_sizes, where env = one_env and ks = "ia_reads no_io" and ws = "ia_writes no_io" and w = no_client and c = c]
  by (simp add: syn_new_def)

lemma one_connect: "sock_connect (ia_connect no_io) s = Inr (s\<lparr>fd := 3\<rparr>)"
  by (simp add: sock_connect_def no_io_def system_call_def Let_def)

lemma one_send_request:
  "send_request one_env one_cfg one_ops one_world0 = Inr
      \<lparr>cl = (one_client2 1)\<lparr>sent_count := 0\<rparr>, gens = [0 \<mapsto> Syn_gen (one_sock one_N one_B) (one_syn one_N (one_client1 2))],
        created = 1, armed = Some 1000\<rparr>"
proof -
  let ?w = "one_world0\<lparr>cl := one_plan\<lparr>results := start_measurements 1000 (results_new 1)\<rparr>\<rparr>"
  let ?g = "Syn_gen ((sock_new one_N one_B 0 0)\<lparr>fd := 3\<rparr>) (syn_new one_N 0 0 no_client)"
  have 1: "get_connection one_env one_cfg one_ops ?w =
      Inr (0, \<lparr>cl = one_client1 1, gens = [0 \<mapsto> ?g], created = 1, armed = Some 1000\<rparr>)"
    by (simp add: get_connection_def new_connection_def one_world0_def generator_ops_def
        new_generator_def one_env_def one_connect client_watch_def system_call_def Let_def one_client1_def one_refs_def
        one_plan_def one_client_def gen_new_def)
  have 2: "gen_call one_ops 0 (g_send one_ops no_io True)
      \<lparr>cl = one_client1 1, gens = [0 \<mapsto> ?g], created = 1, armed = Some 1000\<rparr> =
      Inr (144, \<lparr>cl = one_client1 1, gens = [0 \<mapsto> Syn_gen (one_sock one_N one_B) (one_syn one_N (one_client1 2))],
        created = 1, armed = Some 1000\<rparr>)"
    using one_send [of "one_client1 2"]
    by (simp add: gen_call_def get_ref_def gen_get_def put_gen_def put_ref_def gen_put_def generator_ops_def
        one_client1_def one_refs_def Let_def)
  show ?thesis
    using 1 2 unfolding send_request_def Let_def
    by (simp add: one_world0_def one_client2_def one_client1_def) (simp add: one_env_def)
qed

lemma one_request: "handle_event one_env one_cfg one_ops (Timer_event 1000) one_world0 = Some (Inr one_world1)"
proof -
  have "cl one_world0 = one_plan" by (simp add: one_world0_def)
  then show ?thesis using one_send_request
    by (simp add: timer_handler_def obind_def timer_loop.simps [of _ _ _ _ 0] next_deadline_def dur_def
        count_missed_def count_sent_def one_world1_def one_client2_def one_client1_def)
qed

definition written_io :: io_answers where
  "written_io = no_io\<lparr>ia_writes := [WrRet (Some 144) 0]\<rparr>"

definition answered_io :: io_answers where
  "answered_io = no_io\<lparr>ia_reads := [RdRet (Some (replicate 8 0)) 0]\<rparr>"

definition one_world2 :: "generator world" where
  "one_world2 = \<lparr>cl = one_client2 1, gens = [0 \<mapsto> Syn_gen (one_sock' one_N one_B) (one_syn' one_N (one_client2 2))],
     created = 1, armed = Some 1000\<rparr>"

lemma one_client2_refs: "refs (one_client2 n) = one_refs n" "(one_client2 n)\<lparr>refs := one_refs m\<rparr> = one_client2 m"
  "one_refs n 0 = \<lparr>ref_cnt = n, freed = False\<rparr>" "(one_refs n)(0 := \<lparr>ref_cnt = m, freed = False\<rparr>) = one_refs m"
  by (simp_all add: one_client2_def one_client1_def one_refs_def)

lemma one_write: "handle_event one_env one_cfg one_ops (Socket_event 0 EPOLLOUT written_io) one_world1 = Some (Inr one_world2)"
proof -
  let ?e = "syn_env_of one_setup one_env one_cfg 0"
  obtain wire where "sock_run_io (syn_recv ?e) (syn_sent ?e) [] [WrRet (Some 144) 0] (0, 0, 0) EPOLLOUT
      (one_sock one_N one_B, (one_syn one_N (one_client1 2))\<lparr>world := one_client2 2\<rparr>) [] =
      Inr (one_sock' one_N one_B, one_syn' one_N (one_client2 2), [], [], wire)"
    using one_written [OF one_sizes] by blast
  then show ?thesis
    by (simp add: gen_call_def one_world1_def get_ref_def gen_get_def generator_ops_def written_io_def no_io_def Let_def
        put_gen_def put_ref_def gen_put_def one_client2_refs one_world2_def)
qed

text \<open>What it prints: the rate and the one latency.\<close>

definition one_output :: printed where
  "one_output = Summary (Machine_readable 125000 [4]) None"

lemma one_recorded: "record_sample one_env one_cfg 0 2 4 1 8 True (one_client2 2) = Inl (Exit 0 one_output)"
  by (simp add: record_sample_def record_measured_def one_client2_def one_client1_def results_new_def one_env_def Let_def
      end_measurements_def running_time_def results_add_sample_def start_measurements_def sent_bytes_def put_ref_def gen_put_def
      one_refs_def print_summary_def EXIT_SUCCESS_def one_output_def NSEC_def add_sample_def accum_new_def accum_size_def
      record_iatimes_def)

lemma one_exit: "handle_event one_env one_cfg one_ops (Socket_event 0 EPOLLIN answered_io) one_world2 = Some (Inl (Exit 0 one_output))"
proof -
  let ?e = "syn_env_of one_setup one_env one_cfg 0"
  have "sock_run_io (syn_recv ?e) (syn_sent ?e) [RdRet (Some (replicate 8 0)) 0] [] (0, 0, 0) EPOLLIN
      (one_sock' one_N one_B, (one_syn' one_N (one_client2 2))\<lparr>world := one_client2 2\<rparr>) [] = Inl (Exit 0 one_output)"
    by (rule one_answered [OF one_sizes one_recorded])
  then show ?thesis
    by (simp add: gen_call_def one_world2_def get_ref_def gen_get_def generator_ops_def answered_io_def no_io_def Let_def
        one_client2_refs)
qed

text \<open>The script of the run, and how far its prefixes get.\<close>

definition one_script :: "io_answers wakeup list" where
  "one_script = [Woken [Timer_event 1000] 0, Woken [Socket_event 0 EPOLLOUT written_io] 0, Woken [Socket_event 0 EPOLLIN answered_io] 0]"

lemma one_run:
  "client_run one_env one_cfg one_ops (\<lambda>_. 1000) 0 0 [] one_client = Some (Inr one_world0)"
  "client_run one_env one_cfg one_ops (\<lambda>_. 1000) 0 0 (take 1 one_script) one_client = Some (Inr one_world1)"
  "client_run one_env one_cfg one_ops (\<lambda>_. 1000) 0 0 (take 2 one_script) one_client = Some (Inr one_world2)"
  "client_run one_env one_cfg one_ops (\<lambda>_. 1000) 0 0 one_script one_client = Some (Inl (Exit 0 one_output))"
  by (simp_all del: handle_event.simps
      add: client_run_def one_start one_script_def obind_def one_request one_write one_exit numeral_2_eq_2)

end
