(* ===== verification/Client_Spec.thy ===== *)
theory Client_Spec
  imports Client_Demo
begin

section \<open>What a run of the client guarantees\<close>

text \<open>
  The lemmas of \<open>client_generator\<close> on the program's own generators: which requests are sent when, that none is lost,
  that generators live as long as they are referenced, that the run never hangs and ends only when every
  request has been answered. A state of the run is any that the prefix of a script reaches; the scripts are arbitrary.
\<close>

lemma client_reached:
  assumes "\<not> send_only cfg" "client_new ep tm watch cfg = Inr c"
    and "client_run env cfg (generator_ops st env cfg) draw start now script c = Some (Inr w)"
  obtains p where "run.run_inv cfg p w"
    "conns (cl w) = (if conn_mode cfg = PER_REQUEST then [] else [0..<unat (conn_cnt cfg)])"
proof -
  from run.reached [OF assms] obtain ds pre meas post p where p: "run.run_inv cfg p w"
    "planned cfg (ds, pre, meas, post) start p" .
  then have "conns (cl w) = conns p" using same_timesD [of p "cl w"] by (simp add: run.run_inv_def)
  with p that show ?thesis by (simp add: planned_def)
qed

lemma ceil_ns_exits [exits]: "ceil_ns x = Inl e \<Longrightarrow> no_exit e"
  by (auto simp: ceil_ns_def to_uint64_def Let_def rbind_eq_Inl split: if_splits)

lemma dur_exits [exits]: "dur t = Inl e \<Longrightarrow> no_exit e" "seconds n = Inl e \<Longrightarrow> no_exit e"
  by (auto simp: dur_def seconds_def split: if_splits)

lemma fill_until_exits [exits]:
  "fill_until rnd draw start limit accum pos ds = Some (Inl e) \<Longrightarrow> no_exit e"
proof -
  have "fill_until rnd draw start limit accum pos ds = Some r \<Longrightarrow> \<forall>e. r = Inl e \<longrightarrow> no_exit e" for r
  proof (erule fill_until.raw_induct [where P = "\<lambda>rnd draw start limit accum pos ds r. \<forall>e. r = Inl e \<longrightarrow> no_exit e", rotated])
    fix f :: "(real \<Rightarrow> real) \<Rightarrow> (nat \<Rightarrow> real) \<Rightarrow> int \<Rightarrow> 64 word \<Rightarrow> real \<Rightarrow> nat \<Rightarrow> int list \<Rightarrow> (real \<times> nat \<times> int list) res option"
    fix rnd draw start limit accum pos ds r
    assume IH: "\<And>rnd draw start limit accum pos ds r. f rnd draw start limit accum pos ds = Some r \<Longrightarrow>
        \<forall>e. r = Inl e \<longrightarrow> no_exit e"
      and step: "(case rbind (ceil_ns accum) (\<lambda>t. rbind (dur (t - start)) (\<lambda>d. rbind (seconds limit) (\<lambda>l. Inr (d < l)))) of
        Inl e \<Rightarrow> Some (Inl e)
      | Inr go \<Rightarrow>
          if go then
            (case ceil_ns (rnd (accum + draw pos)) of
               Inl e \<Rightarrow> Some (Inl e)
             | Inr t \<Rightarrow> f rnd draw start limit (rnd (accum + draw pos)) (Suc pos) (ds @ [t]))
          else Some (Inr (accum, pos, ds))) = Some r"
    from step IH show "\<forall>e. r = Inl e \<longrightarrow> no_exit e"
      by (auto simp: rbind_eq_Inl dest: exits split: sum.splits if_splits)
  qed
  then show "fill_until rnd draw start limit accum pos ds = Some (Inl e) \<Longrightarrow> no_exit e" by blast
qed

lemma fill_count_exits [exits]: "fill_count rnd draw n accum pos ds = Inl e \<Longrightarrow> no_exit e"
  by (induction n arbitrary: accum pos ds) (auto simp: rbind_eq_Inl dest: exits)

lemma obind_eq_Inl: "obind m f = Some (Inl e) \<longleftrightarrow> m = Some (Inl e) \<or> (\<exists>a. m = Some (Inr a) \<and> f a = Some (Inl e))"
  by (auto simp: obind_def split: option.splits sum.splits)

lemma setup_deadlines_exits [exits]: "setup_deadlines rnd draw cfg = Some (Inl e) \<Longrightarrow> no_exit e"
  by (auto simp: setup_deadlines_def obind_eq_Inl Let_def dest: exits split: prod.splits)

text \<open>The numbers of the plan, whatever the rounding.\<close>

lemma fills_count:
  "fills rnd draw start limit accum pos ds res \<Longrightarrow>
    length (snd (snd res)) + pos = length ds + fst (snd res) \<and> pos \<le> fst (snd res)"
  by (induction rule: fills.induct) auto

lemma fill_count_count:
  "fill_count rnd draw n accum pos ds = Inr (accum', pos', ds') \<Longrightarrow> pos' = pos + n \<and> length ds' = length ds + n"
proof (induction n arbitrary: accum pos ds)
  case (Suc n)
  then obtain t where "fill_count rnd draw n (rnd (accum + draw pos)) (Suc pos) (ds @ [t]) = Inr (accum', pos', ds')"
    by (auto simp: rbind_eq_Inr)
  from Suc.IH [OF this] show ?case by simp
qed simp

lemma setup_counts:
  assumes "setup_deadlines rnd draw cfg = Some (Inr (ds, pre, meas, post))"
  shows "meas = unat (nsamples cfg) \<and> length ds = pre + meas + post"
proof -
  from assms obtain a1 d1 a2 p2 d2 t a3 p3 where f:
    "fill_until rnd draw 0 (warmup_seconds cfg) 0 0 [] = Some (Inr (a1, pre, d1))"
    "fill_count rnd draw (unat (nsamples cfg)) a1 pre d1 = Inr (a2, p2, d2)"
    "fill_until rnd draw t (cooldown_seconds cfg) a2 p2 d2 = Some (Inr (a3, p3, ds))"
    "meas = unat (nsamples cfg)" "post = p3 - pre - meas"
    by (auto simp: setup_deadlines_def obind_eq Let_def)
  have "length d1 = pre" using fill_until_fills [OF f(1)] by (auto dest: fills_count)
  moreover have "length ds + p2 = length d2 + p3 \<and> p2 \<le> p3" using fill_until_fills [OF f(3)] by (auto dest: fills_count)
  ultimately show ?thesis using fill_count_count [OF f(2)] f(4,5) by simp
qed

text \<open>What an exit of the run has printed.\<close>

lemma exit_completes:
  assumes "\<not> send_only cfg" "client_new ep tm watch cfg = Inr c"
    and "client_run env cfg (generator_ops st env cfg) draw start now script c = Some (Inl (Exit n out))"
  obtains ds pre meas post d r where "setup_deadlines (c_rnd env) draw cfg = Some (Inr (ds, pre, meas, post))" "n = 0"
    "out = Summary r (record_iatimes cfg ds)" "print_summary (c_rnd env) cfg d = Inr r" "rcvd_count d = length ds"
    "sent_count d \<le> length ds" "length ds \<le> sent_count d + 1" "samples_ok d" "measure_count d = unat (nsamples cfg)"
proof -
  have "\<not> no_exit (Exit n out)" by simp
  with assms(3) obtain ds pre meas post where d: "setup_deadlines (c_rnd env) draw cfg = Some (Inr (ds, pre, meas, post))"
    by (auto simp: client_run_def setup_experiment_def obind_eq_Inl obind_eq dest: run.setup_connections_ends exits)
  from run.client_run_run [OF assms(1,2) d, of st start now script] assms(3) obtain p where
    p: "completes env cfg p (Exit n out)" "planned cfg (ds, pre, meas, post) start p" by auto
  note m = setup_counts [OF d]
  have t: "total_samples p = length ds" "schedule p = ds" "measured_among p (length ds) = unat (nsamples cfg)"
    using p(2) measured_among_all [of p "length ds"] m by (simp_all add: planned_def)
  with p(1) show ?thesis by (auto simp: completes_def finished_def intro: that [OF d])
qed

text \<open>What the destructor of a socket still has to cancel runs on a generator that is destroyed already.\<close>

definition nothing_to_cancel :: "('c, 't, 'd) Sock \<Rightarrow> bool" where
  "nothing_to_cancel s \<longleftrightarrow> (used (rx_cbs s) = 0 \<or> used (rx_cbs s) = length (buf (rx_cbs s))) \<and>
     (used (tx_cbs s) = length (buf (tx_cbs s)) \<or> (\<forall>t \<in> set (contents (tx_cbs s)). txcb t = None))"

fun generator_sock :: "generator \<Rightarrow> (unit, unit, nat) Sock" where
  "generator_sock (Syn_gen s u) = s"
| "generator_sock (Mem_gen s u) = s"

abbreviation dead_callback :: exn where
  "dead_callback \<equiv> Undefined_behaviour ''callback of a destroyed generator''"

lemma cancel_dead_rx:
  "\<forall>r \<in> set rs. hdrcb r \<noteq> None \<Longrightarrow> cancel_rx dead_rx this rs u = (if rs = [] then Inr u else Inl dead_callback)"
  by (cases rs) (auto simp: dead_rx_def)

lemma cancel_dead_tx:
  "cancel_tx dead_tx this ts u = (if \<forall>t \<in> set ts. txcb t = None then Inr u else Inl dead_callback)"
  by (induction ts) (auto simp: dead_tx_def split: option.splits)

lemma destroy_dead:
  assumes "sock_inv s" "\<forall>r \<in> set (contents (rx_cbs s)). hdrcb r \<noteq> None"
  shows "rbind (sock_destroy dead_rx dead_tx (s, ())) (\<lambda>_. Inr ()) = (if nothing_to_cancel s then Inr () else Inl dead_callback)"
proof -
  have wf: "wf_buffer (rx_cbs s)" "wf_buffer (tx_cbs s)" using assms(1) by (simp_all add: sock_inv_def rx_ok_def tx_inv_def)
  have "contents (rx_cbs s) = [] \<longleftrightarrow> used (rx_cbs s) = 0" using length_contents [of "rx_cbs s"] by (metis length_0_conv)
  then show ?thesis
    using assms(2) clear_ok [OF wf(1)] clear_ok [OF wf(2)]
    by (auto simp: sock_destroy_def visited_eq [OF wf(1)] visited_eq [OF wf(2)] cancel_dead_rx cancel_dead_tx nothing_to_cancel_def)
qed

lemma delete_generator_eq:
  assumes "generator_inv a g"
  shows "delete_generator g = (if nothing_to_cancel (generator_sock g) then Inr () else Inl dead_callback)"
proof (cases g)
  case (Syn_gen s u)
  with assms have "sock_inv s" "\<forall>r \<in> set (contents (rx_cbs s)). hdrcb r \<noteq> None"
    by (auto simp: syn_inv_def in_order_def)
  from destroy_dead [OF this] show ?thesis by (simp add: Syn_gen)
next
  case (Mem_gen s u)
  with assms have "sock_inv s" "\<forall>r \<in> set (contents (rx_cbs s)). hdrcb r \<noteq> None"
    by (auto simp: mem_inv_def in_order_def)
  from destroy_dead [OF this] show ?thesis by (simp add: Mem_gen)
qed

subsection \<open>Properties\<close>

text \<open>C4: Every request that was sent has been answered or is still outstanding on one of the connections that exist, at
  every point of every run; never more than the scheduled number are sent, and as long as the program runs not all of them have
  been answered.\<close>

theorem requests_conserved:
  assumes "\<not> send_only cfg" "client_new ep tm watch cfg = Inr c"
    and "client_run env cfg (generator_ops st env cfg) draw start now script c = Some (Inr w)"
  shows "sent_count (cl w) = rcvd_count (cl w) + outstanding generator_outst w \<and>
    sent_count (cl w) \<le> length (schedule (cl w)) \<and>
    (rcvd_count (cl w) = 0 \<or> rcvd_count (cl w) < length (schedule (cl w)))"
proof -
  obtain p where "run.run_inv cfg p w" by (rule client_reached [OF assms])
  then show ?thesis by (auto simp: run.run_inv_def balance_def)
qed

text \<open>C6: The generators that exist at a point of a run are in a good state, not freed, and referenced exactly by the pool and by
  each of their outstanding requests; those of the pool all exist.\<close>

theorem generators_live_while_referenced:
  assumes "\<not> send_only cfg" "client_new ep tm watch cfg = Inr c"
    and "client_run env cfg (generator_ops st env cfg) draw start now script c = Some (Inr w)"
  shows "(\<forall>a g. gens w a = Some g \<longrightarrow> generator_inv a g \<and> a < created w \<and> \<not> freed (refs (cl w) a) \<and>
      0 < ref_cnt (refs (cl w) a) \<and>
      ref_cnt (refs (cl w) a) = (if a \<in> set (conns (cl w)) then 1 else 0) + int (generator_outst g)) \<and>
    (\<forall>a \<in> set (conns (cl w)). gens w a \<noteq> None) \<and>
    conns (cl w) = (if conn_mode cfg = PER_REQUEST then [] else [0..<unat (conn_cnt cfg)])"
proof -
  obtain p where p: "run.run_inv cfg p w"
    "conns (cl w) = (if conn_mode cfg = PER_REQUEST then [] else [0..<unat (conn_cnt cfg)])"
    by (rule client_reached [OF assms])
  then have ok: "world_ok generator_inv generator_outst None w" by (simp add: run.run_inv_def)
  show ?thesis
    using ok p(2) unfolding world_ok_def by (simp only: option.distinct if_False add_0_right) blast
qed

text \<open>C14: A run never hangs in one of the client's own loops: unless computing the schedule does not end, every
  script of events leads to a state or to an exception (the program may still wait for events for ever).\<close>

theorem run_never_hangs:
  assumes "\<not> send_only cfg" "client_new ep tm watch cfg = Inr c" "setup_deadlines (c_rnd env) draw cfg \<noteq> None"
  shows "\<exists>r. client_run env cfg (generator_ops st env cfg) draw start now script c = Some r"
proof -
  from assms(3) obtain x where x: "setup_deadlines (c_rnd env) draw cfg = Some x" by blast
  show ?thesis
  proof (cases x)
    case (Inl e)
    then show ?thesis using x
      by (cases "setup_connections env cfg (generator_ops st env cfg) (world_new c)")
        (simp_all add: client_run_def setup_experiment_def obind_def)
  next
    case (Inr plan)
    obtain ds pre meas post where plan: "plan = (ds, pre, meas, post)" by (cases plan)
    from run.client_run_run [OF assms(1,2) x [unfolded Inr plan], of st start now script] show ?thesis by blast
  qed
qed

text \<open>C7: The program exits only with status 0 and only when every scheduled request has been answered (the last one perhaps while it is
  being sent). It has then printed the summary of exactly as many samples as were asked for, and written the inter-arrival times of
  the whole schedule if a file was given.\<close>

theorem exits_when_all_answered:
  assumes "\<not> send_only cfg" "client_new ep tm watch cfg = Inr c"
    and "setup_deadlines (c_rnd env) draw cfg = Some (Inr (ds, pre, meas, post))"
    and "client_run env cfg (generator_ops st env cfg) draw start now script c = Some (Inl (Exit n out))"
  shows "n = 0 \<and> (\<exists>d r. out = Summary r (record_iatimes cfg ds) \<and> print_summary (c_rnd env) cfg d = Inr r \<and>
    rcvd_count d = length ds \<and> sent_count d \<le> length ds \<and> length ds \<le> sent_count d + 1 \<and>
    length (samples (service_acc (results d))) = unat (nsamples cfg) \<and>
    length (samples (queue_acc (results d))) = unat (nsamples cfg) \<and>
    length (samples (wait_acc (results d))) = unat (nsamples cfg))"
proof -
  obtain ds' pre' meas' post' d r where d: "setup_deadlines (c_rnd env) draw cfg = Some (Inr (ds', pre', meas', post'))" "n = 0"
    "out = Summary r (record_iatimes cfg ds')" "print_summary (c_rnd env) cfg d = Inr r" "rcvd_count d = length ds'"
    "sent_count d \<le> length ds'" "length ds' \<le> sent_count d + 1" "samples_ok d" "measure_count d = unat (nsamples cfg)"
    by (rule exit_completes [OF assms(1,2,4)])
  have "ds' = ds" using d(1) assms(3) by simp
  with d(2-9) show ?thesis by (intro conjI exI [of _ d] exI [of _ r]) (simp_all add: samples_ok_def)
qed

text \<open>C5: The handler of the timer returns; it sends, in the order of the schedule, exactly the requests that are due, and then
  sets the timer to the time left until the next one, unless that was the last. A request that is late by more than the threshold is
  counted as missed, except the first one of each firing of the timer.\<close>

theorem timer_sends_due:
  assumes "\<not> send_only cfg" "client_new ep tm watch cfg = Inr c"
    and "client_run env cfg (generator_ops st env cfg) draw start now script c = Some (Inr w)"
  shows "\<exists>r. timer_handler env cfg (generator_ops st env cfg) t w = Some r \<and> (\<forall>w'. r = Inr w' \<longrightarrow>
    (let s = sent_count (cl w); s' = sent_count (cl w'); ds = schedule (cl w); due = t - exp_start_time (cl w) in
      s \<le> s' \<and> s' \<le> length ds \<and> (\<forall>k \<in> {s..<s'}. ds ! k \<le> due) \<and>
      (if s' < length ds then due < ds ! s' \<and> armed w' = Some (ds ! s' - due) else s < s' \<and> armed w' = armed w) \<and>
      missed_send (cl w') = missed_send (cl w) +
        length (filter (\<lambda>k. s < k \<and> ds ! k - due < missed_threshold (cl w)) [s..<s'])))"
proof -
  obtain p where "run.run_inv cfg p w" by (rule client_reached [OF assms])
  from run.timer_handler_run [OF assms(1) this, of env st t] show ?thesis
    by (auto simp: timer_outcome_def Let_def)
qed

text \<open>C21: With the busy timer the same requests are sent, each late one counted as missed; but it returns only if a request
  of the schedule is left that is not due yet. With all that are left due it sends each of them and then, unless one of these calls
  threw, reads past the end of the schedule.\<close>

theorem busy_timer_sends_due:
  assumes "\<not> send_only cfg" "client_new ep tm watch cfg = Inr c"
    and "client_run env cfg (generator_ops st env cfg) draw start now script c = Some (Inr w)"
  shows "\<exists>r. busy_timer env cfg (generator_ops st env cfg) t w = Some r \<and> (\<forall>w'. r = Inr w' \<longrightarrow>
    (let s = sent_count (cl w); s' = sent_count (cl w'); ds = schedule (cl w); due = t - exp_start_time (cl w) in
      s \<le> s' \<and> s' < length ds \<and> (\<forall>k \<in> {s..<s'}. ds ! k \<le> due) \<and> due < ds ! s' \<and> armed w' = armed w \<and>
      missed_send (cl w') = missed_send (cl w) + length (filter (\<lambda>k. ds ! k - due < missed_threshold (cl w)) [s..<s']))) \<and>
    ((\<forall>k \<in> {sent_count (cl w)..<length (schedule (cl w))}. schedule (cl w) ! k \<le> t - exp_start_time (cl w)) \<longrightarrow>
      r = (case send_next env cfg (generator_ops st env cfg) t (length (schedule (cl w)) - sent_count (cl w)) w of
        Inl e \<Rightarrow> Inl e
      | Inr w' \<Rightarrow> Inl (Undefined_behaviour ''vector index out of range'')))"
proof -
  let ?ops = "generator_ops st env cfg"
  obtain p where inv: "run.run_inv cfg p w" by (rule client_reached [OF assms])
  from run.busy_timer_run [OF assms(1) inv, of env st t] obtain r where
    r: "busy_timer env cfg ?ops t w = Some r"
    "\<And>w'. r = Inr w' \<Longrightarrow> busy_outcome generator_inv generator_queue cfg t w w'" by fastforce
  have eq: "ds + start' - t = ds - (t - start')" "(ds + start' \<le> t) = (ds \<le> t - start')"
    for ds start' :: int by linarith+
  let ?rest = "length (schedule (cl w)) - sent_count (cl w)"
  have last: "r = (case send_next env cfg ?ops t ?rest w of
      Inl e \<Rightarrow> Inl e | Inr w' \<Rightarrow> Inl (Undefined_behaviour ''vector index out of range''))"
    if "\<forall>k \<in> {sent_count (cl w)..<length (schedule (cl w))}. schedule (cl w) ! k \<le> t - exp_start_time (cl w)"
  proof -
    have "busy_timer env cfg ?ops t w = Some (rbind (send_next env cfg ?ops t ?rest w)
        (\<lambda>_. Inl (Undefined_behaviour ''vector index out of range'')))"
      using inv that by (intro run.busy_timer_all_due [OF assms(1)]) (auto simp: run.run_inv_def eq(2))
    then have "r = rbind (send_next env cfg ?ops t ?rest w)
        (\<lambda>_. Inl (Undefined_behaviour ''vector index out of range''))" using r(1) by simp
    then show ?thesis by (cases "send_next env cfg ?ops t ?rest w") (simp_all only: rbind.simps sum.case)
  qed
  show ?thesis
    by (rule exI [of _ r], intro conjI allI impI)
      (rule r(1), drule r(2), simp add: busy_outcome_def Let_def eq, erule last)
qed

text \<open>C23: In round-robin mode the request with number \<open>n\<close> goes out on connection \<open>n mod conn_cnt\<close>, up to the request where the
  static \<open>int\<close> index overflows. The number of connections is not 0, by which it would divide: with none (\<open>-n 0\<close> is accepted)
  the constructor of the client has made a distribution over an empty range before, which is undefined.\<close>

theorem round_robin_order:
  assumes "\<not> send_only cfg" "client_new ep tm watch cfg = Inr c"
    and "client_run env cfg (generator_ops st env cfg) draw start now script c = Some (Inr w)"
    and "conn_mode cfg = ROUND_ROBIN"
  shows "conn_cnt cfg \<noteq> 0 \<and> pool_connection env cfg (cl w) =
      (if sent_count (cl w) = 2 ^ 31 - 1 then Inl (Undefined_behaviour ''signed overflow'')
       else Inr (sent_count (cl w) mod unat (conn_cnt cfg), (cl w)\<lparr>rr_idx := int (sent_count (cl w)) + 1\<rparr>)) \<and>
    client_new ep tm watch (cfg\<lparr>conn_cnt := 0\<rparr>) = Inl (Undefined_behaviour ''uniform_int_distribution: empty range'')"
proof -
  obtain p where p: "run.run_inv cfg p w"
    "conns (cl w) = (if conn_mode cfg = PER_REQUEST then [] else [0..<unat (conn_cnt cfg)])"
    by (rule client_reached [OF assms(1-3)])
  then have i: "rr_idx (cl w) = int (sent_count (cl w))" "conns (cl w) = [0..<unat (conn_cnt cfg)]"
    using assms(4) by (simp_all add: run.run_inv_def)
  moreover have "conn_cnt cfg \<noteq> 0" using assms(2) by (auto simp: client_new_def no_conn_range_def)
  moreover have "0 < unat (conn_cnt cfg)" using calculation(3) by (simp add: unat_gt_0)
  ultimately show ?thesis using assms(4)
    by (auto simp: pool_connection_def client_new_def no_conn_range_def Let_def)
qed

text \<open>C22: With the last reference a generator is deleted. That is safe only if its socket has nothing left to cancel: the destructor of
  the socket runs after the generator's own members are gone, and cancels pending reads (such as one whose header was answered but
  whose body is not in yet) through the generator's callback.\<close>

theorem last_reference_deletes:
  assumes "generator_inv a g" "gens w a = Some g" "\<not> freed (refs (cl w) a)" "ref_cnt (refs (cl w) a) = 1"
  shows "put_gen (generator_ops st env cfg) a w =
    (if nothing_to_cancel (generator_sock g)
     then Inr (w\<lparr>cl := (cl w)\<lparr>refs := (refs (cl w))(a := \<lparr>ref_cnt = 0, freed = True\<rparr>)\<rparr>, gens := (gens w)(a := None)\<rparr>)
     else Inl dead_callback)"
proof -
  have "refs (cl w) a = \<lparr>ref_cnt = 1, freed = False\<rparr>" using assms(3,4) by simp
  then have "put_ref a (cl w) = Inr ((cl w)\<lparr>refs := (refs (cl w))(a := \<lparr>ref_cnt = 0, freed = True\<rparr>)\<rparr>)"
    by (simp add: put_ref_def gen_put_def Let_def)
  then show ?thesis
    using assms(2) delete_generator_eq [OF assms(1)] by (simp add: put_gen_def generator_ops_def)
qed

subsection \<open>Witnesses\<close>

lemmas one_reached = one_cfg_simps(5) one_client_new

theorem requests_conserved_witness:
  "client_run one_env one_cfg one_ops (\<lambda>_. 1000) 0 0 (take 2 one_script) one_client = Some (Inr one_world2) \<and>
    sent_count (cl one_world2) = 1 \<and> rcvd_count (cl one_world2) = 0 \<and> outstanding generator_outst one_world2 = 1"
  using requests_conserved [OF one_reached one_run(3)] one_run(3)
  by (simp add: one_world2_def one_client2_def one_client1_def)

theorem generators_live_while_referenced_witness:
  "client_run one_env one_cfg one_ops (\<lambda>_. 1000) 0 0 (take 1 one_script) one_client = Some (Inr one_world1) \<and>
    generator_inv 0 (Syn_gen (one_sock one_N one_B) (one_syn one_N (one_client1 2))) \<and>
    ref_cnt (refs (cl one_world1) 0) = 1"
proof -
  have "gens one_world1 0 = Some (Syn_gen (one_sock one_N one_B) (one_syn one_N (one_client1 2)))"
    by (simp add: one_world1_def)
  with generators_live_while_referenced [OF one_reached one_run(2)] have
    "generator_inv 0 (Syn_gen (one_sock one_N one_B) (one_syn one_N (one_client1 2)))" by blast
  with one_run(2) show ?thesis by (simp add: one_world1_def one_client2_def one_client1_def one_refs_def)
qed

theorem run_never_hangs_witness:
  "\<exists>r. client_run one_env one_cfg one_ops (\<lambda>_. 1000) 0 0 [Woken [Timer_event 2000, Timer_event 3000] 0] one_client = Some r"
  by (rule run_never_hangs [OF one_reached]) (simp add: one_schedule)

theorem exits_when_all_answered_witness:
  "client_run one_env one_cfg one_ops (\<lambda>_. 1000) 0 0 one_script one_client = Some (Inl (Exit 0 one_output)) \<and>
    (\<exists>d. print_summary (c_rnd one_env) one_cfg d = Inr (Machine_readable 125000 [4]) \<and> rcvd_count d = 1)"
  using exits_when_all_answered [OF one_reached one_schedule one_run(4)] one_run(4) by (auto simp: one_output_def)

theorem timer_sends_due_witness:
  "\<exists>w'. timer_handler one_env one_cfg one_ops 1000 one_world0 = Some (Inr w') \<and> sent_count (cl w') = 1"
proof -
  have "timer_handler one_env one_cfg one_ops 1000 one_world0 = Some (Inr one_world1)" using one_request by simp
  with timer_sends_due [OF one_reached one_run(1), of 1000] show ?thesis
    by (auto simp: Let_def one_world0_def less_Suc_eq split: if_splits)
qed

theorem busy_timer_sends_due_witness:
  "busy_timer one_env one_cfg one_ops 1000 one_world0 = Some (Inl (Undefined_behaviour ''vector index out of range''))"
proof -
  have "send_next one_env one_cfg one_ops 1000 1 one_world0 \<noteq> Inl e" for e
    using one_send_request by (simp add: dur_def count_missed_def one_world0_def one_plan_def one_client_def)
  then show ?thesis
    using busy_timer_sends_due [OF one_reached one_run(1), of 1000]
    by (auto simp: one_world0_def simp del: send_next.simps split: sum.splits)
qed

definition rr_cfg :: Config where
  "rr_cfg = one_cfg\<lparr>conn_mode := ROUND_ROBIN, conn_cnt := 2\<rparr>"

lemma rr_run:
  "\<exists>w. client_run one_env rr_cfg (generator_ops one_setup one_env rr_cfg) (\<lambda>_. 1000) 0 0 [] one_client = Some (Inr w) \<and>
    sent_count (cl w) = 0"
proof -
  have "setup_deadlines (c_rnd one_env) (\<lambda>_. 1000) rr_cfg = Some (Inr ([1000], 0, 1, 0))"
    by (simp add: setup_deadlines_def obind_def fill_until.simps ceil_ns_def to_uint64_def seconds_def dur_def
        rr_cfg_def one_cfg_def config_default_def one_env_def)
  moreover have "protocol rr_cfg = SYNTHETIC" "conn_mode rr_cfg = ROUND_ROBIN" "\<not> use_busy_timer rr_cfg" 
    "unat (conn_cnt rr_cfg) = Suc (Suc 0)"
    by (simp_all add: rr_cfg_def)
  ultimately show ?thesis
    by (simp add: client_run_def setup_experiment_def obind_def setup_connections_def new_connection_def
      generator_ops_def new_generator_def one_connect client_watch_def system_call_def world_new_def Let_def
      timer_handler_def timer_loop.simps next_deadline_def dur_def arm_timer_def timer_arm_def one_env_def one_client_def)
qed

theorem round_robin_order_witness:
  "\<exists>w. client_run one_env rr_cfg (generator_ops one_setup one_env rr_cfg) (\<lambda>_. 1000) 0 0 [] one_client = Some (Inr w) \<and>
    pool_connection one_env rr_cfg (cl w) = Inr (0, (cl w)\<lparr>rr_idx := 1\<rparr>)"
proof -
  obtain w where w: "client_run one_env rr_cfg (generator_ops one_setup one_env rr_cfg) (\<lambda>_. 1000) 0 0 [] one_client = Some (Inr w)"
    "sent_count (cl w) = 0" using rr_run by blast
  have "client_new (4, 0) (5, 0) (0, 0) rr_cfg = Inr one_client"
    using one_client_new by (simp add: client_new_def no_conn_range_def rr_cfg_def split: if_splits)
  from round_robin_order [OF _ this w(1)] w show ?thesis by (auto simp: rr_cfg_def)
qed

text \<open>A generator whose only request was answered by a header, with the body still to come.\<close>

definition pend_sock :: "(unit, unit, nat) Sock" where
  "pend_sock = demo_mbody\<lparr>rx_cbs := \<lparr>buf =
     [\<lparr>hdrlen = 0, hdrcb = Some (), bodylen = 7, bodycb = None, rxdata = 0\<rparr>, IORx_default 0], head = 0, tail = 1, used = 1\<rparr>\<rparr>"

definition pend_world :: "generator world" where
  "pend_world = \<lparr>cl = no_client\<lparr>refs := (\<lambda>_. \<lparr>ref_cnt = 1, freed = False\<rparr>)\<rparr>,
     gens = [9 \<mapsto> Mem_gen pend_sock (mem_new 2 9 9 5 no_client)], created = 10, armed = None\<rparr>"

theorem last_reference_deletes_witness:
  "put_gen (generator_ops one_setup one_env one_cfg) 9 pend_world = Inl dead_callback"
proof -
  have c: "contents (rx_cbs pend_sock) = [\<lparr>hdrlen = 0, hdrcb = Some (), bodylen = 7, bodycb = None, rxdata = 0\<rparr>]"
    by (simp add: pend_sock_def contents_def slots_def ring_ix_def)
  have "rbuf pend_sock = rbuf demo_mbody" "tx_side pend_sock = tx_side demo_mbody" "wf_buffer (rx_cbs pend_sock)"
    by (simp_all add: pend_sock_def tx_side_def wf_buffer_def ring_ix_def)
  then have "sock_inv pend_sock" "self pend_sock = 9"
    using demo_mbody_facts(2,3) tx_side_inv [of pend_sock demo_mbody] by (simp_all add: sock_inv_def rx_ok_def pend_sock_def)
  then have "generator_inv 9 (Mem_gen pend_sock (mem_new 2 9 9 5 no_client))"
    by (simp add: mem_inv_def mem_good_def c in_order_def awaiting_def mem_new_def slots_def buffer_new_def wf_buffer_def ring_ix_def)
  moreover have "\<not> nothing_to_cancel pend_sock" by (simp add: nothing_to_cancel_def pend_sock_def)
  ultimately show ?thesis
    using last_reference_deletes [of 9 _ pend_world one_setup one_env one_cfg] by (simp add: pend_world_def)
qed

end
