(* ===== verification/Mutated_Main.thy ===== *)
theory Mutated_Main
  imports Options Client_Spec
begin

section \<open>The programs (client/mutated_synthetic.cc, client/mutated_memcache.cc)\<close>

text \<open>
  The two \<open>main\<close> functions parse the options, construct the client and run it; they differ in the parser. How the program
  ends: the process exits with a status (and has printed the summary or something else), an exception leaves \<open>main\<close> (the program aborts), or behaviour is undefined;
  or it still waits for events when the script of events ends.
\<close>

datatype ending = Exited int printed | Aborted exn | Undefined string | Waiting

text \<open>\<open>what()\<close> of the exceptions that are not system errors.\<close>

definition exn_what :: "exn \<Rightarrow> string" where
  "exn_what e = (case e of Invalid_argument m \<Rightarrow> m | Runtime_error m \<Rightarrow> m | Bad_function_call \<Rightarrow> ''bad_function_call'' | _ \<Rightarrow> [])"

definition main_catch :: "exn \<Rightarrow> ending" where
  "main_catch e =
     (case e of
        System_error n s \<Rightarrow> Aborted e
      | Exit n out \<Rightarrow> Exited n out
      | Undefined_behaviour s \<Rightarrow> Undefined s
      | _ \<Rightarrow> Exited EXIT_FAILURE (Text [''Error: '' @ exn_what e]))"

text \<open>\<open>ep\<close>, \<open>tm\<close> and \<open>watch\<close> are the kernel's answers to the constructor of the client.\<close>

record main_env =
  m_epoll :: "int \<times> int"
  m_timer :: "int \<times> int"
  m_watch :: "int \<times> int"
  m_client :: "io_answers client_env"
  m_gens :: gen_setup
  m_draw :: "nat \<Rightarrow> real"
  m_start :: int
  m_now :: int

definition mutated_main :: "main_env \<Rightarrow> Config res \<Rightarrow> io_answers wakeup list \<Rightarrow> ending option" where
  "mutated_main m parsed script =
     (case rbind parsed (\<lambda>cfg. rbind (client_new (m_epoll m) (m_timer m) (m_watch m) cfg) (\<lambda>c. Inr (cfg, c))) of
        Inl e \<Rightarrow> Some (main_catch e)
      | Inr (cfg, c) \<Rightarrow>
          map_option (case_sum main_catch (\<lambda>w. Waiting))
            (client_run (m_client m) cfg (generator_ops (m_gens m) (m_client m) cfg) (m_draw m) (m_start m) (m_now m) script c))"

definition main_synthetic :: "main_env \<Rightarrow> string \<Rightarrow> (string \<Rightarrow> real option) \<Rightarrow> (char \<times> string) list \<Rightarrow> string list \<Rightarrow>
    io_answers wakeup list \<Rightarrow> ending option" where
  "main_synthetic m prog scan_double opts args = mutated_main m (parse_synthetic prog (c_rnd (m_client m)) scan_double opts args)"

definition main_memcache :: "main_env \<Rightarrow> string \<Rightarrow> (string \<Rightarrow> real option) \<Rightarrow> (string \<Rightarrow> real) \<Rightarrow> (char \<times> string) list \<Rightarrow>
    string list \<Rightarrow> io_answers wakeup list \<Rightarrow> ending option" where
  "main_memcache m prog scan_double atof opts args = mutated_main m (parse_memcache prog (c_rnd (m_client m)) scan_double atof opts args)"

subsection \<open>Properties\<close>

lemma print_summary_shape:
  assumes "print_summary rnd cfg d = Inr r" "samples_ok d"
  shows "case r of Machine_readable rate xs \<Rightarrow> machine_readable cfg \<and> length xs = measure_count d
    | Human_readable s \<Rightarrow> \<not> machine_readable cfg \<and> target_rate s = req_s cfg \<and> missed_sent s = (missed_send d, sent_count d) \<and>
        (wait_row s \<noteq> None \<longleftrightarrow> protocol cfg = SYNTHETIC)"
  using assms by (auto simp: print_summary_def samples_ok_def Let_def rbind_eq_Inr split: if_splits)

lemma client_new_ends [exits]: "client_new ep tm watch cfg = Inl e \<Longrightarrow> no_exit e"
  by (auto simp: client_new_def client_watch_def system_call_def rbind_eq_Inl split: if_splits prod.splits)

text \<open>The exception that leaves the parser, the constructor of the client or its run.\<close>

definition thrown :: "main_env \<Rightarrow> Config res \<Rightarrow> io_answers wakeup list \<Rightarrow> exn option" where
  "thrown m parsed script =
     (case parsed of Inl e \<Rightarrow> Some e
      | Inr cfg \<Rightarrow>
          (case client_new (m_epoll m) (m_timer m) (m_watch m) cfg of Inl e \<Rightarrow> Some e
           | Inr c \<Rightarrow>
               (case client_run (m_client m) cfg (generator_ops (m_gens m) (m_client m) cfg) (m_draw m) (m_start m) (m_now m)
                       script c of
                  Some (Inl e) \<Rightarrow> Some e
                | _ \<Rightarrow> None)))"

lemma main_thrown: "thrown m parsed script = Some e \<Longrightarrow> mutated_main m parsed script = Some (main_catch e)"
  by (auto simp: thrown_def mutated_main_def split: sum.splits option.splits)

lemma main_not_thrown:
  assumes "mutated_main m parsed script = Some x" "thrown m parsed script = None"
  shows "\<exists>cfg c w. x = Waiting \<and> parsed = Inr cfg \<and> client_new (m_epoll m) (m_timer m) (m_watch m) cfg = Inr c \<and>
    client_run (m_client m) cfg (generator_ops (m_gens m) (m_client m) cfg) (m_draw m) (m_start m) (m_now m) script c = Some (Inr w)"
  using assms by (auto simp: thrown_def mutated_main_def split: sum.splits option.splits)

text \<open>An exit comes from the parser or from the end of a run.\<close>

lemma thrown_exit:
  assumes "thrown m parsed script = Some (Exit n out)" "\<And>cfg. parsed = Inr cfg \<Longrightarrow> \<not> send_only cfg"
  shows "parsed = Inl (Exit n out) \<or> n = 0 \<and> (\<exists>cfg r file. parsed = Inr cfg \<and> out = Summary r file \<and>
      (case r of Machine_readable rate xs \<Rightarrow> machine_readable cfg \<and> length xs = unat (nsamples cfg)
       | Human_readable s \<Rightarrow> \<not> machine_readable cfg \<and> target_rate s = req_s cfg \<and>
           (wait_row s \<noteq> None \<longleftrightarrow> protocol cfg = SYNTHETIC)))"
proof (cases parsed)
  case (Inl e)
  with assms(1) show ?thesis by (simp add: thrown_def)
next
  case (Inr cfg)
  have "\<not> no_exit (Exit n out)" by simp
  with assms(1) Inr obtain c where c: "client_new (m_epoll m) (m_timer m) (m_watch m) cfg = Inr c"
    "client_run (m_client m) cfg (generator_ops (m_gens m) (m_client m) cfg) (m_draw m) (m_start m) (m_now m) script c =
      Some (Inl (Exit n out))"
    by (auto simp: thrown_def dest: client_new_ends split: sum.splits option.splits)
  obtain ds d r where d: "n = 0" "out = Summary r (record_iatimes cfg ds)"
    "print_summary (c_rnd (m_client m)) cfg d = Inr r" "samples_ok d" "measure_count d = unat (nsamples cfg)"
    using exit_completes [OF assms(2) [OF Inr] c] by metis
  from print_summary_shape [OF d(3,4)] d(1,2,5) Inr show ?thesis by (cases r) auto
qed

text \<open>C13: How the program ends, for both clients (send-only mode aside). It exits with status 0 when the parser printed the help that was
  asked for, or a run was completed and its results were printed: in machine-readable form, exactly as many latencies as
  samples were asked for; else the summary, with the waiting times for the synthetic protocol only. It exits with status 1 after the
  parser's complaint, or with the message of an exception that is no system error. A system error that is thrown anywhere, and only
  that, aborts the program; undefined behaviour is what was met. Else it still waits for events in the middle of a run.\<close>

theorem main_exit_status:
  assumes "parsed = parse_synthetic prog rnd sd opts args \<and> usage = synthetic_usage prog \<or>
      parsed = parse_memcache prog rnd sd af opts args \<and> usage = memcache_usage prog"
    and "\<And>cfg. parsed = Inr cfg \<Longrightarrow> \<not> send_only cfg" "mutated_main m parsed script = Some x"
  shows "(case x of
      Exited n out \<Rightarrow>
        n = 0 \<and> (out = Text usage \<and> parsed = Inl (Exit 0 out) \<or>
          (\<exists>cfg r file. parsed = Inr cfg \<and> out = Summary r file \<and>
            (case r of Machine_readable rate xs \<Rightarrow> machine_readable cfg \<and> length xs = unat (nsamples cfg)
             | Human_readable s \<Rightarrow> \<not> machine_readable cfg \<and> target_rate s = req_s cfg \<and>
                 (wait_row s \<noteq> None \<longleftrightarrow> protocol cfg = SYNTHETIC)))) \<or>
        n = 1 \<and> (out = Text (complaint usage) \<and> parsed = Inl (Exit 1 out) \<or>
          (\<exists>e. thrown m parsed script = Some e \<and> out = Text [''Error: '' @ exn_what e] \<and>
            (e = Bad_function_call \<or> (\<exists>s. e = Runtime_error s \<or> e = Invalid_argument s))))
    | Aborted e \<Rightarrow> thrown m parsed script = Some e \<and> (\<exists>errno s. e = System_error errno s)
    | Undefined s \<Rightarrow> thrown m parsed script = Some (Undefined_behaviour s)
    | Waiting \<Rightarrow> thrown m parsed script = None \<and> (\<exists>cfg c w. parsed = Inr cfg \<and>
        client_new (m_epoll m) (m_timer m) (m_watch m) cfg = Inr c \<and>
        client_run (m_client m) cfg (generator_ops (m_gens m) (m_client m) cfg) (m_draw m) (m_start m) (m_now m) script c =
          Some (Inr w))) \<and>
    (\<forall>errno s. thrown m parsed script = Some (System_error errno s) \<longrightarrow> x = Aborted (System_error errno s))"
proof (cases "thrown m parsed script")
  case None
  with main_not_thrown [OF assms(3)] show ?thesis by auto
next
  case (Some e)
  from main_thrown [OF this] assms(3) have x: "x = main_catch e" by simp
  show ?thesis
  proof (cases "\<exists>n out. e = Exit n out")
    case True
    then obtain n out where e: "e = Exit n out" by blast
    have "n = 0 \<and> out = Text usage \<or> n = 1 \<and> out = Text (complaint usage)" if "parsed = Inl (Exit n out)"
      using assms(1) that synthetic_exits [of prog rnd sd opts args n out] memcache_exits [of prog rnd sd af opts args n out]
      by (auto split: if_splits)
    with thrown_exit [OF Some [unfolded e] assms(2)] Some show ?thesis by (auto simp: x e main_catch_def)
  next
    case False
    with Some show ?thesis by (cases e) (simp_all add: x main_catch_def EXIT_FAILURE_def)
  qed
qed

text \<open>The witness: options that are accepted, and a kernel that has no descriptor left.\<close>

definition full_main :: main_env where
  "full_main = \<lparr>m_epoll = (-1, 24), m_timer = (5, 0), m_watch = (0, 0), m_client = one_env, m_gens = one_setup,
     m_draw = (\<lambda>_. 1000), m_start = 0, m_now = 0\<rparr>"

theorem main_exit_status_witness:
  "mutated_main full_main (parse_memcache ''mutated'' (\<lambda>x. x) demo_double (\<lambda>s. 0) demo_opts [''h:80'', ''100'']) [] =
    Some (Aborted (System_error 24 ''Client::Client: epoll_create1()''))"
proof -
  let ?parsed = "parse_memcache ''mutated'' (\<lambda>x. x) demo_double (\<lambda>s. 0) demo_opts [''h:80'', ''100'']"
  obtain cfg where cfg: "?parsed = Inr cfg" using demo_parse by blast
  from parse_memcache_ok [OF this] have "\<not> send_only cfg" "conn_cnt cfg = 10"
    by (simp_all add: memcache_settings_def common_settings_def set_by_def demo_opts_def)
  then have t: "thrown full_main ?parsed [] = Some (System_error 24 ''Client::Client: epoll_create1()'')"
    by (simp add: thrown_def cfg client_new_def no_conn_range_def full_main_def system_call_def)
  then obtain x where x: "mutated_main full_main ?parsed [] = Some x" by (blast dest: main_thrown)
  have "\<not> send_only c" if "?parsed = Inr c" for c using that cfg \<open>\<not> send_only cfg\<close> by simp
  from main_exit_status [OF _ this x] t x show ?thesis by blast
qed

end
