(* ===== verification/Linux_Compat.thy ===== *)
theory Linux_Compat
  imports Mutated_Main
begin

section \<open>Other systems than Linux (client/linux_compat.hh)\<close>

text \<open>
  On Linux the header adds one system call, \<open>epoll_spin\<close>, which other kernels than Shinjuku's refuse. On other systems
  it supplies the types and calls that the client needs to compile; every call throws. So the client there ends in its
  constructor. Pointers are addresses; what a system call answers is the function \<open>sys\<close>.
\<close>

text \<open>The cast to \<open>int\<close> keeps 32 bits.\<close>

definition epoll_spin :: "(nat \<Rightarrow> int \<Rightarrow> nat \<Rightarrow> int \<Rightarrow> int \<Rightarrow> int) \<Rightarrow> int \<Rightarrow> nat \<Rightarrow> int \<Rightarrow> int \<Rightarrow> int" where
  "epoll_spin sys epfd events maxevents timeout = signed_take_bit 31 (sys 321 epfd events maxevents timeout)"

lemma epoll_spin_int:
  assumes "sys 321 epfd events maxevents timeout = r" "- (2 ^ 31) \<le> r" "r < 2 ^ 31"
  shows "epoll_spin sys epfd events maxevents timeout = r"
  using assms by (simp add: epoll_spin_def signed_take_bit_int_eq_self)

subsection \<open>Types and constants\<close>

definition compat_CLOCK_MONOTONIC :: int where "compat_CLOCK_MONOTONIC = 0"
definition compat_EPOLLIN :: int where "compat_EPOLLIN = 0"
definition compat_EPOLLOUT :: int where "compat_EPOLLOUT = 1"
definition compat_EPOLLET :: int where "compat_EPOLLET = 2"
definition compat_EPOLL_CTL_ADD :: int where "compat_EPOLL_CTL_ADD = 3"

record epoll_data =
  ptr :: nat

record epoll_event =
  ev_events :: int
  ev_data :: epoll_data

record timespec =
  tv_sec :: int
  tv_nsec :: int

record itimerspec =
  it_interval :: timespec
  it_value :: timespec

subsection \<open>Calls\<close>

definition compat_epoll_spin :: "int \<Rightarrow> epoll_event list \<Rightarrow> int \<Rightarrow> int \<Rightarrow> int res" where
  "compat_epoll_spin epfd events maxevents timeout = Inl (Runtime_error ''epoll_spin not supported'')"

definition compat_epoll_wait :: "int \<Rightarrow> epoll_event list \<Rightarrow> int \<Rightarrow> int \<Rightarrow> int res" where
  "compat_epoll_wait epfd events maxevents timeout = Inl (Runtime_error ''epoll_wait not supported'')"

definition compat_epoll_create1 :: "int \<Rightarrow> int res" where
  "compat_epoll_create1 fl = Inl (Runtime_error ''epoll_create1 not supported'')"

definition compat_timerfd_create :: "int \<Rightarrow> int \<Rightarrow> int res" where
  "compat_timerfd_create clockid fl = Inl (Runtime_error ''timerfd_create not supported'')"

definition compat_epoll_ctl :: "int \<Rightarrow> int \<Rightarrow> int \<Rightarrow> epoll_event \<Rightarrow> int res" where
  "compat_epoll_ctl epfd op f ev = Inl (Runtime_error ''epoll_ctl not supported'')"

definition compat_timerfd_settime :: "int \<Rightarrow> int \<Rightarrow> itimerspec \<Rightarrow> nat \<Rightarrow> int res" where
  "compat_timerfd_settime f fl new_value old_value = Inl (Runtime_error ''timerfd_settime not supported'')"

subsection \<open>The client on such a system\<close>

text \<open>The calls of the client's constructor, with the answers they would have to give for it to succeed; \<open>nonblock\<close> is the
  value of \<open>O_NONBLOCK\<close> there.\<close>

definition compat_client_new :: "int \<Rightarrow> Config \<Rightarrow> client res" where
  "compat_client_new nonblock cfg =
     (if no_conn_range cfg then Inl (Undefined_behaviour ''uniform_int_distribution: empty range'')
      else
     rbind (compat_epoll_create1 0) (\<lambda>ep.
     rbind (system_call ep 0 ''Client::Client: epoll_create1()'') (\<lambda>epollfd.
     rbind (compat_timerfd_create compat_CLOCK_MONOTONIC nonblock) (\<lambda>tm.
     rbind (system_call tm 0 ''Client::Client: timefd_create()'') (\<lambda>timerfd.
     rbind (compat_epoll_ctl epollfd compat_EPOLL_CTL_ADD timerfd
              \<lparr>ev_events = or compat_EPOLLIN compat_EPOLLET, ev_data = \<lparr>ptr = 0\<rparr>\<rparr>) (\<lambda>st.
     client_new (ep, 0) (tm, 0) (st, 0) cfg))))))"

lemma compat_main_fails:
  "\<not> no_conn_range cfg \<Longrightarrow> case compat_client_new nonblock cfg of
     Inl e \<Rightarrow> main_catch e = Exited 1 (Text [''Error: epoll_create1 not supported''])
   | Inr c \<Rightarrow> False"
  by (simp add: compat_client_new_def compat_epoll_create1_def main_catch_def exn_what_def EXIT_FAILURE_def)

end
