(* ===== verification/Client_Open.thy ===== *)
theory Client_Open
  imports Client_Spec
begin

section \<open>The client is an open-loop generator\<close>

text \<open>
  What the load generator is for: when requests are sent depends on the schedule and on the clock, never on the responses.
  The clock is read by the handler of the timer, at the start of the experiment and with each of its events, or in every turn of the
  event loop with the busy timer; after a reading of \<open>t\<close> exactly the requests whose deadline is at most \<open>t\<close> after the
  start have been sent.
\<close>

subsection \<open>Readings of the clock\<close>

fun event_readings :: "'i event \<Rightarrow> int list" where
  "event_readings (Timer_event t) = [t]"
| "event_readings (Socket_event a ev i) = []"

fun wakeup_readings :: "Config \<Rightarrow> 'i wakeup \<Rightarrow> int list" where
  "wakeup_readings cfg (Wait_error errno) = []"
| "wakeup_readings cfg (Woken es now) = concat (map event_readings es) @ (if use_busy_timer cfg then [now] else [])"

definition clock_readings :: "Config \<Rightarrow> int \<Rightarrow> 'i wakeup list \<Rightarrow> int list" where
  "clock_readings cfg now script =
     (if use_busy_timer cfg then [] else [now]) @ concat (map (wakeup_readings cfg) script)"

text \<open>The number of requests due at a reading, and the most that were due at one of several readings.\<close>

definition due_at :: "int \<Rightarrow> int list \<Rightarrow> int \<Rightarrow> nat" where
  "due_at start ds t = length (filter (\<lambda>d. d \<le> t - start) ds)"

definition due_by :: "int \<Rightarrow> int list \<Rightarrow> nat \<Rightarrow> int list \<Rightarrow> nat" where
  "due_by start ds n ts = fold (\<lambda>t n. max n (due_at start ds t)) ts n"

lemma due_by_simps [simp]:
  "due_by start ds n [] = n" "due_by start ds n (t # ts) = due_by start ds (max n (due_at start ds t)) ts"
  "due_by start ds n (ts @ us) = due_by start ds (due_by start ds n ts) us"
  by (simp_all add: due_by_def)

lemma due_by_Max: "due_by start ds n ts = Max (insert n (due_at start ds ` set ts))"
proof (induction ts arbitrary: n)
  case (Cons t ts)
  then show ?case by (cases "ts = []") (simp_all add: max.assoc max.left_commute insert_commute)
qed simp

lemma due_at_sorted:
  assumes "sorted ds" "s \<le> s'" "s' \<le> length ds" "\<forall>k \<in> {s..<s'}. ds ! k \<le> t - start" "s' < length ds \<Longrightarrow> t - start < ds ! s'"
  shows "s' = max s (due_at start ds t)"
proof -
  let ?P = "\<lambda>d. d \<le> t - start"
  have late: "filter ?P (drop s' ds) = []"
  proof (cases "s' < length ds")
    case True
    have "t - start < d" if "d \<in> set (drop s' ds)" for d
    proof -
      from that obtain j where "j < length ds - s'" "d = ds ! (s' + j)" by (auto simp: in_set_conv_nth)
      then have "ds ! s' \<le> d" using sorted_nth_mono [OF assms(1), of s' "s' + j"] by simp
      with assms(5) [OF True] show ?thesis by simp
    qed
    then show ?thesis by (auto simp: filter_empty_conv not_le)
  qed simp
  have split: "due_at start ds t = length (filter ?P (take s' ds))"
    using late by (simp add: due_at_def) (metis append_Nil2 append_take_drop_id filter_append)
  show ?thesis
  proof (cases "s = s'")
    case True
    then show ?thesis using split length_filter_le [of ?P "take s' ds"] assms(3) by simp
  next
    case False
    have "d \<le> t - start" if "d \<in> set (take s' ds)" for d
    proof -
      from that assms(3) obtain j where j: "j < s'" "d = ds ! j" by (auto simp: in_set_conv_nth)
      have "ds ! j \<le> ds ! (s' - 1)" using j assms(3) by (intro sorted_nth_mono [OF assms(1)]) auto
      moreover have "ds ! (s' - 1) \<le> t - start" using False assms(2,4) j(1) by auto
      ultimately show ?thesis using j(2) by simp
    qed
    then have "filter ?P (take s' ds) = take s' ds" by simp
    then show ?thesis using split assms(2,3) by simp
  qed
qed

subsection \<open>Steps of the run\<close>

context client_generator
begin

lemma timer_handler_due:
  assumes "\<not> send_only cfg" "run_inv p w" "sorted (schedule p)" "timer_handler env cfg ops t w = Some (Inr w')"
  shows "run_inv p w' \<and> sent_count (cl w') = max (sent_count (cl w)) (due_at (exp_start_time p) (schedule p) t)"
proof -
  from timer_handler_run [OF assms(1,2), of t] assms(4) have
    o: "timer_outcome ginv qs cfg (t - exp_start_time (cl w)) 0 w w'" "run_inv p w'" by auto
  have p: "schedule (cl w) = schedule p" "exp_start_time (cl w) = exp_start_time p"
    using assms(2) same_timesD [of p "cl w"] by (simp_all add: run_inv_def)
  have "sent_count (cl w') = max (sent_count (cl w)) (due_at (exp_start_time p) (schedule p) t)"
    using o(1) p by (intro due_at_sorted [OF assms(3)]) (auto simp: timer_outcome_def Let_def split: if_splits)
  with o(2) show ?thesis by simp
qed

lemma busy_timer_due:
  assumes "\<not> send_only cfg" "run_inv p w" "sorted (schedule p)" "busy_timer env cfg ops t w = Some (Inr w')"
  shows "run_inv p w' \<and> sent_count (cl w') = max (sent_count (cl w)) (due_at (exp_start_time p) (schedule p) t)"
proof -
  from busy_timer_run [OF assms(1,2), of t] assms(4) have
    o: "busy_outcome ginv qs cfg t w w'" "run_inv p w'" by auto
  have p: "schedule (cl w) = schedule p" "exp_start_time (cl w) = exp_start_time p"
    using assms(2) same_timesD [of p "cl w"] by (simp_all add: run_inv_def)
  have "sent_count (cl w') = max (sent_count (cl w)) (due_at (exp_start_time p) (schedule p) t)"
    using o(1) p by (intro due_at_sorted [OF assms(3)]) (auto simp: busy_outcome_def Let_def)
  with o(2) show ?thesis by simp
qed

lemma handle_event_due:
  assumes "\<not> send_only cfg" "run_inv p w" "sorted (schedule p)" "handle_event env cfg ops e w = Some (Inr w')"
  shows "run_inv p w' \<and> sent_count (cl w') = due_by (exp_start_time p) (schedule p) (sent_count (cl w)) (event_readings e)"
proof (cases e)
  case (Timer_event t)
  with assms(4) have "timer_handler env cfg ops t w = Some (Inr w')" by (simp split: if_splits)
  from timer_handler_due [OF assms(1-3) this] Timer_event show ?thesis by simp
next
  case (Socket_event a ev i)
  from handle_event_run [OF assms(1,2), of e] assms(4) have inv: "run_inv p w'" by auto
  from assms(4) Socket_event obtain u where c: "gen_call ops a (g_io ops i ev) w = Inr (u, w')" by (auto simp: rbind_eq_Inr)
  have "ok None w" using assms(2) by (simp add: run_inv_def)
  from call_keeps [OF this _ c, of "[]"] io_law [OF assms(1)] have "same_plan (cl w) (cl w')" by fastforce
  then show ?thesis using Socket_event inv by (simp add: same_plan_def)
qed

lemma handle_events_due:
  assumes "\<not> send_only cfg" "sorted (schedule p)"
  shows "run_inv p w \<Longrightarrow> handle_events env cfg ops es w = Some (Inr w') \<Longrightarrow>
    run_inv p w' \<and> sent_count (cl w') =
      due_by (exp_start_time p) (schedule p) (sent_count (cl w)) (concat (map event_readings es))"
proof (induction es arbitrary: w)
  case (Cons e es)
  from Cons.prems(2) obtain w1 where 1: "handle_event env cfg ops e w = Some (Inr w1)"
    "handle_events env cfg ops es w1 = Some (Inr w')" by (auto simp: obind_eq)
  from handle_event_due [OF assms(1) Cons.prems(1) assms(2) 1(1)] Cons.IH [OF _ 1(2)] show ?case by simp
qed simp

lemma run_wakeup_due:
  assumes "\<not> send_only cfg" "sorted (schedule p)" "run_inv p w" "run_wakeup env cfg ops x w = Some (Inr w')"
  shows "run_inv p w' \<and> sent_count (cl w') =
      due_by (exp_start_time p) (schedule p) (sent_count (cl w)) (wakeup_readings cfg x)"
proof (cases x)
  case (Woken es now)
  with assms(4) obtain w1 where 1: "handle_events env cfg ops es w = Some (Inr w1)"
    "if use_busy_timer cfg then busy_timer env cfg ops now w1 = Some (Inr w') else w' = w1"
    by (auto simp: obind_eq split: if_splits)
  from handle_events_due [OF assms(1-3) 1(1)] 1(2) busy_timer_due [OF assms(1) _ assms(2), of w1 now w'] Woken
  show ?thesis by (auto split: if_splits)
qed (use assms(4) in simp)

lemma run_loop_due:
  assumes "\<not> send_only cfg" "sorted (schedule p)"
  shows "run_inv p w \<Longrightarrow> run_loop env cfg ops script w = Some (Inr w') \<Longrightarrow>
    run_inv p w' \<and> sent_count (cl w') =
      due_by (exp_start_time p) (schedule p) (sent_count (cl w)) (concat (map (wakeup_readings cfg) script))"
proof (induction script arbitrary: w)
  case (Cons x xs)
  from Cons.prems(2) obtain w1 where 1: "run_wakeup env cfg ops x w = Some (Inr w1)"
    "run_loop env cfg ops xs w1 = Some (Inr w')" by (auto simp: obind_eq)
  from run_wakeup_due [OF assms Cons.prems(1) 1(1)] Cons.IH [OF _ 1(2)] show ?case by simp
qed simp

lemma client_run_due:
  assumes "\<not> send_only cfg" "client_new ep tm watch cfg = Inr c" "sorted ds"
    and "setup_deadlines (c_rnd env) draw cfg = Some (Inr (ds, pre, meas, post))"
    and "client_run env cfg ops draw start now script c = Some (Inr w)"
  shows "sent_count (cl w) = due_by start ds 0 (clock_readings cfg now script)"
proof -
  from client_run_starts [OF assms(2,4), of start now script] assms(5) obtain p w0 where
    p: "planned cfg (ds, pre, meas, post) start p" "run_inv p w0" "sent_count (cl w0) = 0"
    "obind (if \<not> use_busy_timer cfg then timer_handler env cfg ops now w0 else Some (Inr w0)) (run_loop env cfg ops script) =
      Some (Inr w)" by auto
  have d: "schedule p = ds" "exp_start_time p = start" "sorted (schedule p)" using p(1) assms(3) by (simp_all add: planned_def)
  from p(4) obtain w1 where 1: "(if \<not> use_busy_timer cfg then timer_handler env cfg ops now w0 else Some (Inr w0)) = Some (Inr w1)"
    "run_loop env cfg ops script w1 = Some (Inr w)" by (auto simp: obind_eq)
  have "run_inv p w1 \<and> sent_count (cl w1) = due_by start ds 0 (if use_busy_timer cfg then [] else [now])"
    using 1(1) p(2,3) timer_handler_due [OF assms(1) p(2) d(3), of now w1] d(1,2) by (auto split: if_splits)
  with run_loop_due [OF assms(1) d(3) _ 1(2)] d(1,2) show ?thesis by (simp add: clock_readings_def)
qed

end

subsection \<open>Properties\<close>

text \<open>C3: The client is open-loop: at every point of a run the number of requests it has sent is the largest number that were due at one of
  the readings of the clock so far; what the sockets did in between has no part in it.\<close>

theorem open_loop:
  assumes "\<not> send_only cfg" "client_new ep tm watch cfg = Inr c" "sorted ds"
    and "setup_deadlines (c_rnd env) draw cfg = Some (Inr (ds, pre, meas, post))"
    and "client_run env cfg (generator_ops st env cfg) draw start now script c = Some (Inr w)"
  shows "sent_count (cl w) =
    Max (insert 0 ((\<lambda>t. length (filter (\<lambda>d. d \<le> t - start) ds)) ` set (clock_readings cfg now script)))"
  using run.client_run_due [OF assms] by (simp add: due_by_Max due_at_def [abs_def])

text \<open>Two runs with the same schedule that read the clock at the same times have sent the same number of requests, whatever the servers
  answered, whichever connections were used and whatever the kernel did in each.\<close>

theorem responses_do_not_matter:
  assumes "\<not> send_only cfg" "client_new ep tm watch cfg = Inr c" "sorted ds"
    and "setup_deadlines (c_rnd env) draw cfg = Some (Inr (ds, pre, meas, post))" "c_rnd env' = c_rnd env"
    and "client_run env cfg (generator_ops st env cfg) draw start now script c = Some (Inr w)"
    and "client_run env' cfg (generator_ops st' env' cfg) draw start now script' c = Some (Inr w')"
    and "clock_readings cfg now script' = clock_readings cfg now script"
  shows "sent_count (cl w') = sent_count (cl w)"
proof -
  have "setup_deadlines (c_rnd env') draw cfg = Some (Inr (ds, pre, meas, post))" using assms(4,5) by simp
  from run.client_run_due [OF assms(1-3) this assms(7)] run.client_run_due [OF assms(1-4,6)] assms(8) show ?thesis by simp
qed

theorem open_loop_witness:
  "client_run one_env one_cfg one_ops (\<lambda>_. 1000) 0 0 (take 2 one_script) one_client = Some (Inr one_world2) \<and>
    clock_readings one_cfg 0 (take 2 one_script) = [0, 1000] \<and> sent_count (cl one_world2) = 1"
proof -
  have r: "clock_readings one_cfg 0 (take 2 one_script) = [0, 1000]"
    by (simp add: clock_readings_def one_script_def)
  from open_loop [OF one_reached _ one_schedule one_run(3)] r one_run(3) show ?thesis by simp
qed

text \<open>The second run has the request written, the first has not.\<close>

theorem responses_do_not_matter_witness:
  "client_run one_env one_cfg one_ops (\<lambda>_. 1000) 0 0 (take 1 one_script) one_client = Some (Inr one_world1) \<and>
   client_run one_env one_cfg one_ops (\<lambda>_. 1000) 0 0 (take 2 one_script) one_client = Some (Inr one_world2) \<and>
   sent_count (cl one_world2) = sent_count (cl one_world1)"
proof -
  have r: "clock_readings one_cfg 0 (take 2 one_script) = clock_readings one_cfg 0 (take 1 one_script)"
    by (simp add: clock_readings_def one_script_def)
  have "sorted [1000 :: int]" by simp
  from responses_do_not_matter [OF one_reached this one_schedule refl one_run(2,3) r] one_run(2,3) show ?thesis by blast
qed

end
