(* ===== verification/Client_Send_Only.thy ===== *)
theory Client_Send_Only
  imports Client_Spec
begin

section \<open>Send-only mode (client/gen_synthetic.cc, client/client.cc)\<close>

text \<open>
  With \<open>-z\<close> the synthetic generator tells the client at once that the request was answered, and asks the server not to reply;
  the read it queued for the response stays pending. With one connection for each request that answer gives back the client's
  reference, so that the generator is deleted as soon as the request is sent, and its socket cancels the pending
  read on a generator that is destroyed already. No run gets past its first request.
\<close>

subsection \<open>Sending on a new socket\<close>

lemma write_frames:
  "write_commit s n = Inr s' \<Longrightarrow> tx_rdy s' = tx_rdy s \<and> rx_rdy s' = rx_rdy s \<and> rx_cbs s' = rx_cbs s"
  "write_cb_point s t d = Inr s' \<Longrightarrow> tx_rdy s' = tx_rdy s \<and> rx_rdy s' = rx_rdy s \<and> rx_cbs s' = rx_cbs s"
  by (auto simp: write_commit_def write_cb_point_def rbind_eq_Inr Let_def split: if_splits)

lemma set_wmem_frame [simp]: "tx_rdy (set_wmem s xs) = tx_rdy s" "rx_rdy (set_wmem s xs) = rx_rdy s" "rx_cbs (set_wmem s xs) = rx_cbs s"
  by (simp_all add: set_wmem_def)

lemma try_tx_not_ready: "\<not> tx_rdy s \<Longrightarrow> try_tx h ws (s, u) wire = Inr (s, u, ws, wire)"
  by (simp add: try_tx_def)

lemma sock_read_not_ready:
  assumes "\<not> rx_rdy s"
  shows "sock_read h ks (s, u) r = rbind (queue (rx_cbs s) 1) (\<lambda>(p, n, q). Inr (s\<lparr>rx_cbs := q\<lparr>buf := (buf q)[p := r]\<rparr>\<rparr>, u, ks))"
  using assms by (auto simp: sock_read_def Let_def intro!: rbind_cong)

text \<open>In send-only mode the callback runs although the read for the response was only queued.\<close>

lemma syn_send_only:
  assumes "syn_inv (s, u)" "\<not> tx_rdy s" "\<not> rx_rdy s" "send_only cfg" "used (rx_cbs s) < length (buf (rx_cbs s))"
    and "syn_send env cfg ks ws meas cb (s, u) wire = Inr (n, s', u', ks', ws', wire')"
  shows "used (rx_cbs s') = used (rx_cbs s) + 1 \<and> length (buf (rx_cbs s')) = length (buf (rx_cbs s)) \<and> this_ref u' = this_ref u \<and>
    (\<exists>k. request_cb env k (this_ref u) 0 0 0 0 meas (gen.world u) = Inr (gen.world u'))"
proof -
  have inv: "sock_inv s" and wf: "wf_buffer (rx_cbs s)" using assms(1) by (simp_all add: syn_inv_def sock_inv_def rx_ok_def)
  from queue_one [OF wf assms(5)] obtain t where
    t: "queue (rx_cbs s) 1 = Inr (tail (rx_cbs s), 1, (rx_cbs s)\<lparr>tail := t, used := used (rx_cbs s) + 1\<rparr>)" by blast
  from assms(6) inv obtain service u1 p q p1 s1 s2 s3 u3 u4 where st:
    "gen_service_time env cfg u = Inr (service, u1)"
    "write_commit (set_wmem s (blit (buf (wbuf s)) p1 (pkt_fields (slot_addr env p) (send_only cfg)
       (req_service_us (buf q ! p))))) 144 = Inr s1"
    "write_cb_point s1 (Some ()) p = Inr s2"
    "try_tx (syn_sent env) ws (s2, set_req (u1\<lparr>requests := q, ticks := Suc (ticks u1)\<rparr>) p
       (\<lambda>r. r\<lparr>start_ts := clk env (ticks u1)\<rparr>)) wire = Inr (s3, u3, ws', wire')"
    "sock_read (syn_recv env) ks (s3, u3)
       \<lparr>hdrlen = 8, hdrcb = Some (), bodylen = 0, bodycb = None, rxdata = p\<rparr> = Inr (s', u4, ks')"
    "send_only cfg \<longrightarrow> (\<exists>w. call_request_cb env (req_cb (buf (requests u4) ! p)) (this_ref u4) 0 0 0 0 meas (gen.world u4) = Inr w \<and>
       u' = u4\<lparr>world := w\<rparr>)"
    by (elim syn_send_steps) blast
  have r: "\<not> tx_rdy s2" "\<not> rx_rdy s2" "rx_cbs s2 = rx_cbs s"
    using write_frames(1) [OF st(2)] write_frames(2) [OF st(3)] assms(2,3) by simp_all
  have s3: "s3 = s2" "this_ref u3 = this_ref u" "gen.world u3 = gen.world u"
    using st(4) gen_service_time_frame [OF st(1)] by (auto simp: try_tx_not_ready [OF r(1)])
  from st(5) have "u4 = u3 \<and> used (rx_cbs s') = used (rx_cbs s) + 1 \<and> length (buf (rx_cbs s')) = length (buf (rx_cbs s))"
    by (auto simp: s3(1) sock_read_not_ready [OF r(2)] r(3) t [unfolded One_nat_def])
  with st(6) assms(4) s3 show ?thesis by (auto simp: call_request_cb_def split: option.splits)
qed

text \<open>An exception that ends the program is the callback's.\<close>

lemma syn_send_only_error:
  assumes "syn_send env cfg ks ws meas cb (s, u) wire = Inl e" "\<not> no_exit e"
  shows "\<exists>service u1 p q xs s1 s2 s3 u3 ws' wire' m.
    gen_service_time env cfg u = Inr (service, u1) \<and> write_commit (set_wmem s xs) 144 = Inr s1 \<and>
    write_cb_point s1 (Some ()) p = Inr s2 \<and>
    try_tx (syn_sent env) ws (s2, set_req (u1\<lparr>requests := q, ticks := Suc (ticks u1)\<rparr>) p
       (\<lambda>r. r\<lparr>start_ts := clk env (ticks u1)\<rparr>)) wire = Inr (s3, u3, ws', wire') \<and>
    (sock_read (syn_recv env) ks (s3, u3)
       \<lparr>hdrlen = 8, hdrcb = Some (), bodylen = 0, bodycb = None, rxdata = p\<rparr> = Inl e \<or>
     (\<exists>s4 u4 ks'. sock_read (syn_recv env) ks (s3, u3)
       \<lparr>hdrlen = 8, hdrcb = Some (), bodylen = 0, bodycb = None, rxdata = p\<rparr> = Inr (s4, u4, ks') \<and>
      call_request_cb env m (this_ref u4) 0 0 0 0 meas (gen.world u4) = Inl e))"
  using assms
  by (auto simp: syn_send_def rbind_eq_Inl rbind_eq_Inr Let_def read_clock_def simp del: upt_rec_numeral
      dest: exits try_tx_exits [OF sent_fails(1)] split: if_splits option.splits) blast+

lemma syn_send_only_ends:
  assumes "\<not> tx_rdy s" "\<not> rx_rdy s" "syn_send env cfg ks ws meas cb (s, u) wire = Inl e"
  shows "no_exit e \<or> (\<exists>k. request_cb env k (this_ref u) 0 0 0 0 meas (gen.world u) = Inl e)"
proof (cases "no_exit e")
  case False
  with syn_send_only_error [OF assms(3)] obtain service u1 p q xs s1 s2 s3 u3 ws' wire' m where st:
    "gen_service_time env cfg u = Inr (service, u1)" "write_commit (set_wmem s xs) 144 = Inr s1"
    "write_cb_point s1 (Some ()) p = Inr s2"
    "try_tx (syn_sent env) ws (s2, set_req (u1\<lparr>requests := q, ticks := Suc (ticks u1)\<rparr>) p
       (\<lambda>r. r\<lparr>start_ts := clk env (ticks u1)\<rparr>)) wire = Inr (s3, u3, ws', wire')"
    "sock_read (syn_recv env) ks (s3, u3)
       \<lparr>hdrlen = 8, hdrcb = Some (), bodylen = 0, bodycb = None, rxdata = p\<rparr> = Inl e \<or>
     (\<exists>s4 u4 ks'. sock_read (syn_recv env) ks (s3, u3)
       \<lparr>hdrlen = 8, hdrcb = Some (), bodylen = 0, bodycb = None, rxdata = p\<rparr> = Inr (s4, u4, ks') \<and>
      call_request_cb env m (this_ref u4) 0 0 0 0 meas (gen.world u4) = Inl e)" by blast
  have r: "\<not> tx_rdy s2" "\<not> rx_rdy s2"
    using write_frames(1) [OF st(2)] write_frames(2) [OF st(3)] assms(1,2) by simp_all
  have s3: "s3 = s2" "this_ref u3 = this_ref u" "gen.world u3 = gen.world u"
    using st(4) gen_service_time_frame [OF st(1)] by (auto simp: try_tx_not_ready [OF r(1)])
  from st(5) have "\<exists>m. call_request_cb env m (this_ref u) 0 0 0 0 meas (gen.world u) = Inl e"
    using False s3(2,3) by (auto simp: s3(1) sock_read_not_ready [OF r(2)] rbind_eq_Inl rbind_eq_Inr dest: exits)
  with False show ?thesis by (auto simp: call_request_cb_def no_exit_def split: option.splits)
qed simp

subsection \<open>No request is counted as sent\<close>

text \<open>A world in which nothing was sent and no generator exists.\<close>

definition bare :: "'g world \<Rightarrow> bool" where
  "bare w \<longleftrightarrow> gens w = (\<lambda>_. None) \<and> sent_count (cl w) = 0 \<and> rcvd_count (cl w) = 0"

text \<open>An exception that ends the program at most when a single request is scheduled.\<close>

definition early_end :: "client \<Rightarrow> exn \<Rightarrow> bool" where
  "early_end c e \<longleftrightarrow> no_exit e \<or> total_samples c \<le> 1"

lemma early_end_exits: "no_exit e \<Longrightarrow> early_end c e"
  by (simp add: early_end_def)

lemma record_first_ends:
  assumes "record_sample env cfg a q sv w n m c = Inl e" "rcvd_count c = 0"
  shows "early_end c e"
proof (cases "no_exit e")
  case False
  then obtain k out where e: "e = Exit k out" by (cases e) (auto simp: no_exit_def)
  have "recorded env cfg a (q, sv, w, n, m) c = Inl (Exit k out)" using assms(1) e by (simp add: recorded_def)
  from recorded_exit [OF this] assms(2) show ?thesis by (auto simp: early_end_def)
qed (rule early_end_exits)

text \<open>A new generator in this mode: its socket is not ready, and nothing is queued.\<close>

definition fresh :: "nat \<Rightarrow> generator \<Rightarrow> bool" where
  "fresh a g \<longleftrightarrow> (\<exists>s u. g = Syn_gen s u \<and> generator_inv a g \<and> \<not> tx_rdy s \<and> \<not> rx_rdy s \<and> used (rx_cbs s) = 0 \<and>
     length (buf (rx_cbs s)) = MAX_OUTSTANDING_REQS)"

lemma connect_ready: "sock_connect k s = Inr s' \<Longrightarrow> tx_rdy s' = tx_rdy s \<and> rx_rdy s' = rx_rdy s"
  by (auto simp: sock_connect_def rbind_eq_Inr Let_def split: if_splits)

lemma new_generator_fresh:
  assumes "protocol cfg = SYNTHETIC" "new_generator st cfg i a = Inr g"
  shows "fresh a g"
proof -
  from assms obtain s where s: "sock_connect (ia_connect i) (sock_new MAX_OUTSTANDING_REQS CHARBUF_SIZE a 0) = Inr s"
    "g = Syn_gen s (syn_new MAX_OUTSTANDING_REQS a a no_client)"
    by (auto simp: new_generator_def rbind_eq_Inr Let_def)
  show ?thesis
    using new_generator_law [OF assms(2)] connect_ready [OF s(1)] connect_frame [OF s(1)]
    by (simp add: fresh_def s(2) sock_new_def buffer_new_def)
qed

text \<open>After sending, its socket has a read to cancel.\<close>

lemma fresh_send:
  assumes "send_only cfg" "fresh a g" "generator_send st env cfg i m g c = Inr (n, g', c')"
  shows "record_sample env cfg a 0 0 0 0 m c = Inr c' \<and> generator_inv a g' \<and> \<not> nothing_to_cancel (generator_sock g')"
proof -
  from assms(2) obtain s u where g: "g = Syn_gen s u" "syn_inv (s, u\<lparr>world := c\<rparr>)" "this_ref u = a" "\<not> tx_rdy s" "\<not> rx_rdy s"
    "used (rx_cbs s) = 0" "length (buf (rx_cbs s)) = MAX_OUTSTANDING_REQS" by (auto simp: fresh_def)
  from assms(3) g obtain k s' u' ks ws wire where r: "syn_send (syn_env_of st env cfg a) cfg (ia_reads i) (ia_writes i) m (Some ())
      (s, u\<lparr>world := c\<rparr>) [] = Inr (k, s', u', ks, ws, wire)" "g' = Syn_gen s' u'" "c' = gen.world u'"
    by (auto simp: rbind_eq_Inr)
  have "used (rx_cbs s) < length (buf (rx_cbs s))" using g(6,7) limits_pos by simp
  from syn_send_only [OF g(2,4,5) assms(1) this r(1)] g(3) have o: "used (rx_cbs s') = 1"
    "length (buf (rx_cbs s')) = MAX_OUTSTANDING_REQS" "this_ref u' = a" "record_sample env cfg a 0 0 0 0 m c = Inr c'"
    using g(6,7) r(3) by (auto simp: syn_env_of_def)
  moreover have "syn_inv (s', u')" using syn_send_inv [OF g(2) r(1)] by simp
  ultimately show ?thesis using r(2) by (simp add: nothing_to_cancel_def MAX_OUTSTANDING_REQS_def)
qed

lemma fresh_send_ends:
  assumes "fresh a g" "generator_send st env cfg i m g c = Inl e" "rcvd_count c = 0"
  shows "early_end c e"
proof -
  from assms(1) obtain s u where g: "g = Syn_gen s u" "this_ref u = a" "\<not> tx_rdy s" "\<not> rx_rdy s" by (auto simp: fresh_def)
  with assms(2) have "syn_send (syn_env_of st env cfg a) cfg (ia_reads i) (ia_writes i) m (Some ()) (s, u\<lparr>world := c\<rparr>) [] = Inl e"
    by (simp add: rbind_eq_Inl split: prod.splits)
  from syn_send_only_ends [OF g(3,4) this] g(2) have "no_exit e \<or> record_sample env cfg a 0 0 0 0 m c = Inl e"
    by (auto simp: syn_env_of_def)
  then show ?thesis using record_first_ends [OF _ assms(3)] early_end_exits by blast
qed

text \<open>The call for the request, with one reference held by the client and one by the call.\<close>

definition referenced :: "nat \<Rightarrow> client \<Rightarrow> client" where
  "referenced a c = c\<lparr>refs := (refs c)(a := \<lparr>ref_cnt = 2, freed = False\<rparr>)\<rparr>"

lemma fresh_call:
  assumes "send_only cfg" "fresh a g" "gens w a = Some g" "refs (cl w) a = gen_new" "rcvd_count (cl w) = 0"
  shows "gen_call (generator_ops st env cfg) a (generator_send st env cfg i m) w =
      rbind (generator_send st env cfg i m g (referenced a (cl w))) (\<lambda>_. Inl dead_callback) \<and>
    (\<exists>e. gen_call (generator_ops st env cfg) a (generator_send st env cfg i m) w = Inl e \<and> early_end (cl w) e)"
proof -
  let ?c = "referenced a (cl w)"
  have get: "get_ref a (cl w) = Inr ?c" using assms(4) by (simp add: get_ref_def gen_get_def gen_new_def referenced_def)
  have t: "total_samples ?c = total_samples (cl w)" "rcvd_count ?c = 0" using assms(5) by (simp_all add: referenced_def)
  show ?thesis
  proof (cases "generator_send st env cfg i m g ?c")
    case (Inl e)
    with fresh_send_ends [OF assms(2) Inl t(2)] get assms(3) show ?thesis
      by (auto simp: gen_call_def early_end_def t(1))
  next
    case (Inr x)
    obtain n g' c' where x: "x = (n, g', c')" by (cases x)
    note f = fresh_send [OF assms(1,2) Inr [unfolded x]]
    then have "recorded env cfg a (0, 0, 0, 0, m) ?c = Inr c'" by (simp add: recorded_def)
    then obtain r where r: "gen_put (refs ?c a) = Inr r" "refs c' = (refs ?c)(a := r)" by (elim recorded_steps) blast
    then have "refs c' a = \<lparr>ref_cnt = 1, freed = False\<rparr>" by (auto simp: gen_put_def referenced_def)
    then have "put_gen (generator_ops st env cfg) a (w\<lparr>cl := c', gens := (gens w)(a \<mapsto> g')\<rparr>) = Inl dead_callback"
      using f delete_generator_eq [of a g']
      by (simp add: put_gen_def put_ref_def gen_put_def Let_def generator_ops_def)
    with get assms(3) Inr x show ?thesis by (auto simp: gen_call_def early_end_def)
  qed
qed

text \<open>A request: a connection is made for it and its generator sends. Unless one of these throws, the generator is then
  deleted, which calls back the destroyed object.\<close>

definition first_request :: "gen_setup \<Rightarrow> io_answers client_env \<Rightarrow> Config \<Rightarrow> generator world \<Rightarrow> generator world res" where
  "first_request st env cfg w =
     (let c = cl w; n = sent_count c;
          w1 = (if n = pre_samples c
                then w\<lparr>cl := c\<lparr>results := start_measurements (c_start env n) (results c)\<rparr>\<rparr> else w);
          meas = (pre_samples c \<le> n \<and> n < pre_samples c + measure_samples c) in
      rbind (new_connection env (generator_ops st env cfg) w1) (\<lambda>(a, v).
      rbind (generator_send st env cfg (c_input env n) meas (the (gens v a)) (referenced a (cl v))) (\<lambda>_.
      Inl dead_callback)))"

lemma bare_send:
  assumes "send_only cfg" "protocol cfg = SYNTHETIC" "conn_mode cfg = PER_REQUEST" "bare w"
  shows "send_request env cfg (generator_ops st env cfg) w = first_request st env cfg w \<and>
    (\<exists>e. send_request env cfg (generator_ops st env cfg) w = Inl e \<and> early_end (cl w) e)"
proof -
  let ?w = "if sent_count (cl w) = pre_samples (cl w)
     then w\<lparr>cl := (cl w)\<lparr>results := start_measurements (c_start env (sent_count (cl w))) (results (cl w))\<rparr>\<rparr> else w"
  have w: "total_samples (cl ?w) = total_samples (cl w)" "rcvd_count (cl ?w) = 0" using assms(4) by (simp_all add: bare_def)
  show ?thesis
  proof (cases "new_connection env (generator_ops st env cfg) ?w")
    case (Inl e)
    then have "no_exit e"
      by (auto simp: new_connection_def Let_def rbind_eq_Inl client_watch_def system_call_def dest!: run.new_end split: if_splits prod.splits)
    with Inl assms(3) show ?thesis
      by (simp add: send_request_def first_request_def get_connection_def Let_def early_end_exits)
  next
    case (Inr x)
    obtain a v where x: "x = (a, v)" by (cases x)
    with Inr obtain g where g: "new_generator st cfg (c_new env a) a = Inr g" "gens v a = Some g" "refs (cl v) a = gen_new"
      "rcvd_count (cl v) = rcvd_count (cl ?w)" "total_samples (cl v) = total_samples (cl ?w)"
      by (auto simp: new_connection_def Let_def rbind_eq_Inr generator_ops_def)
    let ?i = "c_input env (sent_count (cl w))"
    let ?m = "pre_samples (cl w) \<le> sent_count (cl w) \<and> sent_count (cl w) < pre_samples (cl w) + measure_samples (cl w)"
    let ?call = "gen_call (generator_ops st env cfg) a (generator_send st env cfg ?i ?m) v"
    from fresh_call [OF assms(1) new_generator_fresh [OF assms(2) g(1)] g(2,3), of st env ?i ?m] g(4,5) w
    obtain e where e: "?call = rbind (generator_send st env cfg ?i ?m g (referenced a (cl v))) (\<lambda>_. Inl dead_callback)"
      "?call = Inl e" "early_end (cl w) e" by (auto simp: early_end_def)
    have "send_request env cfg (generator_ops st env cfg) w = rbind ?call
        (\<lambda>(bytes, w). Inr (if ?m then w\<lparr>cl := (cl w)\<lparr>results := sent_bytes bytes (results (cl w))\<rparr>\<rparr> else w))"
      using Inr x assms(3) by (simp add: send_request_def get_connection_def Let_def generator_ops_def)
    then have "send_request env cfg (generator_ops st env cfg) w = Inl e" unfolding e(2) by simp
    moreover have "first_request st env cfg w = Inl e"
      using Inr x g(2) e(1,2)
      by (cases "generator_send st env cfg ?i ?m g (referenced a (cl v))") (auto simp: first_request_def Let_def)
    ultimately show ?thesis using e(3) by simp
  qed
qed


subsection \<open>The whole run\<close>

text \<open>What handling an event comes to, with \<open>N\<close> requests scheduled: the world stays bare, or the program fails.\<close>

definition stays :: "nat \<Rightarrow> 'g world res \<Rightarrow> bool" where
  "stays N r \<longleftrightarrow> (case r of Inl e \<Rightarrow> no_exit e \<or> N \<le> 1 | Inr w \<Rightarrow> bare w \<and> total_samples (cl w) = N)"

lemma stays_simps [simp]:
  "stays N (Inl e) \<longleftrightarrow> no_exit e \<or> N \<le> 1" "stays N (Inr w) \<longleftrightarrow> bare w \<and> total_samples (cl w) = N"
  by (simp_all add: stays_def)

definition settles :: "nat \<Rightarrow> 'g world res option \<Rightarrow> bool" where
  "settles N x \<longleftrightarrow> (\<exists>r. x = Some r \<and> stays N r)"

lemma settles_simps [simp]: "settles N (Some r) = stays N r"
  by (simp add: settles_def)

lemma settles_bind:
  assumes "settles N x" "\<And>w. bare w \<Longrightarrow> total_samples (cl w) = N \<Longrightarrow> settles N (f w)"
  shows "settles N (obind x f)"
proof -
  from assms(1) obtain r where "x = Some r" "stays N r" by (auto simp: settles_def)
  with assms(2) show ?thesis by (cases r) (simp_all add: obind_def)
qed

lemma bare_missed [simp]: "bare (count_missed late w) = bare w" "total_samples (cl (count_missed late w)) = total_samples (cl w)"
  by (simp_all add: bare_def count_missed_def)

lemma send_settles:
  assumes "send_only cfg" "protocol cfg = SYNTHETIC" "conn_mode cfg = PER_REQUEST" "bare w" "total_samples (cl w) = N"
  shows "settles N (case send_request env cfg (generator_ops st env cfg) (count_missed late w) of
    Inl e \<Rightarrow> Some (Inl e) | Inr w \<Rightarrow> f w)"
  using conjunct2 [OF bare_send [OF assms(1-3), of "count_missed late w" env st]] assms(4,5)
  by (auto simp: settles_def early_end_def)

lemma timer_settles:
  assumes "send_only cfg" "protocol cfg = SYNTHETIC" "conn_mode cfg = PER_REQUEST" "bare w" "total_samples (cl w) = N"
  shows "settles N (timer_handler env cfg (generator_ops st env cfg) now w)"
proof -
  have "stays N (arm_timer env d w)" for d
    using assms(4,5) run.due_ends(4) [of env d w] by (cases "arm_timer env d w") (auto simp: arm_timer_def rbind_eq_Inr bare_def)
  then have loop: "settles N (timer_loop env cfg (generator_ops st env cfg) t 0 w)" for t
  proof (cases "rbind (next_deadline (cl w)) (\<lambda>d. dur (d - t))")
    case (Inl e)
    then have "no_exit e" by (auto simp: rbind_eq_Inl dest: exits)
    with Inl show ?thesis by (subst timer_loop.simps) simp
  next
    case (Inr sleep)
    then show ?thesis
      using \<open>\<And>d. stays N (arm_timer env d w)\<close>
      by (subst timer_loop.simps) (auto intro!: send_settles [OF assms])
  qed
  then show ?thesis
    by (auto simp: timer_handler_def obind_def dest: exits split: sum.split)
qed

lemma busy_settles:
  assumes "send_only cfg" "protocol cfg = SYNTHETIC" "conn_mode cfg = PER_REQUEST" "bare w" "total_samples (cl w) = N"
  shows "settles N (busy_timer env cfg (generator_ops st env cfg) now w)"
proof -
  have "settles N (busy_loop env cfg (generator_ops st env cfg) now d w)" for d
    using assms(4,5) by (subst busy_loop.simps) (auto intro!: send_settles [OF assms(1-3)])
  then show ?thesis by (cases "busy_wait now (cl w)") (auto simp: busy_timer_def obind_def dest: exits)
qed

lemma event_settles:
  assumes "send_only cfg" "protocol cfg = SYNTHETIC" "conn_mode cfg = PER_REQUEST" "bare w" "total_samples (cl w) = N"
  shows "settles N (handle_event env cfg (generator_ops st env cfg) x w)"
proof (cases x)
  case (Timer_event now)
  then show ?thesis using timer_settles [OF assms] by (auto simp: settles_def)
next
  case (Socket_event a ev i)
  then show ?thesis using assms(4) by (simp add: settles_def gen_call_def bare_def)
qed

lemma events_settle:
  assumes "send_only cfg" "protocol cfg = SYNTHETIC" "conn_mode cfg = PER_REQUEST" "bare w" "total_samples (cl w) = N"
  shows "settles N (handle_events env cfg (generator_ops st env cfg) xs w)"
  using assms(4,5)
proof (induction xs arbitrary: w)
  case (Cons x xs)
  then show ?case
    using settles_bind [OF event_settles [OF assms(1-3) Cons.prems], where f = "handle_events env cfg (generator_ops st env cfg) xs"]
    by simp
qed (simp add: settles_def)

lemma run_settles:
  assumes "send_only cfg" "protocol cfg = SYNTHETIC" "conn_mode cfg = PER_REQUEST" "bare w" "total_samples (cl w) = N"
  shows "settles N (run_loop env cfg (generator_ops st env cfg) script w)"
  using assms(4,5)
proof (induction script arbitrary: w)
  case (Cons x xs)
  have "settles N (run_wakeup env cfg (generator_ops st env cfg) x w)"
  proof (cases x)
    case (Woken es now)
    have "settles N (if use_busy_timer cfg then busy_timer env cfg (generator_ops st env cfg) now v else Some (Inr v))"
      if "bare v" "total_samples (cl v) = N" for v
      using busy_settles [OF assms(1-3) that] that by (simp add: settles_def)
    then show ?thesis unfolding Woken run_wakeup.simps by (rule settles_bind [OF events_settle [OF assms(1-3) Cons.prems]])
  qed (simp add: settles_def)
  from settles_bind [OF this, where f = "run_loop env cfg (generator_ops st env cfg) xs"] Cons.IH show ?case by simp
qed (simp add: settles_def)

subsection \<open>Property\<close>

text \<open>C15: In send-only mode with one connection for each request no run of the synthetic client gets past its first request: every
  state that a run reaches has sent none, and the program exits with a summary only if at most one request was
  scheduled. The first request fails like this: a connection is made for it and its generator sends it and answers it; if none of
  these steps throws, the generator is deleted with the read for the response pending, which its socket cancels through the
  callback of the destroyed object.\<close>

theorem send_only_per_request_fails:
  assumes "send_only cfg" "protocol cfg = SYNTHETIC" "conn_mode cfg = PER_REQUEST" "client_new ep tm watch cfg = Inr c"
    and "setup_deadlines (c_rnd env) draw cfg = Some (Inr (ds, pre, meas, post))"
  shows "\<exists>r. client_run env cfg (generator_ops st env cfg) draw start now script c = Some r \<and>
    (\<forall>w. r = Inr w \<longrightarrow> sent_count (cl w) = 0 \<and> rcvd_count (cl w) = 0 \<and> gens w = (\<lambda>_. None) \<and>
      (\<forall>late. send_request env cfg (generator_ops st env cfg) (count_missed late w) =
        (case new_connection env (generator_ops st env cfg)
            (if pre_samples (cl w) = 0
             then (count_missed late w)\<lparr>cl := (cl (count_missed late w))
               \<lparr>results := start_measurements (c_start env 0) (results (cl w))\<rparr>\<rparr>
             else count_missed late w) of
           Inl e \<Rightarrow> Inl e
         | Inr (a, v) \<Rightarrow>
             (case generator_send st env cfg (c_input env 0) (pre_samples (cl w) = 0 \<and> 0 < measure_samples (cl w))
                 (the (gens v a)) ((cl v)\<lparr>refs := (refs (cl v))(a := \<lparr>ref_cnt = 2, freed = False\<rparr>)\<rparr>) of
                Inl e \<Rightarrow> Inl e
              | Inr _ \<Rightarrow> Inl (Undefined_behaviour ''callback of a destroyed generator''))))) \<and>
    (\<forall>n out. r = Inl (Exit n out) \<longrightarrow> length ds \<le> 1)"
proof -
  let ?w = "(world_new c)\<lparr>cl := c\<lparr>schedule := ds, pre_samples := pre, measure_samples := meas, post_samples := post,
     total_samples := length ds, exp_start_time := start\<rparr>\<rparr>"
  have "sent_count c = 0 \<and> rcvd_count c = 0"
    using assms(4) by (auto simp: client_new_def Let_def rbind_eq_Inr split: if_splits)
  then have w: "bare ?w" "total_samples (cl ?w) = length ds" by (simp_all add: bare_def world_new_def)
  have "setup_experiment env cfg (generator_ops st env cfg) draw start now (world_new c) =
      (if \<not> use_busy_timer cfg then timer_handler env cfg (generator_ops st env cfg) now ?w else Some (Inr ?w))"
    using assms(3,5) by (simp add: setup_experiment_def setup_connections_def obind_def world_new_def Let_def)
  then have "settles (length ds) (setup_experiment env cfg (generator_ops st env cfg) draw start now (world_new c))"
    using timer_settles [OF assms(1-3) w, of env st now] w by (cases "use_busy_timer cfg") simp_all
  then have "settles (length ds) (client_run env cfg (generator_ops st env cfg) draw start now script c)"
    unfolding client_run_def by (rule settles_bind) (rule run_settles [OF assms(1-3)])
  then obtain r where r: "client_run env cfg (generator_ops st env cfg) draw start now script c = Some r"
    "stays (length ds) r" by (auto simp: settles_def)
  show ?thesis
  proof (cases r)
    case (Inl e)
    with r show ?thesis by auto
  next
    case (Inr w)
    with r(2) have w: "bare w" by simp
    have "send_request env cfg (generator_ops st env cfg) (count_missed late w) = first_request st env cfg (count_missed late w)"
      for late using bare_send [OF assms(1-3)] w by simp
    with r Inr w show ?thesis
      by (auto simp: bare_def first_request_def referenced_def count_missed_def Let_def split: sum.split)
  qed
qed

definition so_cfg :: Config where
  "so_cfg = one_cfg\<lparr>send_only := True, nsamples := 2\<rparr>"

lemma so_schedule: "setup_deadlines (c_rnd one_env) (\<lambda>_. 1000) so_cfg = Some (Inr ([1000, 2000], 0, 2, 0))"
proof -
  have "fill_count (\<lambda>x. x) (\<lambda>_. 1000) (Suc (Suc 0)) 0 0 [] = Inr (2000, Suc (Suc 0), [1000, 2000])"
    by (simp add: ceil_ns_def to_uint64_def)
  note this [folded numeral_2_eq_2]
  then show ?thesis
    by (simp add: setup_deadlines_def obind_def fill_until.simps ceil_ns_def to_uint64_def seconds_def dur_def
        so_cfg_def one_cfg_def config_default_def one_env_def)
qed

text \<open>The first request is due, its generator sends and answers it.\<close>

definition so_client :: client where
  "so_client = one_client\<lparr>results := results_new 2\<rparr>"

lemma so_client_new: "client_new (4, 0) (5, 0) (0, 0) so_cfg = Inr so_client"
  by (simp add: client_new_def no_conn_range_def client_watch_def system_call_def so_client_def one_client_def so_cfg_def one_cfg_def
      config_default_def)

definition so_world :: "generator world" where
  "so_world = \<lparr>cl = so_client\<lparr>schedule := [1000, 2000], measure_samples := 2, total_samples := 2\<rparr>, gens = (\<lambda>_. None),
     created = 0, armed = Some 1000\<rparr>"

lemma so_start: "setup_experiment one_env so_cfg (generator_ops one_setup one_env so_cfg) (\<lambda>_. 1000) 0 0 (world_new so_client) =
    Some (Inr so_world)"
proof -
  have "conn_mode so_cfg = PER_REQUEST" "\<not> use_busy_timer so_cfg" by (simp_all add: so_cfg_def)
  with so_schedule show ?thesis
    by (simp add: setup_experiment_def obind_def setup_connections_def world_new_def Let_def
      timer_handler_def timer_loop.simps next_deadline_def dur_def arm_timer_def timer_arm_def system_call_def one_env_def
      so_world_def so_client_def one_client_def)
qed

lemma so_sent:
  assumes "2 \<le> N" "200 \<le> B" "record_sample env so_cfg 0 0 0 0 0 m c = Inr c'"
  shows "\<exists>r. syn_send (syn_env_of one_setup env so_cfg 0) so_cfg ks ws m (Some ())
      ((sock_new N B 0 0)\<lparr>fd := 3\<rparr>, (syn_new N 0 0 w)\<lparr>world := c\<rparr>) [] = Inr r"
  using assms
  by (simp add: syn_send_def gen_service_time_def so_cfg_def one_cfg_def config_default_def to_uint64_def Let_def syn_new_def sock_new_def
      one_buffer_defs write_prepare_def write_commit_def set_wmem_def read_clock_def set_req_def write_cb_point_def try_tx_def
      sock_read_def syn_env_of_def one_setup_def SynReq_def call_request_cb_def)

lemma so_sends:
  "\<exists>v r. new_connection one_env (generator_ops one_setup one_env so_cfg)
      (so_world\<lparr>cl := (cl so_world)\<lparr>results := start_measurements 1000 (results_new 2)\<rparr>\<rparr>) = Inr (0, v) \<and>
    generator_send one_setup one_env so_cfg no_io True (the (gens v 0))
      ((cl v)\<lparr>refs := (refs (cl v))(0 := \<lparr>ref_cnt = 2, freed = False\<rparr>)\<rparr>) = Inr r"
proof -
  let ?w = "so_world\<lparr>cl := (cl so_world)\<lparr>results := start_measurements 1000 (results_new 2)\<rparr>\<rparr>"
  let ?g = "Syn_gen ((sock_new one_N one_B 0 0)\<lparr>fd := 3\<rparr>) (syn_new one_N 0 0 no_client)"
  let ?v = "?w\<lparr>gens := [0 \<mapsto> ?g], created := 1, cl := (cl ?w)\<lparr>refs := (refs (cl ?w))(0 := gen_new)\<rparr>\<rparr>"
  let ?c = "(cl ?v)\<lparr>refs := (refs (cl ?v))(0 := \<lparr>ref_cnt = 2, freed = False\<rparr>)\<rparr>"
  have v: "new_connection one_env (generator_ops one_setup one_env so_cfg) ?w = Inr (0, ?v)"
    by (simp add: new_connection_def so_world_def generator_ops_def new_generator_def one_env_def one_connect client_watch_def
        system_call_def Let_def so_cfg_def)
  have "\<exists>c'. record_sample one_env so_cfg 0 0 0 0 0 True ?c = Inr c'"
    by (simp add: record_sample_def record_measured_def so_world_def so_client_def one_client_def Let_def put_ref_def gen_put_def)
  then obtain c' where "record_sample one_env so_cfg 0 0 0 0 0 True ?c = Inr c'" by blast
  from so_sent [OF one_sizes this, of "ia_reads no_io" "ia_writes no_io" no_client] obtain r where
    "syn_send (syn_env_of one_setup one_env so_cfg 0) so_cfg (ia_reads no_io) (ia_writes no_io) True (Some ())
      ((sock_new one_N one_B 0 0)\<lparr>fd := 3\<rparr>, (syn_new one_N 0 0 no_client)\<lparr>world := ?c\<rparr>) [] = Inr r" by blast
  then have "\<exists>r. generator_send one_setup one_env so_cfg no_io True ?g ?c = Inr r"
    by (cases r) (simp add: syn_new_def)
  with v show ?thesis by (intro exI [of _ ?v]) simp
qed

theorem send_only_per_request_fails_witness:
  "client_run one_env so_cfg (generator_ops one_setup one_env so_cfg) (\<lambda>_. 1000) 0 0 [Woken [Timer_event 1000] 0] so_client =
    Some (Inl (Undefined_behaviour ''callback of a destroyed generator''))"
proof -
  let ?ops = "generator_ops one_setup one_env so_cfg"
  have m: "send_only so_cfg" "protocol so_cfg = SYNTHETIC" "conn_mode so_cfg = PER_REQUEST" by (simp_all add: so_cfg_def)
  have start: "client_run one_env so_cfg ?ops (\<lambda>_. 1000) 0 0 [] so_client = Some (Inr so_world)"
    by (simp add: client_run_def so_start obind_def)
  obtain v r where vr: "new_connection one_env ?ops
      (so_world\<lparr>cl := (cl so_world)\<lparr>results := start_measurements 1000 (results_new 2)\<rparr>\<rparr>) = Inr (0, v)"
    "generator_send one_setup one_env so_cfg no_io True (the (gens v 0))
      ((cl v)\<lparr>refs := (refs (cl v))(0 := \<lparr>ref_cnt = 2, freed = False\<rparr>)\<rparr>) = Inr r" using so_sends by blast
  have w: "pre_samples (cl so_world) = 0" "0 < measure_samples (cl so_world)" "results (cl so_world) = results_new 2"
    by (simp_all add: so_world_def so_client_def one_client_def)
  have io: "c_input one_env 0 = no_io" "c_start one_env 0 = 1000" by (simp_all add: one_env_def)
  from send_only_per_request_fails [OF m so_client_new so_schedule, of one_setup 0 0 "[]"] start
  have "\<forall>late. send_request one_env so_cfg ?ops (count_missed late so_world) =
        (case new_connection one_env ?ops
            (if pre_samples (cl so_world) = 0
             then (count_missed late so_world)\<lparr>cl := (cl (count_missed late so_world))
               \<lparr>results := start_measurements (c_start one_env 0) (results (cl so_world))\<rparr>\<rparr>
             else count_missed late so_world) of
           Inl e \<Rightarrow> Inl e
         | Inr (a, v) \<Rightarrow>
             (case generator_send one_setup one_env so_cfg (c_input one_env 0)
                 (pre_samples (cl so_world) = 0 \<and> 0 < measure_samples (cl so_world))
                 (the (gens v a)) ((cl v)\<lparr>refs := (refs (cl v))(a := \<lparr>ref_cnt = 2, freed = False\<rparr>)\<rparr>) of
                Inl e \<Rightarrow> Inl e
              | Inr _ \<Rightarrow> Inl (Undefined_behaviour ''callback of a destroyed generator'')))" by simp
  from this [rule_format, of False] vr w io
  have "send_request one_env so_cfg ?ops (count_missed False so_world) = Inl dead_callback"
    by (simp add: count_missed_def)
  moreover have "\<not> use_busy_timer so_cfg" by (simp add: so_cfg_def)
  moreover have "schedule (cl so_world) = [1000, 2000]" "sent_count (cl so_world) = 0" "exp_start_time (cl so_world) = 0"
    "missed_threshold (cl so_world) = - 100000"
    by (simp_all add: so_world_def so_client_def one_client_def)
  ultimately have "handle_event one_env so_cfg ?ops (Timer_event 1000) so_world = Some (Inl dead_callback)"
    by (simp add: obind_def timer_handler_def timer_loop.simps [of _ _ _ _ 0] next_deadline_def dur_def)
  then show ?thesis by (simp add: client_run_def so_start obind_def del: handle_event.simps)
qed

end
