(* ===== verification/Sock_Vec.thy ===== *)
theory Sock_Vec
  imports Sock_Buf
begin

section \<open>The older socket over scatter-gather lists (client/socket_vec.hh, client/socket_vec.cc)\<close>

text \<open>
  A \<open>Sock\<close> that moves bytes directly between the kernel and the buffers of its user: pending segments are kept in two
  arrays, each \<open>readv\<close> or \<open>writev\<close> is offered all of them, and a segment's callback runs when it is full
  or written. The world of a socket holds the memory its segments point into, the answers the kernel will give and the
  bytes on the wire; a callback gets the whole world and may call the socket again.
\<close>

subsection \<open>State\<close>

record ('c, 'd) VIO =
  vbuf :: nat
  vlen :: nat
  cb_data :: 'd
  complete :: "'c option"

definition MAX_SGS :: nat where "MAX_SGS = 1024"

record ('c, 'd) VSock =
  v_ref :: int
  v_fd :: int
  v_connected :: bool
  v_rx_rdy :: bool
  v_tx_rdy :: bool
  rx_nrents :: nat
  tx_nrents :: nat
  rx_ents :: "('c, 'd) VIO list"
  tx_ents :: "('c, 'd) VIO list"
  v_freed :: bool

record ('c, 'd, 'u) vworld =
  vsock :: "('c, 'd) VSock"
  vmem :: "nat \<Rightarrow> byte"
  vreads :: "rd_result list"
  vwrites :: "wr_result list"
  vwire :: "byte list"
  vuser :: 'u

type_synonym ('c, 'd, 'u) vhandler = "'c \<Rightarrow> 'd \<Rightarrow> int \<Rightarrow> ('c, 'd, 'u) vworld \<Rightarrow> ('c, 'd, 'u) vworld res"

definition VIO_default :: "'d \<Rightarrow> ('c, 'd) VIO" where
  "VIO_default null = \<lparr>vbuf = 0, vlen = 0, cb_data = null, complete = None\<rparr>"

definition vec_new :: "'d \<Rightarrow> ('c, 'd) VSock" where
  "vec_new null =
     \<lparr>v_ref = 1, v_fd = -1, v_connected = False, v_rx_rdy = False, v_tx_rdy = False, rx_nrents = 0, tx_nrents = 0,
      rx_ents = replicate MAX_SGS (VIO_default null), tx_ents = replicate MAX_SGS (VIO_default null), v_freed = False\<rparr>"

text \<open>The code has each loop twice, once for each direction.\<close>

datatype side = RX | TX

fun nrents :: "side \<Rightarrow> ('c, 'd) VSock \<Rightarrow> nat" where
  "nrents RX s = rx_nrents s"
| "nrents TX s = tx_nrents s"

fun ents :: "side \<Rightarrow> ('c, 'd) VSock \<Rightarrow> ('c, 'd) VIO list" where
  "ents RX s = rx_ents s"
| "ents TX s = tx_ents s"

fun set_ents :: "side \<Rightarrow> nat \<Rightarrow> ('c, 'd) VIO list \<Rightarrow> ('c, 'd) VSock \<Rightarrow> ('c, 'd) VSock" where
  "set_ents RX n es s = s\<lparr>rx_nrents := n, rx_ents := es\<rparr>"
| "set_ents TX n es s = s\<lparr>tx_nrents := n, tx_ents := es\<rparr>"

subsection \<open>References and the destructor\<close>

abbreviation vec_dead :: exn where
  "vec_dead \<equiv> Undefined_behaviour ''use of a deleted socket''"

abbreviation vec_outside :: exn where
  "vec_outside \<equiv> Undefined_behaviour ''array index out of range''"

definition vec_complete :: "('c, 'd, 'u) vhandler \<Rightarrow> int \<Rightarrow> ('c, 'd) VIO \<Rightarrow> ('c, 'd, 'u) vworld \<Rightarrow> ('c, 'd, 'u) vworld res" where
  "vec_complete h st e w = (case complete e of None \<Rightarrow> Inr w | Some cb \<Rightarrow> h cb (cb_data e) st w)"

text \<open>The loops look at the number of segments before each turn: a callback may change it.\<close>

function vec_cancel :: "side \<Rightarrow> ('c, 'd, 'u) vhandler \<Rightarrow> nat \<Rightarrow> ('c, 'd, 'u) vworld \<Rightarrow> ('c, 'd, 'u) vworld res" where
  "vec_cancel d h i w =
     (if i < nrents d (vsock w) then
        if MAX_SGS \<le> i then Inl vec_outside
        else rbind (vec_complete h (- EIO) (ents d (vsock w) ! i) w) (vec_cancel d h (Suc i))
      else Inr w)"
  by pat_completeness auto
termination by (relation "measure (\<lambda>(d, h, i, w). MAX_SGS - i)") auto

definition vec_destroy :: "('c, 'd, 'u) vhandler \<Rightarrow> ('c, 'd, 'u) vworld \<Rightarrow> ('c, 'd, 'u) vworld res" where
  "vec_destroy h w =
     rbind (vec_cancel RX h 0 w) (\<lambda>w.
     rbind (vec_cancel TX h 0 w) (\<lambda>w.
     Inr (w\<lparr>vsock := (vsock w)\<lparr>v_fd := -1, v_connected := False, v_rx_rdy := False, v_tx_rdy := False,
                              rx_nrents := 0, tx_nrents := 0\<rparr>\<rparr>)))"

definition vec_get :: "('c, 'd, 'u) vworld \<Rightarrow> ('c, 'd, 'u) vworld res" where
  "vec_get w =
     (if v_freed (vsock w) then Inl vec_dead
      else Inr (w\<lparr>vsock := (vsock w)\<lparr>v_ref := v_ref (vsock w) + 1\<rparr>\<rparr>))"

definition vec_put :: "('c, 'd, 'u) vhandler \<Rightarrow> ('c, 'd, 'u) vworld \<Rightarrow> ('c, 'd, 'u) vworld res" where
  "vec_put h w0 =
     (if v_freed (vsock w0) then Inl vec_dead
      else let w = w0\<lparr>vsock := (vsock w0)\<lparr>v_ref := v_ref (vsock w0) - 1\<rparr>\<rparr> in
        if v_ref (vsock w) = 0
        then rbind (vec_destroy h w) (\<lambda>w. Inr (w\<lparr>vsock := (vsock w)\<lparr>v_freed := True\<rparr>\<rparr>))
        else if v_ref (vsock w) < 0 then Inl (Runtime_error ''sock::put refcnt < 0'')
        else Inr w)"

subsection \<open>Connecting\<close>

definition vec_connect :: "connect_env \<Rightarrow> ('c, 'd) VSock \<Rightarrow> ('c, 'd) VSock res" where
  "vec_connect k s =
     rbind (system_call (fst (sys_socket k)) (snd (sys_socket k)) ''Sock::connect: socket()'') (\<lambda>f.
     rbind (system_call (fst (sys_getfl k)) (snd (sys_getfl k)) ''Sock::connect: fcntl(F_GETFL)'') (\<lambda>_.
     rbind (system_call (fst (sys_setfl k)) (snd (sys_setfl k)) ''Sock::connect: fcntl(F_SETFL)'') (\<lambda>_.
     if fst (sys_connect k) = -1 \<and> snd (sys_connect k) \<noteq> EINPROGRESS
     then Inl (System_error (snd (sys_connect k)) ''Sock::connect: connect()'')
     else
       rbind (system_call (fst (sys_nodelay k)) (snd (sys_nodelay k)) ''Sock::connect: setsockopt(TCP_NODELAY)'') (\<lambda>_.
       Inr (s\<lparr>v_fd := f\<rparr>)))))"

subsection \<open>Receiving and sending\<close>

text \<open>The addresses a list of segments covers, in order; \<open>readv\<close> fills the first of them, \<open>writev\<close> reads them.\<close>

definition vaddrs :: "('c, 'd) VIO list \<Rightarrow> nat list" where
  "vaddrs es = concat (map (\<lambda>e. [vbuf e..<vbuf e + vlen e]) es)"

fun vfill :: "nat list \<Rightarrow> byte list \<Rightarrow> (nat \<Rightarrow> byte) \<Rightarrow> nat \<Rightarrow> byte" where
  "vfill (a # as) (b # bs) m = vfill as bs (m(a := b))"
| "vfill as bs m = m"

text \<open>\<open>ssize_t\<close> converted to \<open>size_t\<close>\<close>

definition to_size :: "int \<Rightarrow> nat" where
  "to_size n = nat (n mod 2 ^ 64)"

text \<open>The segment at \<open>i\<close> is only partly done: it loses its first \<open>n\<close> bytes and moves to the front with those after it.\<close>

definition vec_partial :: "side \<Rightarrow> nat \<Rightarrow> int \<Rightarrow> ('c, 'd) VSock \<Rightarrow> ('c, 'd) VSock" where
  "vec_partial d i n s =
     (let e = ents d s ! i;
          es = (ents d s)[i := e\<lparr>vlen := vlen e - to_size n, vbuf := vbuf e + to_size n\<rparr>];
          k = nrents d s - i
      in set_ents d k (blit es 0 (slice es i k)) s)"

function vec_done :: "side \<Rightarrow> ('c, 'd, 'u) vhandler \<Rightarrow> nat \<Rightarrow> int \<Rightarrow> ('c, 'd, 'u) vworld \<Rightarrow> ('c, 'd, 'u) vworld res" where
  "vec_done d h i ret w =
     (if v_freed (vsock w) then Inl vec_dead
      else if i < nrents d (vsock w) then
        if MAX_SGS \<le> i then Inl vec_outside
        else if to_size ret < vlen (ents d (vsock w) ! i)
        then vec_put h (w\<lparr>vsock := vec_partial d i ret (vsock w)\<rparr>)
        else
          rbind (vec_complete h 0 (ents d (vsock w) ! i) w) (\<lambda>w.
          vec_done d h (Suc i) (ret - int (vlen (ents d (vsock w) ! i))) w)
      else if ret \<noteq> 0 then
        Inl (Runtime_error (case d of RX \<Rightarrow> ''Sock::rx: readv returned more bytes than asked''
                              | TX \<Rightarrow> ''Sock::tx: writev returned more bytes than asked''))
      else vec_put h (w\<lparr>vsock := set_ents d 0 (ents d (vsock w)) (vsock w)\<rparr>))"
  by pat_completeness auto
termination by (relation "measure (\<lambda>(d, h, i, ret, w). MAX_SGS - i)") auto

definition vpend :: "side \<Rightarrow> ('c, 'd) VSock \<Rightarrow> ('c, 'd) VIO list" where
  "vpend d s = take (nrents d s) (ents d s)"

definition vec_rx :: "('c, 'd, 'u) vhandler \<Rightarrow> ('c, 'd, 'u) vworld \<Rightarrow> ('c, 'd, 'u) vworld res" where
  "vec_rx h w =
     (let s = vsock w; iov = vpend RX s in
      if rx_nrents s = 0 then Inr w
      else case vreads w of
        [] \<Rightarrow> Inr (w\<lparr>vsock := s\<lparr>v_rx_rdy := False\<rparr>\<rparr>)
      | RdRet r errno # ks \<Rightarrow>
          if r = None \<and> errno = EAGAIN then Inr (w\<lparr>vreads := ks, vsock := s\<lparr>v_rx_rdy := False\<rparr>\<rparr>)
          else case r of
            None \<Rightarrow> Inl (System_error errno ''Sock::rx: readv error'')
          | Some bs \<Rightarrow>
              if bs = [] then Inl (System_error errno ''Sock::rx: readv error'')
              else rbind (vec_get (w\<lparr>vreads := ks, vmem := vfill (vaddrs iov) bs (vmem w)\<rparr>))
                     (vec_done RX h 0 (int (length bs))))"

definition vec_read :: "('c, 'd, 'u) vhandler \<Rightarrow> ('c, 'd) VIO \<Rightarrow> ('c, 'd, 'u) vworld \<Rightarrow> ('c, 'd, 'u) vworld res" where
  "vec_read h e w =
     (let s = vsock w in
      if v_freed s then Inl vec_dead
      else if MAX_SGS \<le> rx_nrents s then Inl (System_error ENOSPC ''Sock::read: too many segments'')
      else let w = w\<lparr>vsock := s\<lparr>rx_ents := (rx_ents s)[rx_nrents s := e], rx_nrents := rx_nrents s + 1\<rparr>\<rparr> in
        if v_rx_rdy s then vec_rx h w else Inr w)"

definition vec_tx :: "('c, 'd, 'u) vhandler \<Rightarrow> ('c, 'd, 'u) vworld \<Rightarrow> ('c, 'd, 'u) vworld res" where
  "vec_tx h w =
     (let s = vsock w; iov = vpend TX s in
      if tx_nrents s = 0 then Inr w
      else case vwrites w of
        [] \<Rightarrow> Inr (w\<lparr>vsock := s\<lparr>v_tx_rdy := False\<rparr>\<rparr>)
      | WrRet r errno # ws \<Rightarrow>
          (case r of
             None \<Rightarrow>
               if errno = EAGAIN then Inr (w\<lparr>vwrites := ws, vsock := s\<lparr>v_tx_rdy := False\<rparr>\<rparr>)
               else Inl (System_error errno ''Sock::tx: writev error'')
           | Some nbytes \<Rightarrow>
               rbind (vec_get (w\<lparr>vwrites := ws, vwire := vwire w @ map (vmem w) (take nbytes (vaddrs iov))\<rparr>))
                 (vec_done TX h 0 (int nbytes))))"

definition vec_write :: "('c, 'd, 'u) vhandler \<Rightarrow> ('c, 'd) VIO \<Rightarrow> ('c, 'd, 'u) vworld \<Rightarrow> ('c, 'd, 'u) vworld res" where
  "vec_write h e w =
     (let s = vsock w in
      if v_freed s then Inl vec_dead
      else if MAX_SGS \<le> tx_nrents s then Inl (System_error ENOSPC ''Sock::write: too many segments'')
      else let w = w\<lparr>vsock := s\<lparr>tx_ents := (tx_ents s)[tx_nrents s := e], tx_nrents := tx_nrents s + 1\<rparr>\<rparr> in
        if v_tx_rdy s then vec_tx h w else Inr w)"

definition vec_check_connected :: "int \<times> int \<times> int \<Rightarrow> unit res" where
  "vec_check_connected = (\<lambda>(status, errno, valopt).
     if status \<noteq> 0 then Inl (System_error errno ''Sock::__socket_get_connect_error: getsockopt()'')
     else if valopt \<noteq> 0 then Inl (System_error valopt ''Sock::run_io: socket failed to connect'')
     else Inr ())"

definition vec_run_io :: "('c, 'd, 'u) vhandler \<Rightarrow> int \<times> int \<times> int \<Rightarrow> 32 word \<Rightarrow> ('c, 'd, 'u) vworld \<Rightarrow>
    ('c, 'd, 'u) vworld res" where
  "vec_run_io h so_error events w =
     rbind (vec_get w) (\<lambda>w.
     rbind (if and events EPOLLIN \<noteq> 0 then vec_rx h (w\<lparr>vsock := (vsock w)\<lparr>v_rx_rdy := True\<rparr>\<rparr>) else Inr w) (\<lambda>w.
     rbind
       (if and events EPOLLOUT \<noteq> 0 then
          rbind (if \<not> v_connected (vsock w)
                 then rbind (vec_check_connected so_error) (\<lambda>_. Inr (w\<lparr>vsock := (vsock w)\<lparr>v_connected := True\<rparr>\<rparr>))
                 else Inr w) (\<lambda>w.
          vec_tx h (w\<lparr>vsock := (vsock w)\<lparr>v_tx_rdy := True\<rparr>\<rparr>))
        else Inr w) (vec_put h)))"

declare vec_cancel.simps [simp del] vec_done.simps [simp del]

subsection \<open>Selecting a direction\<close>

lemma side_simps [simp]:
  "nrents d (set_ents d n es s) = n" "ents d (set_ents d n es s) = es"
  "d \<noteq> d' \<Longrightarrow> nrents d' (set_ents d n es s) = nrents d' s" "d \<noteq> d' \<Longrightarrow> ents d' (set_ents d n es s) = ents d' s"
  "v_ref (set_ents d n es s) = v_ref s" "v_freed (set_ents d n es s) = v_freed s" "v_fd (set_ents d n es s) = v_fd s"
  "v_connected (set_ents d n es s) = v_connected s" "v_rx_rdy (set_ents d n es s) = v_rx_rdy s"
  "v_tx_rdy (set_ents d n es s) = v_tx_rdy s"
  by (cases d; cases d'; simp)+

lemma side_ref [simp]: "nrents d (s\<lparr>v_ref := r\<rparr>) = nrents d s" "ents d (s\<lparr>v_ref := r\<rparr>) = ents d s"
  "vpend d (s\<lparr>v_ref := r\<rparr>) = vpend d s"
  by (cases d; simp add: vpend_def)+

lemma side_rdy [simp]: "nrents d (s\<lparr>v_tx_rdy := b\<rparr>) = nrents d s" "ents d (s\<lparr>v_tx_rdy := b\<rparr>) = ents d s"
  "vpend d (s\<lparr>v_tx_rdy := b\<rparr>) = vpend d s"
  by (cases d; simp add: vpend_def)+

definition vec_sized :: "('c, 'd) VSock \<Rightarrow> bool" where
  "vec_sized s \<longleftrightarrow> (\<forall>d. nrents d s \<le> MAX_SGS \<and> length (ents d s) = MAX_SGS)"

definition vec_ok :: "('c, 'd) VSock \<Rightarrow> bool" where
  "vec_ok s \<longleftrightarrow> \<not> v_freed s \<and> 0 < v_ref s \<and>
     (\<forall>d. nrents d s \<le> MAX_SGS \<and> length (ents d s) = MAX_SGS)"

lemma vec_ok_iff:
  "vec_ok s \<longleftrightarrow> \<not> v_freed s \<and> 0 < v_ref s \<and> rx_nrents s \<le> MAX_SGS \<and> length (rx_ents s) = MAX_SGS \<and>
     tx_nrents s \<le> MAX_SGS \<and> length (tx_ents s) = MAX_SGS"
proof -
  have all: "(\<forall>d. P d) \<longleftrightarrow> P RX \<and> P TX" for P by (metis side.exhaust)
  show ?thesis unfolding vec_ok_def all by auto
qed

lemma one_pending:
  assumes "vec_ok s" "vpend RX s = [e]"
  shows "rx_nrents s = 1" "rx_ents s ! 0 = e"
proof -
  have "length (vpend RX s) = rx_nrents s" using assms(1) by (simp add: vpend_def vec_ok_iff)
  with assms(2) show 1: "rx_nrents s = 1" by simp
  show "rx_ents s ! 0 = e" using assms 1 by (cases "rx_ents s") (simp_all add: vpend_def)
qed

text \<open>What finishing segments of one direction leaves alone.\<close>

definition vec_same :: "side \<Rightarrow> ('c, 'd) VSock \<Rightarrow> ('c, 'd) VSock \<Rightarrow> bool" where
  "vec_same d s t \<longleftrightarrow> v_fd t = v_fd s \<and> v_connected t = v_connected s \<and> v_rx_rdy t = v_rx_rdy s \<and>
     v_tx_rdy t = v_tx_rdy s \<and> (\<forall>d'. d' \<noteq> d \<longrightarrow> vpend d' t = vpend d' s)"

subsection \<open>Segments and their bytes\<close>

definition seg_total :: "('c, 'd) VIO list \<Rightarrow> nat" where
  "seg_total es = sum_list (map vlen es)"

text \<open>The number of segments that \<open>n\<close> bytes finish, and what is left of the list.\<close>

fun finished :: "nat \<Rightarrow> ('c, 'd) VIO list \<Rightarrow> nat" where
  "finished n [] = 0"
| "finished n (e # es) = (if n < vlen e then 0 else Suc (finished (n - vlen e) es))"

fun left_over :: "nat \<Rightarrow> ('c, 'd) VIO list \<Rightarrow> ('c, 'd) VIO list" where
  "left_over n [] = []"
| "left_over n (e # es) = (if n < vlen e then e\<lparr>vlen := vlen e - n, vbuf := vbuf e + n\<rparr> # es else left_over (n - vlen e) es)"

lemma seg_total_simps [simp]: "seg_total [] = 0" "seg_total (e # es) = vlen e + seg_total es"
  by (simp_all add: seg_total_def)

lemma length_vaddrs: "length (vaddrs es) = seg_total es"
  by (induction es) (simp_all add: vaddrs_def)

lemma vaddrs_Cons: "vaddrs (e # es) = [vbuf e..<vbuf e + vlen e] @ vaddrs es"
  by (simp add: vaddrs_def)

lemma vaddrs_left_over: "n \<le> seg_total es \<Longrightarrow> vaddrs (left_over n es) = drop n (vaddrs es)"
proof (induction es arbitrary: n)
  case (Cons e es)
  then show ?case by (auto simp: vaddrs_Cons drop_upt)
qed simp

lemma finished_max:
  "finished n es \<le> length es \<and> seg_total (take (finished n es) es) \<le> n \<and>
    (finished n es < length es \<longrightarrow> n < seg_total (take (Suc (finished n es)) es))"
proof (induction es arbitrary: n)
  case (Cons e es)
  from Cons [of "n - vlen e"] show ?case by auto
qed simp

lemma vfill_other: "a \<notin> set (take (length bs) as) \<Longrightarrow> vfill as bs m a = m a"
  by (induction as bs m rule: vfill.induct) auto

lemma vfill_all: "distinct as \<Longrightarrow> length bs \<le> length as \<Longrightarrow> map (vfill as bs m) (take (length bs) as) = bs"
proof (induction as bs m rule: vfill.induct)
  case (1 a as b bs m)
  have "a \<notin> set (take (length bs) as)" using 1(2) by (auto dest: in_set_takeD)
  with 1 show ?case by (simp add: vfill_other del: fun_upd_apply) simp
qed simp_all

subsection \<open>Callbacks that leave the socket alone\<close>

definition user_handler :: "('c \<Rightarrow> 'd \<Rightarrow> int \<Rightarrow> 'u \<Rightarrow> 'u res) \<Rightarrow> ('c, 'd, 'u) vhandler" where
  "user_handler f c d st w = rbind (f c d st (vuser w)) (\<lambda>u. Inr (w\<lparr>vuser := u\<rparr>))"

fun run_all :: "int \<Rightarrow> ('c \<Rightarrow> 'd \<Rightarrow> int \<Rightarrow> 'u \<Rightarrow> 'u res) \<Rightarrow> ('c, 'd) VIO list \<Rightarrow> 'u \<Rightarrow> 'u res" where
  "run_all st f [] u = Inr u"
| "run_all st f (e # es) u =
     rbind (case complete e of None \<Rightarrow> Inr u | Some cb \<Rightarrow> f cb (cb_data e) st u) (run_all st f es)"

lemma complete_user:
  "vec_complete (user_handler f) st e w =
    rbind (case complete e of None \<Rightarrow> Inr (vuser w) | Some cb \<Rightarrow> f cb (cb_data e) st (vuser w)) (\<lambda>u. Inr (w\<lparr>vuser := u\<rparr>))"
  by (auto simp: vec_complete_def user_handler_def split: option.splits)

lemma drop_pending:
  assumes "vec_sized s" "i < nrents d s"
  shows "drop i (vpend d s) = ents d s ! i # drop (Suc i) (vpend d s)" "i < MAX_SGS"
proof -
  have "nrents d s \<le> MAX_SGS" "length (ents d s) = MAX_SGS" using assms(1) by (simp_all add: vec_sized_def)
  with assms(2) show "drop i (vpend d s) = ents d s ! i # drop (Suc i) (vpend d s)" "i < MAX_SGS"
    using Cons_nth_drop_Suc [of i "vpend d s"] by (simp_all add: vpend_def)
qed

text \<open>The destructor calls back for everything that is pending.\<close>

lemma vec_cancel_user:
  assumes "vec_sized (vsock w)" "i \<le> nrents d (vsock w)"
  shows "vec_cancel d (user_handler f) i w =
    rbind (run_all (- EIO) f (drop i (vpend d (vsock w))) (vuser w)) (\<lambda>u. Inr (w\<lparr>vuser := u\<rparr>))"
  using assms
proof (induction "nrents d (vsock w) - i" arbitrary: i w)
  case 0
  then show ?case by (simp add: vec_cancel.simps vpend_def)
next
  case (Suc m)
  then have i: "i < nrents d (vsock w)" "m = nrents d (vsock w) - Suc i" "Suc i \<le> nrents d (vsock w)" by simp_all
  have step: "vec_cancel d (user_handler f) (Suc i) (w\<lparr>vuser := u\<rparr>) =
      rbind (run_all (- EIO) f (drop (Suc i) (vpend d (vsock w))) u) (\<lambda>u. Inr (w\<lparr>vuser := u\<rparr>))" for u
    using Suc(1) [of "w\<lparr>vuser := u\<rparr>" "Suc i"] i(2,3) Suc(3) by simp
  show ?case
    using i(1) drop_pending [OF Suc(3) i(1)]
    by (subst vec_cancel.simps) (simp add: complete_user rbind_assoc step)
qed

lemma to_size_int: "n < 2 ^ 64 \<Longrightarrow> to_size (int n) = n"
  by (simp add: to_size_def)

lemma put_live: "\<not> v_freed (vsock w) \<Longrightarrow> 2 \<le> v_ref (vsock w) \<Longrightarrow>
    vec_put h w = Inr (w\<lparr>vsock := (vsock w)\<lparr>v_ref := v_ref (vsock w) - 1\<rparr>\<rparr>)"
  by (simp add: vec_put_def Let_def)

lemma set_ents_ok:
  assumes "vec_ok s" "n \<le> MAX_SGS" "length es = MAX_SGS"
  shows "vec_ok (set_ents d n es s)"
  unfolding vec_ok_def
proof (intro conjI allI)
  fix d'
  have "nrents d' s \<le> MAX_SGS \<and> length (ents d' s) = MAX_SGS" using assms(1) by (simp add: vec_ok_def)
  then show "nrents d' (set_ents d n es s) \<le> MAX_SGS" "length (ents d' (set_ents d n es s)) = MAX_SGS"
    using assms(2,3) by (cases "d' = d"; simp)+
qed (use assms(1) in \<open>simp_all add: vec_ok_def\<close>)

lemma partial_pend:
  assumes "vec_ok s" "i < nrents d s" "n < vlen (ents d s ! i)" "n < 2 ^ 64"
  shows "vpend d (vec_partial d i (int n) s) = left_over n (drop i (vpend d s))" "vec_ok (vec_partial d i (int n) s)"
    "vec_same d s (vec_partial d i (int n) s)" "v_ref (vec_partial d i (int n) s) = v_ref s"
proof -
  let ?e = "ents d s ! i" and ?es = "ents d s" and ?k = "nrents d s - i"
  let ?e' = "?e\<lparr>vlen := vlen ?e - n, vbuf := vbuf ?e + n\<rparr>"
  have l: "nrents d s \<le> MAX_SGS" "length ?es = MAX_SGS" using assms(1) by (auto simp: vec_ok_def)
  have p: "vec_partial d i (int n) s = set_ents d ?k (blit (?es[i := ?e']) 0 (slice (?es[i := ?e']) i ?k)) s"
    by (simp add: vec_partial_def Let_def to_size_int [OF assms(4)])
  have i: "i < length ?es" using assms(2) l by simp
  have ds: "drop i ?es = ?e # drop (Suc i) ?es" using Cons_nth_drop_Suc [OF i] by simp
  have du: "drop i (?es[i := ?e']) = ?e' # drop (Suc i) ?es"
    using Cons_nth_drop_Suc [of i "?es[i := ?e']"] i by simp
  have k: "?k = Suc (?k - 1)" using assms(2) by simp
  have "drop i (vpend d s) = take ?k (drop i ?es)" by (simp add: vpend_def drop_take)
  also have "\<dots> = ?e # take (?k - 1) (drop (Suc i) ?es)" unfolding ds by (subst k) simp
  finally have "left_over n (drop i (vpend d s)) = ?e' # take (?k - 1) (drop (Suc i) ?es)" using assms(3) by simp
  moreover have "slice (?es[i := ?e']) i ?k = ?e' # take (?k - 1) (drop (Suc i) ?es)"
    unfolding slice_def du by (subst k) simp
  moreover have "vpend d (vec_partial d i (int n) s) = slice (?es[i := ?e']) i ?k"
    using assms(2) l by (simp add: p vpend_def blit_def)
  ultimately show "vpend d (vec_partial d i (int n) s) = left_over n (drop i (vpend d s))" by simp
  show "vec_ok (vec_partial d i (int n) s)"
    unfolding p by (rule set_ents_ok [OF assms(1)]) (use l in simp_all)
  show "vec_same d s (vec_partial d i (int n) s)" by (simp add: p vec_same_def vpend_def)
  show "v_ref (vec_partial d i (int n) s) = v_ref s" by (simp add: p)
qed

text \<open>Finishing segments: their callbacks run in order, and what is left of the list stays pending.\<close>

lemma vec_done_user:
  assumes "n < 2 ^ 64" "vec_ok s" "2 \<le> v_ref s" "i \<le> nrents d s" "n \<le> seg_total (drop i (vpend d s))"
  shows "\<exists>s'. vec_ok s' \<and> vpend d s' = left_over n (drop i (vpend d s)) \<and> vec_same d s s' \<and> v_ref s' = v_ref s - 1 \<and>
    (\<forall>w. vsock w = s \<longrightarrow> vec_done d (user_handler f) i (int n) w =
      rbind (run_all 0 f (take (finished n (drop i (vpend d s))) (drop i (vpend d s))) (vuser w))
        (\<lambda>u. Inr (w\<lparr>vsock := s', vuser := u\<rparr>)))"
  using assms
proof (induction "nrents d s - i" arbitrary: i n)
  case 0
  then have i: "i = nrents d s" "drop i (vpend d s) = []" "n = 0" by (simp_all add: vpend_def)
  let ?t = "set_ents d 0 (ents d s) s"
  let ?s = "?t\<lparr>v_ref := v_ref s - 1\<rparr>"
  have "vec_ok ?t" using 0(3) by (intro set_ents_ok) (simp_all add: vec_ok_def)
  then have "vec_ok ?s" using 0(4) by (simp add: vec_ok_def)
  moreover have "vec_same d s ?s" by (simp add: vec_same_def) (simp add: vpend_def)
  moreover have "vec_done d (user_handler f) i (int n) w = Inr (w\<lparr>vsock := ?s\<rparr>)" if "vsock w = s" for w
    using that 0(3,4) i(1,3) put_live [of "w\<lparr>vsock := ?t\<rparr>"] by (simp add: vec_done.simps vec_ok_def)
  ultimately show ?case using i by (intro exI [of _ ?s]) (simp add: vpend_def)
next
  case (Suc m)
  let ?e = "ents d s ! i" and ?ps = "drop (Suc i) (vpend d s)"
  have i: "i < nrents d s" "i < MAX_SGS" "length (ents d s) = MAX_SGS" "nrents d s \<le> MAX_SGS" "\<not> v_freed s"
  proof -
    show "i < nrents d s" "\<not> v_freed s" "nrents d s \<le> MAX_SGS" "length (ents d s) = MAX_SGS"
      using Suc(2,4) by (simp_all add: vec_ok_def)
    then show "i < MAX_SGS" by linarith
  qed
  then have ps: "drop i (vpend d s) = ?e # ?ps"
    using Cons_nth_drop_Suc [of i "vpend d s"] by (simp add: vpend_def)
  have step: "vec_done d (user_handler f) i (int n) w =
      (if n < vlen ?e then vec_put (user_handler f) (w\<lparr>vsock := vec_partial d i (int n) s\<rparr>)
       else rbind (vec_complete (user_handler f) 0 ?e w) (\<lambda>w.
         vec_done d (user_handler f) (Suc i) (int n - int (vlen (ents d (vsock w) ! i))) w))" if "vsock w = s" for w
    using i that to_size_int [OF Suc(3)] by (subst vec_done.simps) simp
  show ?case
  proof (cases "n < vlen ?e")
    case True
    note part = partial_pend [OF Suc(4) i(1) True Suc(3)]
    let ?t = "vec_partial d i (int n) s"
    let ?s = "?t\<lparr>v_ref := v_ref s - 1\<rparr>"
    have "vec_ok ?s" "vec_same d s ?s" using part Suc(5) by (simp_all add: vec_ok_def vec_same_def)
    moreover have "vec_done d (user_handler f) i (int n) w = Inr (w\<lparr>vsock := ?s\<rparr>)" if "vsock w = s" for w
      using step [OF that] True part(2,4) Suc(5) put_live [of "w\<lparr>vsock := ?t\<rparr>"] by (simp add: vec_ok_def)
    ultimately show ?thesis using True part(1) by (intro exI [of _ ?s]) (simp add: ps)
  next
    case False
    have m: "m = nrents d s - Suc i" "n - vlen ?e < 2 ^ 64" "Suc i \<le> nrents d s" "n - vlen ?e \<le> seg_total ?ps"
      using Suc(2,3,7) i(1) False by (simp_all add: ps)
    from Suc(1) [OF m(1,2) Suc(4,5) m(3,4)] obtain s' where s': "vec_ok s'" "vpend d s' = left_over (n - vlen ?e) ?ps"
      "vec_same d s s'" "v_ref s' = v_ref s - 1"
      "\<And>w. vsock w = s \<Longrightarrow> vec_done d (user_handler f) (Suc i) (int (n - vlen ?e)) w =
        rbind (run_all 0 f (take (finished (n - vlen ?e) ?ps) ?ps) (vuser w)) (\<lambda>u. Inr (w\<lparr>vsock := s', vuser := u\<rparr>))" by blast
    have "vec_done d (user_handler f) i (int n) w =
        rbind (run_all 0 f (?e # take (finished (n - vlen ?e) ?ps) ?ps) (vuser w)) (\<lambda>u. Inr (w\<lparr>vsock := s', vuser := u\<rparr>))"
      if "vsock w = s" for w
      using step [OF that] False s'(5) that
      by (auto simp: complete_user rbind_assoc int_ops intro!: rbind_cong)
    with s' False show ?thesis by (intro exI [of _ s']) (simp add: ps)
  qed
qed

lemma vec_ok_get: "vec_ok s \<Longrightarrow> vec_ok (s\<lparr>v_ref := v_ref s + 1\<rparr>)"
  by (simp add: vec_ok_def)

lemma vec_got_done:
  assumes "n < 2 ^ 64" "vec_ok (vsock w)" "n \<le> seg_total (vpend d (vsock w))"
  shows "\<exists>s'. vec_ok s' \<and> vpend d s' = left_over n (vpend d (vsock w)) \<and> vec_same d (vsock w) s' \<and> v_ref s' = v_ref (vsock w) \<and>
    rbind (vec_get w) (vec_done d (user_handler f) 0 (int n)) =
      rbind (run_all 0 f (take (finished n (vpend d (vsock w))) (vpend d (vsock w))) (vuser w))
        (\<lambda>u. Inr (w\<lparr>vsock := s', vuser := u\<rparr>))"
proof -
  let ?s = "(vsock w)\<lparr>v_ref := v_ref (vsock w) + 1\<rparr>"
  have "2 \<le> v_ref ?s" "0 \<le> nrents d ?s" "n \<le> seg_total (drop 0 (vpend d ?s))" using assms(2,3) by (simp_all add: vec_ok_def)
  from vec_done_user [OF assms(1) vec_ok_get [OF assms(2)] this, of f] obtain s' where
    s': "vec_ok s'" "vpend d s' = left_over n (vpend d (vsock w))" "vec_same d ?s s'" "v_ref s' = v_ref (vsock w)"
    "\<And>w'. vsock w' = ?s \<Longrightarrow> vec_done d (user_handler f) 0 (int n) w' =
      rbind (run_all 0 f (take (finished n (vpend d (vsock w))) (vpend d (vsock w))) (vuser w'))
        (\<lambda>u. Inr (w'\<lparr>vsock := s', vuser := u\<rparr>))" by auto
  moreover have "vec_get w = Inr (w\<lparr>vsock := ?s\<rparr>)" using assms(2) by (simp add: vec_get_def vec_ok_def)
  moreover have "vec_same d (vsock w) s'" using s'(3) by (simp add: vec_same_def)
  ultimately show ?thesis by (intro exI [of _ s']) simp
qed

lemma rx_pending: "vpend RX s \<noteq> [] \<Longrightarrow> rx_nrents s \<noteq> 0"
  by (auto simp: vpend_def)

subsection \<open>Properties\<close>


text \<open>C31: Whatever part of the pending segments each \<open>writev\<close> takes, the bytes on the wire followed by those still pending stay the same:
  nothing is lost, repeated or reordered.\<close>

theorem vec_sends_in_order:
  fixes w :: "('c, 'd, 'u) vworld"
  assumes "vec_ok (vsock w)"
    and "\<forall>n errno ws. vwrites w = WrRet (Some n) errno # ws \<longrightarrow> n \<le> seg_total (vpend TX (vsock w)) \<and> n < 2 ^ 63"
    and "vec_tx (user_handler f) w = Inr w'"
  shows "vec_ok (vsock w') \<and> vmem w' = vmem w \<and> vpend RX (vsock w') = vpend RX (vsock w) \<and>
    vwire w' @ map (vmem w') (vaddrs (vpend TX (vsock w'))) = vwire w @ map (vmem w) (vaddrs (vpend TX (vsock w)))"
proof (cases "tx_nrents (vsock w) = 0 \<or> (\<forall>n errno ws. vwrites w \<noteq> WrRet (Some n) errno # ws)")
  case True
  then have "w' = w \<or> (\<exists>ws. w' = w\<lparr>vwrites := ws, vsock := (vsock w)\<lparr>v_tx_rdy := False\<rparr>\<rparr>)"
    using assms(3) by (auto simp: vec_tx_def Let_def split: list.splits wr_result.splits option.splits if_splits)
      (metis vworld.surjective vworld.update_convs(4))
  with assms(1) show ?thesis by (auto simp: vec_ok_def)
next
  case False
  then obtain n errno ws where w: "vwrites w = WrRet (Some n) errno # ws" "tx_nrents (vsock w) \<noteq> 0" by blast
  let ?ps = "vpend TX (vsock w)"
  let ?w = "w\<lparr>vwrites := ws, vwire := vwire w @ map (vmem w) (take n (vaddrs ?ps))\<rparr>"
  have n: "n < 2 ^ 64" "vec_ok (vsock ?w)" "n \<le> seg_total (vpend TX (vsock ?w))" using assms(1,2) w(1) by auto
  from vec_got_done [OF n, of f] obtain s' where s': "vec_ok s'" "vpend TX s' = left_over n ?ps" "vec_same TX (vsock w) s'"
    "rbind (vec_get ?w) (vec_done TX (user_handler f) 0 (int n)) =
      rbind (run_all 0 f (take (finished n ?ps) ?ps) (vuser w)) (\<lambda>u. Inr (?w\<lparr>vsock := s', vuser := u\<rparr>))" by auto
  have "vec_tx (user_handler f) w =
      rbind (run_all 0 f (take (finished n ?ps) ?ps) (vuser w)) (\<lambda>u. Inr (?w\<lparr>vsock := s', vuser := u\<rparr>))"
    using w s'(4) by (simp add: vec_tx_def Let_def)
  with assms(3) obtain u where "w' = ?w\<lparr>vsock := s', vuser := u\<rparr>" by (auto simp: rbind_eq_Inr)
  moreover have "vaddrs (vpend TX s') = drop n (vaddrs ?ps)" using s'(2) n(3) vaddrs_left_over [of n ?ps] by simp
  moreover have "vpend RX s' = vpend RX (vsock w)" using s'(3) by (simp add: vec_same_def)
  ultimately show ?thesis using s'(1) by (simp add: map_append [symmetric] del: map_append)
qed

text \<open>With the last reference the socket is deleted: each pending segment's callback is run once with \<open>-EIO\<close>, those of the reads
  first, in order.\<close>

theorem vec_last_put:
  assumes "vec_ok (vsock w)" "v_ref (vsock w) = 1"
  shows "\<exists>s'. v_freed s' \<and> v_fd s' = -1 \<and> vpend RX s' = [] \<and> vpend TX s' = [] \<and>
    vec_put (user_handler f) w = rbind (run_all (- EIO) f (vpend RX (vsock w)) (vuser w)) (\<lambda>u.
      rbind (run_all (- EIO) f (vpend TX (vsock w)) u) (\<lambda>u. Inr (w\<lparr>vuser := u, vsock := s'\<rparr>)))"
proof -
  let ?s = "(vsock w)\<lparr>v_ref := 0\<rparr>"
  have live: "vec_ok (vsock w)" "\<not> v_freed (vsock w)" using assms by (simp_all add: vec_ok_def)
  have c: "vec_cancel d (user_handler f) 0 (w\<lparr>vsock := ?s, vuser := u\<rparr>) =
      rbind (run_all (- EIO) f (vpend d (vsock w)) u) (\<lambda>u. Inr (w\<lparr>vsock := ?s, vuser := u\<rparr>))" for d u
    using vec_cancel_user [of "w\<lparr>vsock := ?s, vuser := u\<rparr>" 0 d f] assms(1)
    by (simp add: vec_ok_def vec_sized_def)
  let ?t = "?s\<lparr>v_fd := -1, v_connected := False, v_rx_rdy := False, v_tx_rdy := False, rx_nrents := 0, tx_nrents := 0\<rparr>"
  have c0: "vec_cancel RX (user_handler f) 0 (w\<lparr>vsock := ?s\<rparr>) =
      rbind (run_all (- EIO) f (vpend RX (vsock w)) (vuser w)) (\<lambda>u. Inr (w\<lparr>vsock := ?s, vuser := u\<rparr>))"
    using c [of RX "vuser w"] by simp
  have "vec_put (user_handler f) w = rbind (vec_destroy (user_handler f) (w\<lparr>vsock := ?s\<rparr>))
      (\<lambda>w. Inr (w\<lparr>vsock := (vsock w)\<lparr>v_freed := True\<rparr>\<rparr>))"
    using assms(2) live(2) by (simp add: vec_put_def Let_def)
  also have "\<dots> = rbind (run_all (- EIO) f (vpend RX (vsock w)) (vuser w)) (\<lambda>u.
      rbind (run_all (- EIO) f (vpend TX (vsock w)) u) (\<lambda>u. Inr (w\<lparr>vuser := u, vsock := ?t\<lparr>v_freed := True\<rparr>\<rparr>)))"
    by (simp add: vec_destroy_def c0 c rbind_assoc)
  finally show ?thesis
    by (intro exI [of _ "?t\<lparr>v_freed := True\<rparr>"]) (simp add: vpend_def)
qed

text \<open>C32: A callback that queues the next read while the socket is ready enters \<open>rx\<close> again with the segment that was just filled still
  at the front of the array. The next bytes overwrite that segment; the one that was queued is then either dropped unread, or, when
  it has another length, the outer loop fails. (The callback does this once; the second time it returns.)\<close>

theorem vec_read_reenters:
  fixes w :: "(unit, 'd, 'u) vworld"
  assumes "vec_ok (vsock w)" "vpend RX (vsock w) = [e0]" "v_rx_rdy (vsock w)" "complete e0 = Some ()"
    and "vreads w = RdRet (Some b1) x # RdRet (Some b2) y # ks"
    and "length b1 = vlen e0" "length b2 = vlen e0" "0 < vlen e0" "vlen e0 < 2 ^ 63" "0 < vlen e1" "vlen e1 < 2 ^ 63"
  shows "case vec_rx (\<lambda>_ _ _. vec_read (user_handler (\<lambda>_ _ _. Inr)) e1) w of
      Inl e \<Rightarrow> vlen e1 \<noteq> vlen e0 \<and> e = Runtime_error ''Sock::rx: readv returned more bytes than asked''
    | Inr w' \<Rightarrow> vlen e1 = vlen e0 \<and> vpend RX (vsock w') = [] \<and> map (vmem w') [vbuf e0..<vbuf e0 + vlen e0] = b2 \<and>
        (\<forall>a. a \<notin> {vbuf e0..<vbuf e0 + vlen e0} \<longrightarrow> vmem w' a = vmem w a)"
proof -
  let ?h = "\<lambda>_ _ _. vec_read (user_handler (\<lambda>_ _ _. Inr)) e1 :: (unit, 'd, 'u) vworld \<Rightarrow> (unit, 'd, 'u) vworld res"
  let ?A = "[vbuf e0..<vbuf e0 + vlen e0]"
  let ?s = "(vsock w)\<lparr>v_ref := v_ref (vsock w) + 1\<rparr>"
  let ?s1 = "?s\<lparr>rx_ents := (rx_ents ?s)[1 := e1], rx_nrents := 2\<rparr>"
  let ?m1 = "vfill ?A b1 (vmem w)"
  let ?w1 = "w\<lparr>vreads := RdRet (Some b2) y # ks, vmem := ?m1, vsock := ?s\<rparr>"
  let ?w2 = "?w1\<lparr>vsock := ?s1\<rparr>"
  have n: "rx_nrents (vsock w) = 1" "rx_ents (vsock w) ! 0 = e0" "length (rx_ents (vsock w)) = MAX_SGS" "\<not> v_freed (vsock w)"
    using assms(1) one_pending [OF assms(1,2)] by (simp_all add: vec_ok_iff)
  have b: "b1 \<noteq> []" "b2 \<noteq> []" using assms(6-8) by auto
  have outer: "vec_rx ?h w = rbind (vec_read (user_handler (\<lambda>_ _ _. Inr)) e1 ?w1) (\<lambda>w.
      vec_done RX ?h 1 (int (vlen e0) - int (vlen (rx_ents (vsock w) ! 0))) w)"
    using n b(1) assms(2,4,5,6,8) to_size_int [of "vlen e0"] assms(9)
    by (simp add: vec_rx_def Let_def vec_get_def vaddrs_def vec_done.simps [of _ _ 0] vec_complete_def MAX_SGS_def)
  have ok: "vec_ok ?s1" using assms(1) by (simp add: vec_ok_iff MAX_SGS_def)
  have p: "vpend RX ?s1 = [e0, e1]"
  proof -
    obtain y ys where "rx_ents (vsock w) = e0 # y # ys"
      using n(2,3) by (cases "rx_ents (vsock w)"; cases "tl (rx_ents (vsock w))") (auto simp: MAX_SGS_def)
    then show ?thesis by (simp add: vpend_def)
  qed
  let ?w3 = "?w2\<lparr>vreads := ks, vmem := vfill ?A b2 ?m1\<rparr>"
  have inner: "vec_read (user_handler (\<lambda>_ _ _. Inr)) e1 ?w1 = rbind (vec_get ?w3) (vec_done RX (user_handler (\<lambda>_ _ _. Inr)) 0 (int (vlen e0)))"
  proof -
    have "vfill (vaddrs [e0, e1]) b2 m = vfill ?A b2 m" for m
    proof -
      have "vfill (as @ bs) xs m = vfill as xs m" if "length xs \<le> length as" for as bs xs and m :: "nat \<Rightarrow> byte"
        using that by (induction as xs m rule: vfill.induct) (auto split: list.splits)
      from this [of b2 ?A] show ?thesis using assms(7) by (simp add: vaddrs_def)
    qed
    then show ?thesis
      using n assms(3,7) b(2) p by (simp add: vec_read_def vec_rx_def Let_def MAX_SGS_def numeral_2_eq_2)
  qed
  have l: "vlen e0 < 2 ^ 64" "vec_ok (vsock ?w3)" "vlen e0 \<le> seg_total (vpend RX (vsock ?w3))"
    using assms(9) ok p by simp_all
  from vec_got_done [OF l, of "\<lambda>_ _ _. Inr"] obtain s' where s': "vec_ok s'" "vpend RX s' = [e1]" "v_ref s' = v_ref (vsock w) + 1"
    "vec_read (user_handler (\<lambda>_ _ _. Inr)) e1 ?w1 = Inr (?w3\<lparr>vsock := s'\<rparr>)"
    using p assms(4,10) inner by (auto simp: split: option.splits)
  note s1 = one_pending [OF s'(1,2)]
  have ref: "\<not> v_freed s'" "2 \<le> v_ref s'" using s'(1,3) assms(1) by (simp_all add: vec_ok_iff)
  have mem: "map (vfill ?A b2 ?m1) ?A = b2" "\<And>a. a \<notin> set ?A \<Longrightarrow> vfill ?A b2 ?m1 a = vmem w a"
    using vfill_all [of ?A b2 ?m1] assms(6,7) by (simp_all add: vfill_other)
  have "vec_rx ?h w = (if vlen e1 = vlen e0
      then vec_put ?h (?w3\<lparr>vsock := set_ents RX 0 (rx_ents s') s'\<rparr>)
      else Inl (Runtime_error ''Sock::rx: readv returned more bytes than asked''))"
    using outer s'(4) s1 ref(1) by (simp add: vec_done.simps [of _ _ "Suc 0"])
  moreover have "vec_put ?h (?w3\<lparr>vsock := set_ents RX 0 (rx_ents s') s'\<rparr>) =
      Inr (?w3\<lparr>vsock := (set_ents RX 0 (rx_ents s') s')\<lparr>v_ref := v_ref s' - 1\<rparr>\<rparr>)"
    using put_live [of "?w3\<lparr>vsock := set_ents RX 0 (rx_ents s') s'\<rparr>" ?h] ref by simp
  ultimately show ?thesis using mem by (simp add: vpend_def)
qed

subsection \<open>Witnesses\<close>

text \<open>Two segments of two and three bytes in both directions; callbacks note their argument.\<close>

definition demo_seg :: "nat \<Rightarrow> nat \<Rightarrow> (unit, nat) VIO" where
  "demo_seg a n = \<lparr>vbuf = a, vlen = n, cb_data = a, complete = Some ()\<rparr>"

lemma demo_seg_simps [simp]: "vlen (demo_seg a n) = n" "cb_data (demo_seg a n) = a" "complete (demo_seg a n) = Some ()"
    "vbuf (demo_seg a n) = a"
  by (simp_all add: demo_seg_def)

definition demo_vworld :: "(unit, nat) VIO list \<Rightarrow> (unit, nat, nat list) vworld" where
  "demo_vworld es = \<lparr>vsock = (vec_new 0)\<lparr>v_rx_rdy := True, v_tx_rdy := True,
       rx_nrents := length es, rx_ents := blit (rx_ents (vec_new 0)) 0 es,
       tx_nrents := length es, tx_ents := blit (tx_ents (vec_new 0)) 0 es\<rparr>,
     vmem = (\<lambda>a. word_of_nat a), vreads = [RdRet (Some [1, 2, 3]) 0], vwrites = [WrRet (Some 4) 0], vwire = [], vuser = []\<rparr>"

definition demo_note :: "unit \<Rightarrow> nat \<Rightarrow> int \<Rightarrow> nat list \<Rightarrow> nat list res" where
  "demo_note c d st u = Inr (u @ [d])"

lemma demo_vworld_facts:
  assumes "length es \<le> MAX_SGS"
  shows "vec_ok (vsock (demo_vworld es))" "vpend d (vsock (demo_vworld es)) = es"
proof -
  show "vec_ok (vsock (demo_vworld es))" using assms by (simp add: vec_ok_iff demo_vworld_def vec_new_def)
  show "vpend d (vsock (demo_vworld es)) = es" by (cases d) (simp_all add: vpend_def demo_vworld_def blit_def)
qed

lemmas demo_two = demo_vworld_facts [of "[demo_seg 10 2, demo_seg 20 3]", simplified MAX_SGS_def, simplified]


theorem vec_sends_in_order_witness:
  "\<exists>w'. vec_tx (user_handler demo_note) (demo_vworld [demo_seg 10 2, demo_seg 20 3]) = Inr w' \<and>
    vwire w' @ map (vmem w') (vaddrs (vpend TX (vsock w'))) = [10, 11, 20, 21, 22]"
proof -
  let ?w = "demo_vworld [demo_seg 10 2, demo_seg 20 3]"
  have a: "vaddrs [demo_seg 10 2, demo_seg 20 3] = [10, 11, 20, 21, 22]"
    by (simp add: vaddrs_def demo_seg_def upt_rec)
  have t: "vwrites ?w = WrRet (Some 4) 0 # []" "seg_total [demo_seg 10 2, demo_seg 20 3] = 5" "tx_nrents (vsock ?w) = 2"
    by (simp_all add: demo_vworld_def demo_seg_def)
  let ?w1 = "?w\<lparr>vwrites := [], vwire := vwire ?w @ map (vmem ?w) (take 4 (vaddrs (vpend TX (vsock ?w))))\<rparr>"
  have "\<exists>w'. rbind (vec_get ?w1) (vec_done TX (user_handler demo_note) 0 (int 4)) = Inr w'"
    using vec_got_done [of 4 ?w1 TX demo_note] demo_two t(2) by (auto simp: demo_note_def demo_seg_def)
  then obtain w' where w': "vec_tx (user_handler demo_note) ?w = Inr w'" using t(1,3) by (auto simp: vec_tx_def Let_def)
  from vec_sends_in_order [OF demo_two(1) _ w'] t demo_two(2) a w' show ?thesis by (auto simp: demo_vworld_def)
qed

definition demo_reenter :: "(unit, nat, unit) vworld" where
  "demo_reenter = \<lparr>vsock = (vec_new 0)\<lparr>v_rx_rdy := True, rx_nrents := 1, rx_ents := blit (rx_ents (vec_new 0)) 0 [demo_seg 10 2]\<rparr>,
     vmem = (\<lambda>a. 0), vreads = [RdRet (Some [1, 2]) 0, RdRet (Some [3, 4]) 0], vwrites = [], vwire = [], vuser = ()\<rparr>"

theorem vec_read_reenters_witness:
  "(\<exists>w'. vec_rx (\<lambda>_ _ _. vec_read (user_handler (\<lambda>_ _ _. Inr)) (demo_seg 20 2)) demo_reenter = Inr w' \<and>
      map (vmem w') [10, 11] = [3, 4] \<and> vpend RX (vsock w') = []) \<and>
   vec_rx (\<lambda>_ _ _. vec_read (user_handler (\<lambda>_ _ _. Inr)) (demo_seg 20 3)) demo_reenter =
      Inl (Runtime_error ''Sock::rx: readv returned more bytes than asked'')"
proof -
  have d: "vec_ok (vsock demo_reenter)" "vpend RX (vsock demo_reenter) = [demo_seg 10 2]" "v_rx_rdy (vsock demo_reenter)"
    "complete (demo_seg 10 2) = Some ()"
    "vreads demo_reenter = RdRet (Some [1, 2]) 0 # RdRet (Some [3, 4]) 0 # []"
    by (simp_all add: vec_ok_iff demo_reenter_def vec_new_def MAX_SGS_def vpend_def blit_def)
  have A: "[10..<12] = [10, 11]" by (simp add: upt_rec)
  from vec_read_reenters [OF d, of "demo_seg 20 2"] vec_read_reenters [OF d, of "demo_seg 20 3"] show ?thesis
    by (auto simp: demo_seg_def A split: sum.splits)
qed

theorem vec_last_put_witness:
  "\<exists>w'. vec_put (user_handler demo_note) (demo_vworld [demo_seg 10 2, demo_seg 20 3]) = Inr w' \<and> v_freed (vsock w') \<and>
    vuser w' = [10, 20, 10, 20]"
proof -
  have "v_ref (vsock (demo_vworld [demo_seg 10 2, demo_seg 20 3])) = 1" "vuser (demo_vworld [demo_seg 10 2, demo_seg 20 3]) = []"
    by (simp_all add: demo_vworld_def vec_new_def)
  with vec_last_put [OF demo_two(1) this(1), of demo_note] show ?thesis by (auto simp: demo_two(2) demo_note_def)
qed

end
