(* ===== verification/Buffer_Demo.thy ===== *)
theory Buffer_Demo
  imports Sock_Tx
begin

section \<open>A program that exercises the buffer (client/test1.cc)\<close>

text \<open>
  A class that logs how its objects are made, copied, moved and destroyed, a run of it through the buffer, two ways of sharing a
  source of random numbers, and \<open>test_buffer\<close>, which queues, dequeues and drops items of a buffer of five so that it wraps around,
  then walks it. The output is the list of its lines. An object of the class is its \<open>id\<close>; the exponential distribution of
  the standard library, which has no state, is an argument.
\<close>

datatype line = Text string | Labelled string int | Draw real

subsection \<open>A class that logs\<close>

definition say :: "string \<Rightarrow> line list \<Rightarrow> line list" where
  "say s out = out @ [Text s]"

definition cons_default :: "line list \<Rightarrow> int \<times> line list" where
  "cons_default out = (0, say ''cons (default)'' out)"

definition cons_id :: "int \<Rightarrow> line list \<Rightarrow> int \<times> line list" where
  "cons_id n out = (n, say ''cons (id)'' out)"

definition copy_cons :: "int \<Rightarrow> line list \<Rightarrow> int \<times> line list" where
  "copy_cons a out = (a, say ''copy con'' out)"

text \<open>A move leaves \<open>-1\<close> in its source, the second result.\<close>

definition move_cons :: "int \<Rightarrow> line list \<Rightarrow> int \<times> int \<times> line list" where
  "move_cons a out = (a, -1, say ''move con'' out)"

definition copy_assign :: "int \<Rightarrow> line list \<Rightarrow> int \<times> line list" where
  "copy_assign a out = (a, say ''copy ='' out)"

definition move_assign :: "int \<Rightarrow> line list \<Rightarrow> int \<times> int \<times> line list" where
  "move_assign a out = (a, -1, say ''move ='' out)"

definition destruct :: "line list \<Rightarrow> line list" where
  "destruct out = say ''deconstruct'' out"

text \<open>The operators \<open>new\<close> and \<open>delete\<close>; the memory they obtain, return or are given is not part of an object.\<close>

definition op_new :: "line list \<Rightarrow> line list" where
  "op_new out = say ''new'' out"

definition op_placement_new :: "line list \<Rightarrow> line list" where
  "op_placement_new out = say ''placement-new'' out"

definition op_new_array :: "line list \<Rightarrow> line list" where
  "op_new_array out = say ''new[]'' out"

definition op_placement_new_array :: "line list \<Rightarrow> line list" where
  "op_placement_new_array out = say ''placement-new[]'' out"

definition op_delete :: "line list \<Rightarrow> line list" where
  "op_delete out = say ''delete'' out"

definition op_delete_array :: "line list \<Rightarrow> line list" where
  "op_delete_array out = say ''delete[]'' out"

fun cons_array :: "nat \<Rightarrow> line list \<Rightarrow> int list \<times> line list" where
  "cons_array 0 out = ([], out)"
| "cons_array (Suc n) out = (let (a, out) = cons_default out; (as, out) = cons_array n out in (a # as, out))"

fun destruct_array :: "nat \<Rightarrow> line list \<Rightarrow> line list" where
  "destruct_array 0 out = out"
| "destruct_array (Suc n) out = destruct_array n (destruct out)"

subsection \<open>The tests\<close>

definition heading :: "string \<Rightarrow> line list \<Rightarrow> line list" where
  "heading s out = say (''# '' @ s) out"

definition endl :: "line list \<Rightarrow> line list" where
  "endl out = say '''' out"

text \<open>The first half of \<open>main\<close>: objects on the stack and on the heap.\<close>

definition test_objects :: "line list \<Rightarrow> int \<times> line list" where
  "test_objects out =
     (let (a1, out) = cons_default (heading ''a1'' out); out = endl out;
          (a2, out) = cons_default (op_new (heading ''a2'' out)); out = endl (op_delete (destruct out));
          (a3, out) = copy_cons a1 (heading ''a3'' out); out = endl out;
          (a4, out) = copy_cons a1 (heading ''a4'' out); out = endl out;
          (a5, a1, out) = move_cons a1 (heading ''a5'' out); out = endl out;
          (a6, a1, out) = move_cons a1 (heading ''a6'' out); out = endl out;
          (a7, out) = cons_default (heading ''a7'' out); (a7, a1, out) = move_assign a1 out; out = endl out;
          (a8, out) = cons_array 2 (op_new_array (heading ''a8'' out)); (x, out) = copy_assign a1 out; a8 = a8[0 := x];
          out = endl (op_delete_array (destruct_array 2 out))
      in (a1, out))"

text \<open>The objects of a buffer are made when the buffer is; \<open>queue_emplace\<close> and placement-new make another in the same place.\<close>

definition test_queue :: "int \<Rightarrow> line list \<Rightarrow> (int buffer \<times> line list) res" where
  "test_queue a1 out =
     (let (as, out) = cons_array 6 (heading ''buffer - init'' out); out = endl out;
          q = (buffer_new 0 6)\<lparr>buf := as\<rparr>; out = heading ''buffer - queue'' out in
      rbind (queue q 1) (\<lambda>(b1, n, q).
      let (x, out) = copy_assign a1 out; q = q\<lparr>buf := (buf q)[b1 := x]\<rparr>; out = heading ''buffer - queue - new'' (endl out) in
      rbind (queue q n) (\<lambda>(b2, n, q).
      let (t, out) = cons_default out; (x, t, out) = move_assign t out; q = q\<lparr>buf := (buf q)[b2 := x]\<rparr>;
          out = heading ''buffer - queue - placement new'' (endl (destruct out)) in
      rbind (queue q n) (\<lambda>(b3, n, q).
      let (x, out) = cons_default (op_placement_new out); q = q\<lparr>buf := (buf q)[b3 := x]\<rparr>;
          out = heading ''buffer - queue - allocator cons'' (endl out) in
      rbind (queue q n) (\<lambda>(b4, n, q).
      let (x, out) = cons_default out; q = q\<lparr>buf := (buf q)[b4 := x]\<rparr>; out = heading ''buffer - queue_emplace'' (endl out);
          (x, out) = cons_default out in
      rbind (queue_emplace q x) (\<lambda>(_, q).
      let (x, out) = cons_id 11 (heading ''buffer - queue_emplace - args'' (endl out)) in
      rbind (queue_emplace q x) (\<lambda>(_, q). Inr (q, endl out))))))))"

text \<open>Samples of distributions that share a generator.\<close>

fun draws :: "('r \<Rightarrow> real \<times> 'r) list \<Rightarrow> 'r \<Rightarrow> line list \<Rightarrow> 'r \<times> line list" where
  "draws [] r out = (r, out)"
| "draws (ed # eds) r out = (let (x, r) = ed r in draws eds r (out @ [Draw x]))"

definition test_random_share1 :: "('r \<Rightarrow> real \<times> 'r) \<Rightarrow> 'r \<Rightarrow> line list \<Rightarrow> 'r \<times> line list" where
  "test_random_share1 expo = (let ed1 = expo in draws [ed1, ed1, ed1, ed1, ed1, ed1])"

definition test_random_share2 :: "('r \<Rightarrow> real \<times> 'r) \<Rightarrow> 'r \<Rightarrow> line list \<Rightarrow> 'r \<times> line list" where
  "test_random_share2 expo = (let ed1 = expo; ed2 = expo in draws [ed1, ed2, ed2, ed1, ed1, ed2])"

fun emplace_all :: "int list \<Rightarrow> int buffer \<Rightarrow> int buffer res" where
  "emplace_all [] b = Inr b"
| "emplace_all (n # ns) b = rbind (queue_emplace b n) (\<lambda>(p, b). emplace_all ns b)"

definition test_buffer :: "line list res" where
  "test_buffer =
     rbind (emplace_all [1, 2, 3, 4, 5] (buffer_new 0 5)) (\<lambda>b.
     rbind (dequeue_one b) (\<lambda>(p1, b).
     let n1 = buf b ! p1 in
     rbind (queue_emplace b 6) (\<lambda>(_, b).
     rbind (dequeue_one b) (\<lambda>(p2, b).
     let n2 = buf b ! p2 in
     rbind (queue_emplace b 7) (\<lambda>(_, b).
     rbind (dequeue_one b) (\<lambda>(p3, b).
     let n3 = buf b ! p3 in
     rbind (drop_items b 0) (\<lambda>b.
     rbind (drop_items b 1) (\<lambda>b.
     rbind (drop_items b 2) (\<lambda>b.
     rbind (emplace_all [8, 9] b) (\<lambda>b.
     rbind (visited b) (\<lambda>ws.
     rbind (last_item b) (\<lambda>l.
     Inr ([Labelled ''1'' n1, Labelled ''2'' n2, Labelled ''3'' n3] @ map (Labelled ''?'') ws @ [Labelled ''last'' (buf b ! l)])))))))))))))"

text \<open>At the end of \<open>main\<close> the objects of the buffer and the six variables on the stack are destroyed.\<close>

definition test_main :: "('r \<Rightarrow> real \<times> 'r) \<Rightarrow> 'r \<Rightarrow> line list res" where
  "test_main expo rand1 =
     (let (a1, out) = test_objects []; rand2 = rand1 in
      rbind (test_queue a1 out) (\<lambda>(q, out).
      let (rand1, out) = test_random_share1 expo rand1 (heading ''rand 1'' out);
          (rand2, out) = test_random_share2 expo rand2 (heading ''rand 2'' (endl out));
          out = heading ''done'' (endl out) in
      rbind test_buffer (\<lambda>ls. Inr (destruct_array 6 (destruct_array (length (buf q)) (out @ ls))))))"

subsection \<open>What it prints\<close>

lemma test_buffer_prints:
  "test_buffer = Inr [Labelled ''1'' 1, Labelled ''2'' 2, Labelled ''3'' 3, Labelled ''?'' 7, Labelled ''?'' 8, Labelled ''?'' 9,
     Labelled ''last'' 9]"
  by code_simp

lemma draws_prints: "\<exists>r' xs. draws eds r out = (r', out @ map Draw xs) \<and> length xs = length eds"
proof (induction eds arbitrary: r out)
  case (Cons ed eds)
  obtain x r1 where "ed r = (x, r1)" by (cases "ed r")
  moreover obtain r' xs where "draws eds r1 (out @ [Draw x]) = (r', (out @ [Draw x]) @ map Draw xs) \<and> length xs = length eds"
    using Cons by blast
  ultimately show ?case by (intro exI [of _ r'] exI [of _ "x # xs"]) simp
qed simp

text \<open>Both tests of random numbers print the same six, as the distributions have no state of their own.\<close>

lemma test_random_shares: "test_random_share1 expo = test_random_share2 expo"
  by (simp add: test_random_share1_def test_random_share2_def)

definition constructions :: "line list \<Rightarrow> nat" where
  "constructions out = count_list out (Text ''cons (default)'') + count_list out (Text ''cons (id)'') +
     count_list out (Text ''copy con'') + count_list out (Text ''move con'')"

definition destructions :: "line list \<Rightarrow> nat" where
  "destructions out = count_list out (Text ''deconstruct'')"

lemma count_draws [simp]: "count_list (map Draw xs) (Text s) = 0"
  by (induction xs) simp_all

lemma counts_append [simp]:
  "constructions (xs @ ys) = constructions xs + constructions ys" "destructions (xs @ ys) = destructions xs + destructions ys"
  by (simp_all add: constructions_def destructions_def)

lemma counts_text [simp]:
  "constructions [Text s] = (if s \<in> {''cons (default)'', ''cons (id)'', ''copy con'', ''move con''} then 1 else 0)"
  "destructions [Text s] = (if s = ''deconstruct'' then 1 else 0)"
  by (auto simp: constructions_def destructions_def)

lemma destruct_array_counts [simp]:
  "constructions (destruct_array n out) = constructions out" "destructions (destruct_array n out) = destructions out + n"
  by (induction n arbitrary: out) (simp_all add: destruct_def say_def)

lemma test_prefix:
  "case test_objects [] of (a1, out) \<Rightarrow> (case test_queue a1 out of Inl e \<Rightarrow> False
   | Inr (q, out) \<Rightarrow> buf q = [-1, 0, 0, 0, 0, 11] \<and> constructions out = 20 \<and> destructions out = 4)"
  by code_simp

text \<open>The objects that \<open>queue_emplace\<close> and placement-new make take the place of live ones, which are never destroyed: the
  program makes 20 objects and destroys 16. It prints all it means to, whatever the random numbers.\<close>

lemma test_main_leaks:
  "\<exists>out. test_main expo r = Inr out \<and> constructions out = 20 \<and> destructions out = 16"
proof -
  obtain a1 out where o: "test_objects [] = (a1, out)" by fastforce
  then obtain q out' where p: "test_objects [] = (a1, out)" "test_queue a1 out = Inr (q, out')" "length (buf q) = 6"
    "constructions out' = 20" "destructions out' = 4"
    using test_prefix by (cases "test_queue a1 out") (auto split: prod.splits)
  obtain r1 xs where 1: "test_random_share1 expo r (heading ''rand 1'' out') = (r1, heading ''rand 1'' out' @ map Draw xs)"
    using draws_prints [of _ r "heading ''rand 1'' out'"] unfolding test_random_share1_def Let_def by blast
  obtain r2 ys where 2: "test_random_share2 expo r out'' = (r2, out'' @ map Draw ys)"
    if "out'' = heading ''rand 2'' (endl (heading ''rand 1'' out' @ map Draw xs))" for out''
    using draws_prints [of _ r "heading ''rand 2'' (endl (heading ''rand 1'' out' @ map Draw xs))"]
    unfolding test_random_share2_def Let_def by blast
  from p 1 2 show ?thesis
    by (simp add: test_main_def test_buffer_prints heading_def endl_def say_def)
      (simp add: constructions_def destructions_def)
qed

end
