(* ===== verification/Memc_Print.thy ===== *)
theory Memc_Print
  imports Memc_Protocol Decimal
begin

section \<open>The rest of the memcache header file (client/memcache.hh)\<close>

text \<open>
  What \<^verbatim>\<open>memcache.hh\<close> has for other programs: the extras of further commands, a packet as pointers to its parts, the keys of the
  server's statistics, and the printing of a header for debugging, as the lines it writes. The printed lines
  determine the header.
\<close>

subsection \<open>Extras and packets\<close>

record MemcExtrasIncr =
  initial :: "64 word"
  delta :: "64 word"
  incr_expiration :: "32 word"

record MemcExtrasTouch =
  touch_expiration :: "32 word"

text \<open>The pointers are addresses.\<close>

record MemcPacket =
  pkt_header :: nat
  pkt_extras :: nat
  pkt_key :: nat
  pkt_value :: nat

subsection \<open>Statistics\<close>

text \<open>The constants \<open>MemcStat...\<close>, by the rest of their names.\<close>

definition memc_stats :: "(string \<times> string) list" where
  "memc_stats =
    [(''Time'', ''time''), (''CurrItems'', ''curr_items''), (''Bytes'', ''bytes''), (''BytesRead'', ''bytes_read''),
     (''BytesWritten'', ''bytes_written''), (''Evictions'', ''evictions''), (''Expirations'', ''expired''),
     (''TotalItems'', ''total_items''), (''CurrConnections'', ''curr_connections''),
     (''TotalConnections'', ''total_connections''), (''AuthCmds'', ''auth_cmds''), (''AuthErrors'', ''auth_errors''),
     (''Get'', ''cmd_get''), (''Set'', ''cmd_set''), (''Delete'', ''cmd_delete''), (''Touch'', ''cmd_touch''),
     (''Flush'', ''cmd_flush''), (''GetHits'', ''get_hits''), (''GetMisses'', ''get_misses''),
     (''DeleteHits'', ''delete_hits''), (''DeleteMisses'', ''delete_misses''), (''IncrHits'', ''incr_hits''),
     (''IncrMisses'', ''incr_misses''), (''DecrHits'', ''decr_hits''), (''DecrMisses'', ''decr_misses''),
     (''TouchHits'', ''touch_hits''), (''TouchMisses'', ''touch_misses''), (''MemLimit'', ''limit_maxbytes''),
     (''CasHits'', ''cas_hits''), (''CasMiss'', ''cas_misses''), (''CasBadval'', ''cas_badval'')]"

definition memc_stats_settings :: "(string \<times> string) list" where
  "memc_stats_settings =
    [(''SetMaxBytes'', ''maxbytes''), (''SetTcpPORT'', ''tcpport''), (''SetCas'', ''cas_enabled''),
     (''SetAuth'', ''auth_enabled_sasl''), (''SetMaxItem'', ''item_size_max'')]"

definition memc_stats_items :: "(string \<times> string) list" where
  "memc_stats_items =
    [(''ItemsSize'', ''chunk_size''), (''ItemsNum'', ''number''), (''ItemsEvicted'', ''evicted''),
     (''ItemsEvictedNZ'', ''evicted_nonzero''), (''ItemsOom'', ''outofmemory'')]"

lemma stat_keys_distinct:
  "distinct (map fst (memc_stats @ memc_stats_settings @ memc_stats_items))"
  "distinct (map snd (memc_stats @ memc_stats_settings @ memc_stats_items))"
  by code_simp+

subsection \<open>Printing a header\<close>

definition hex_digit :: "nat \<Rightarrow> char" where
  "hex_digit d = (if d < 10 then char_of (48 + d) else char_of (87 + d))"

fun show_hex :: "nat \<Rightarrow> string" where
  "show_hex n = (if n < 16 then [hex_digit n] else show_hex (n div 16) @ [hex_digit (n mod 16)])"

declare show_hex.simps [simp del]

definition print_memc_header :: "MemcHeader \<Rightarrow> string list" where
  "print_memc_header h =
     [''Memcache Header'',
      ''-   type: 0x'' @ show_hex (unat (mtype h)),
      ''-    cmd: 0x'' @ show_hex (unat (cmd h)),
      ''-   keyl: 0x'' @ show_hex (unat (keylen h)),
      ''-   extl: 0x'' @ show_hex (unat (extralen h)),
      ''-   data: 0x'' @ show_hex (unat (datatyp h)),
      ''- status: 0x'' @ show_hex (unat (status h)),
      ''-  bodyl: 0x'' @ show_hex (unat (blen h)),
      ''- opaque: 0x'' @ show_hex (unat (opaque h)),
      ''-   vers: 0x'' @ show_hex (unat (version h))]"

text \<open>Reading a hexadecimal numeral.\<close>

definition hex_val :: "char \<Rightarrow> nat" where
  "hex_val c = (let n = of_char c in if n < 58 then n - 48 else n - 87)"

definition read_hex :: "string \<Rightarrow> nat" where
  "read_hex s = fold (\<lambda>c a. 16 * a + hex_val c) s 0"

lemma hex_val_digit [simp]: "d < 16 \<Longrightarrow> hex_val (hex_digit d) = d"
  by (simp add: hex_val_def hex_digit_def Let_def)

lemma read_show_hex [simp]: "read_hex (show_hex n) = n"
proof (induction n rule: show_hex.induct)
  case (1 n)
  then show ?case by (cases "n < 16") (simp_all add: show_hex.simps [of n] read_hex_def)
qed

lemma show_hex_inject [simp]: "show_hex m = show_hex n \<longleftrightarrow> m = n"
  by (metis read_show_hex)

text \<open>Headers that print alike are equal.\<close>

lemma print_memc_header_inject: "print_memc_header g = print_memc_header h \<longleftrightarrow> g = h"
  by (cases g; cases h) (simp add: print_memc_header_def word_unat_eq_iff)

end
