(* ===== verification/Spec2Isabelle.thy ===== *)
theory Spec2Isabelle
  imports Sock_Life Accumulator Load_Memcache Mutated_Main Linux_Compat Client_Open Client_Send_Only Sock_Vec Buffer_Demo Memc_Print
begin

section \<open>Mutated: an open-loop load generator for servers\<close>

text \<open>
  The program (\<^verbatim>\<open>src/client\<close>) sends requests to a server at times drawn from a distribution, whether or not
  earlier ones were answered, and measures how long the responses take. This library models all of its parts that keep
  state or compute something, and proves what makes each of them correct; the theories on the client put the parts together and
  follow whole runs, from the options to the summary that is printed at the end.

  \<^bold>\<open>The parts and how they interact.\<close> A \<open>main\<close> function parses the options into a \<open>Config\<close>, makes a
  \<open>Client\<close> and runs it. The client computes the schedule of the requests, then waits for events: its timer
  fires when the next request is due, a socket can be read or written. A request is handed to a generator, of which there is one for
  each connection; the generator writes its packet into the ring buffer of its \<open>Sock\<close>, which moves bytes between
  that buffer and the kernel and calls the generator back when the packet is sent and when a response is there. The generator
  computes the latencies and calls the client back, which records the sample, drops the reference to the generator
  and, with the last response, prints the summary and exits.

  \<^bold>\<open>Theories and code.\<close>
  \<^item> \<^verbatim>\<open>Mut_Base\<close>: exceptions and results, sizes, copies of runs of an array. \<^verbatim>\<open>Output\<close>: the data of the
    printed summary, which an exit carries. \<^verbatim>\<open>Decimal\<close>: the conversions of the C library that are used.
  \<^item> \<^verbatim>\<open>Ring_Buffer\<close> (\<^verbatim>\<open>buffer.hh\<close>): the circular buffer and its iterator. Each operation is shown to be the
    list operation it stands for; the locale \<open>bounded_queue\<close> is that contract.
  \<^item> \<^verbatim>\<open>Sock_Buf\<close> (\<^verbatim>\<open>socket_buf.hh\<close>, \<^verbatim>\<open>socket_buf.cc\<close>): the socket, one definition for each member
    function. \<^verbatim>\<open>Sock_Rx\<close> refines its receiving half to a parser of the byte stream (locale \<open>stream_handler\<close>),
    \<^verbatim>\<open>Sock_Tx\<close> shows that the sending half sends the bytes in order and fires callbacks when they are due,
    \<^verbatim>\<open>Sock_Life\<close> follows any sequence of calls, from construction to destruction.
  \<^item> \<^verbatim>\<open>Sock_Vec\<close> (\<^verbatim>\<open>socket_vec.hh\<close>, \<^verbatim>\<open>socket_vec.cc\<close>): the older socket over scatter-gather lists, which the
    build leaves out. Its callbacks may call it again; its loops are bounded by the 1024 segments it can hold.
  \<^item> \<^verbatim>\<open>Memc_Protocol\<close> (\<^verbatim>\<open>memcache.hh\<close>, \<^verbatim>\<open>endian.hh\<close>): packet headers and byte order.
    \<^verbatim>\<open>Memc_Print\<close>: what else the header file has, with the printing of a header, which is shown to determine it.
  \<^item> \<^verbatim>\<open>Accumulator\<close> (\<^verbatim>\<open>accum.hh\<close>, \<^verbatim>\<open>accum.cc\<close>, \<^verbatim>\<open>results.hh\<close>): samples, statistics, results.
  \<^item> \<^verbatim>\<open>Options\<close> (\<^verbatim>\<open>opts.hh\<close>, \<^verbatim>\<open>opts_synthetic.cc\<close>, \<^verbatim>\<open>opts_memcache.cc\<close>): the configuration, its parsers and
    the usage messages with which they end the program.
  \<^item> \<^verbatim>\<open>Gen_Base\<close> (\<^verbatim>\<open>generator.hh\<close>): reference counts, latencies, and the locale \<open>fifo_generator\<close>, which says that a
    generator matches responses to requests in order; \<^verbatim>\<open>Gen_Synthetic\<close> and \<^verbatim>\<open>Gen_Memcache\<close>
    (\<^verbatim>\<open>gen_synthetic.*\<close>, \<^verbatim>\<open>gen_memcache.*\<close>) interpret it. \<^verbatim>\<open>Gen_Exit\<close> follows exceptions through
    sockets and generators.
  \<^item> \<^verbatim>\<open>Load_Memcache\<close> (\<^verbatim>\<open>load_memcache.*\<close>): the program that fills a memcache server; it interprets
    \<open>fifo_generator\<close> too.
  \<^item> \<^verbatim>\<open>Schedule\<close> (\<^verbatim>\<open>client.cc\<close>): deadlines and the setting of the timer. \<^verbatim>\<open>Client_Core\<close>: the client's state,
    the recording of a response, the summary. \<^verbatim>\<open>Client_Run\<close>: connections, sending, the event loop; what the client
    relies on is the locale \<open>client_generator\<close>. \<^verbatim>\<open>Client_Gens\<close> interprets it (as \<open>run\<close>) on the two
    generators of the program. \<^verbatim>\<open>Client_Spec\<close> and \<^verbatim>\<open>Client_Open\<close> state what runs guarantee,
    \<^verbatim>\<open>Client_Send_Only\<close> what goes wrong in send-only mode, \<^verbatim>\<open>Client_Demo\<close> is a concrete run on which their
    theorems are tried.
  \<^item> \<^verbatim>\<open>Mutated_Main\<close> (\<^verbatim>\<open>mutated_synthetic.cc\<close>, \<^verbatim>\<open>mutated_memcache.cc\<close>): the programs;
    \<^verbatim>\<open>Linux_Compat\<close> (\<^verbatim>\<open>linux_compat.hh\<close>): the client on other systems, where it ends in its constructor.
    \<^verbatim>\<open>Buffer_Demo\<close> (\<^verbatim>\<open>test1.cc\<close>): the test program of the buffer, its output evaluated, and
    a count of the objects it makes and destroys.

  \<^bold>\<open>What is shown.\<close>
  \<^item> Buffer and socket: the buffer behaves as a bounded queue; whatever parts the kernel reads or writes, responses are
    delivered as the parser of the stream (\<open>parse\<close>) prescribes, to handlers for which it does not matter where in the ring
    buffer their bytes lie, and bytes are sent once and in order; each error of receiving is told exactly by what was in the stream
    (\<open>stream_state\<close>); destruction cancels what is pending, each once and in order. All this is so while the queues of
    pending calls are not full; with a full queue nothing is called, which the same theorems state.
  \<^item> Generators: responses are matched with the oldest request; the consistency checks of the code never fail; the
    bytes of requests, the latencies, the cancellation.
  \<^item> Client: at every point of every run, requests sent are answered or outstanding, generators are referenced exactly by
    the pool and their outstanding requests, and what is recorded together with what is outstanding is exactly what was measured. Requests
    are sent when due, independently of the responses (open loop). No loop of the client runs for ever,
    and the program exits only when all requests have been answered, having printed as many samples as were asked for.
  \<^item> Schedule, options, statistics, protocol, loader: the phases of the schedule and when its computation ends, the accepted
    configurations and when the usage is printed, percentiles, wire formats, and the streams and outcomes of the loader.
  \<^item> Errors: several theorems state what goes wrong at the limits of the code (a full buffer in a range-based loop, a read past
    the schedule with the busy timer, an index that overflows, a callback into a deleted generator, which in
    send-only mode the first request comes to when each has its own connection, a memcache header that lies across the end of
    the ring buffer, keys that collide).

  \<^bold>\<open>Conventions.\<close> Exceptions and undefined behaviour are values (\<open>res\<close>). What comes from outside is an
  argument: the kernel's answers are scripts (lists of answers to successive calls; a script used up means that the kernel
  would block), the clock, the random draws and the rounding of floating-point numbers are functions. Statements
  about runs hold for all scripts. Handlers of sockets do not touch the socket that calls them, which the generators of the
  program respect. The destructor of a socket is \<^verbatim>\<open>noexcept\<close>: an exception value that comes from a callback there
  stands for the end of the program. Loops that may not end (\<open>fill_until\<close>, \<open>timer_loop\<close>, \<open>busy_loop\<close>) are partial functions
  with \<open>None\<close> for not ending, and are shown to end; all other recursions are on lists or numbers, or bounded by the
  capacity of a buffer. The walk of the buffer's iterator has as fuel the size of the buffer, beyond which it
  cannot go without repeating. The theorems about runs, but for the one on send-only mode, assume that this mode, in which no
  responses are expected, is off.
  Counters of the client are natural numbers; those of the loader and all protocol fields have their widths.

  \<^bold>\<open>Not modelled.\<close>
  \<^item> The layout of the summary, whose data is modelled, and what goes to the error stream before an error of a system call
    aborts the program.
  \<^item> The move of a segment onto itself in \<^verbatim>\<open>socket_vec.cc\<close> is taken to leave it unchanged, and allocation to
    succeed.
  \<^item> Servers and scripts outside \<^verbatim>\<open>src/client\<close>.
\<close>

end
